(* ===== verification/Prelude.thy ===== *)
theory Prelude
  imports Main "HOL-Library.Word"
begin

text \<open>
  Shared vocabulary of the development: the machine integer types of the C and C++ sources,
  the collections of facts that carry the component proofs, and the generic lemmas on lists
  and words that several components use.
\<close>

named_theorems trace_simps "facts that compute the calls and the live objects of a run"

named_theorems path_simps "facts that compute on lexical paths"

named_theorems step_defs "definitions of the step functions of the concurrent components"

type_synonym u32 = "32 word"
type_synonym u64 = "64 word"
type_synonym env = "string \<Rightarrow> string option"

abbreviation UINT32_MAX :: nat where "UINT32_MAX \<equiv> 4294967295"
abbreviation UINT64_MAX :: nat where "UINT64_MAX \<equiv> 18446744073709551615"
abbreviation INT32_MAX :: int where "INT32_MAX \<equiv> 2147483647"
abbreviation INT32_MIN :: int where "INT32_MIN \<equiv> - 2147483648"
abbreviation INT64_MAX :: int where "INT64_MAX \<equiv> 9223372036854775807"
abbreviation INT64_MIN :: int where "INT64_MIN \<equiv> - 9223372036854775808"

section \<open>Words\<close>

lemma unat_Suc_no_wrap: "unat (w :: 'a::len word) < unat (v :: 'a word) \<Longrightarrow> unat (w + 1) = Suc (unat w)"
proof -
  assume lt: "unat w < unat v"
  have "unat v < 2 ^ LENGTH('a)" by (rule unsigned_less)
  with lt have "unat w + 1 < 2 ^ LENGTH('a)" by linarith
  then show ?thesis by (simp add: unat_word_ariths)
qed

lemma unat_Suc_eq: "unat (w :: 'a::len word) = Suc (unat v) \<Longrightarrow> w = v + 1"
proof -
  assume e: "unat w = Suc (unat v)"
  have "(of_nat (unat w) :: 'a word) = of_nat (unat v) + 1" by (simp add: e)
  then show ?thesis by simp
qed

lemma unat_sub_no_wrap: "unat (b :: 'a::len word) \<le> unat a \<Longrightarrow> unat (a - b) = unat a - unat b"
  by (rule unat_sub) (simp add: word_le_nat_alt)

lemma unat_u32_less: "unat (v :: u32) \<le> UINT32_MAX"
proof -
  have "unat v < 2 ^ LENGTH(32)" by (rule unsigned_less)
  then show ?thesis by simp
qed

lemma unat_ucast_u32_u64 [simp]: "unat (ucast (v :: u32) :: u64) = unat v"
  by transfer (simp add: take_bit_eq_mod)

lemma ucast_u64_u32_back [simp]: "(ucast (ucast (v :: u32) :: u64) :: u32) = v"
  by transfer simp

section \<open>Lists\<close>

lemma takeWhile_all_append:
  "(\<forall>x\<in>set xs. P x) \<Longrightarrow> takeWhile P (xs @ ys) = xs @ takeWhile P ys"
  by (induction xs) auto

lemma dropWhile_all_append:
  "(\<forall>x\<in>set xs. P x) \<Longrightarrow> dropWhile P (xs @ ys) = dropWhile P ys"
  by (induction xs) auto

lemma last_split: "xs \<noteq> [] \<Longrightarrow> \<exists>ys y. xs = ys @ [y]"
  by (metis append_butlast_last_id)

lemma sorted_ends:
  assumes "0 < length (xs :: 'a::linorder list)"
  shows "sort xs ! 0 = Min (set xs)" "sort xs ! (length xs - 1) = Max (set xs)"
proof -
  let ?ys = "sort xs"
  have ne: "0 < length ?ys" using assms by simp
  show "?ys ! 0 = Min (set xs)"
  proof (rule Min_eqI [symmetric])
    show "?ys ! 0 \<in> set xs" using nth_mem [OF ne] by simp
    show "?ys ! 0 \<le> y" if y: "y \<in> set xs" for y
    proof -
      obtain i where "i < length ?ys" "?ys ! i = y"
        using y in_set_conv_nth [of y ?ys] by auto
      then show ?thesis using sorted_nth_mono [OF sorted_sort, of 0 i] by auto
    qed
  qed simp
  show "?ys ! (length xs - 1) = Max (set xs)"
  proof (rule Max_eqI [symmetric])
    have "length xs - 1 < length ?ys" using assms by simp
    from nth_mem [OF this] show "?ys ! (length xs - 1) \<in> set xs" by simp
    show "y \<le> ?ys ! (length xs - 1)" if y: "y \<in> set xs" for y
    proof -
      obtain i where "i < length ?ys" "?ys ! i = y"
        using y in_set_conv_nth [of y ?ys] by auto
      then show ?thesis using sorted_nth_mono [OF sorted_sort, of i "length xs - 1" xs] by auto
    qed
  qed simp
qed

end
