(* ===== verification/CString.thy ===== *)
theory CString
  imports Prelude
begin

text \<open>
  The parts of the C standard library that the sources use to read numbers from strings
  (strtol, strtoul, isspace, isdigit), the decimal printing of std::to_string, and the
  readers of environment variables built on them in the sources:
  getenv_u32_checked, getenv_u32_or_default and getenv_u32_first_of of the DPU hosts,
  ParseEnvMillis of server/task_executor.cc.  A process environment is a map
  from names to values; getenv is the application of that map.
\<close>

section \<open>Characters and decimal digits\<close>

definition c_isspace :: "char \<Rightarrow> bool" where
  "c_isspace c \<longleftrightarrow> of_char c = (32::nat) \<or> (9 \<le> (of_char c :: nat) \<and> of_char c \<le> (13::nat))"

definition c_isdigit :: "char \<Rightarrow> bool" where
  "c_isdigit c \<longleftrightarrow> 48 \<le> (of_char c :: nat) \<and> of_char c \<le> (57::nat)"

definition digit_val :: "char \<Rightarrow> nat" where
  "digit_val c = of_char c - 48"

definition digit_char :: "nat \<Rightarrow> char" where
  "digit_char d = char_of (48 + d)"

definition digits_value :: "string \<Rightarrow> nat" where
  "digits_value ds = foldl (\<lambda>acc c. 10 * acc + digit_val c) 0 ds"

fun to_dec :: "nat \<Rightarrow> string" where
  "to_dec n = (if n < 10 then [digit_char n] else to_dec (n div 10) @ [digit_char (n mod 10)])"

declare to_dec.simps [simp del]

definition to_string :: "int \<Rightarrow> string" where
  "to_string i = (if i < 0 then CHR ''-'' # to_dec (nat (- i)) else to_dec (nat i))"

section \<open>strtol and strtoul\<close>

text \<open>
  Both skip white space, take an optional sign and then the longest run of digits; with no
  digit there is no conversion and the end pointer is the start of the string.
\<close>

definition parse_decimal :: "string \<Rightarrow> (bool \<times> nat \<times> string) option" where
  "parse_decimal s =
     (let t = dropWhile c_isspace s;
          neg = (t \<noteq> [] \<and> hd t = CHR ''-'');
          u = (if t \<noteq> [] \<and> (hd t = CHR ''-'' \<or> hd t = CHR ''+'') then tl t else t);
          ds = takeWhile c_isdigit u
      in if ds = [] then None else Some (neg, digits_value ds, dropWhile c_isdigit u))"

record 'a strto_result =
  st_value :: 'a
  st_end :: string
  st_erange :: bool

definition strtoul :: "string \<Rightarrow> u64 strto_result" where
  "strtoul s =
     (case parse_decimal s of
        None \<Rightarrow> \<lparr>st_value = 0, st_end = s, st_erange = False\<rparr>
      | Some (neg, m, rest) \<Rightarrow>
          (if UINT64_MAX < m
           then \<lparr>st_value = - 1, st_end = rest, st_erange = True\<rparr>
           else \<lparr>st_value = (if neg then - of_nat m else of_nat m), st_end = rest, st_erange = False\<rparr>))"

definition strtol :: "string \<Rightarrow> int strto_result" where
  "strtol s =
     (case parse_decimal s of
        None \<Rightarrow> \<lparr>st_value = 0, st_end = s, st_erange = False\<rparr>
      | Some (neg, m, rest) \<Rightarrow>
          (let v = (if neg then - int m else int m) in
           if v < INT64_MIN then \<lparr>st_value = INT64_MIN, st_end = rest, st_erange = True\<rparr>
           else if INT64_MAX < v then \<lparr>st_value = INT64_MAX, st_end = rest, st_erange = True\<rparr>
           else \<lparr>st_value = v, st_end = rest, st_erange = False\<rparr>))"

section \<open>Environment readers of the DPU hosts\<close>

text \<open>
  The C function returns a flag and writes its out parameter on success only; the model
  returns None for false. The test end == value holds exactly when nothing was consumed.
\<close>

definition getenv_u32_checked :: "env \<Rightarrow> string \<Rightarrow> u32 option" where
  "getenv_u32_checked getenv name =
     (case getenv name of
        None \<Rightarrow> None
      | Some value \<Rightarrow>
          if value = [] then None
          else (let r = strtoul value in
            if st_erange r \<or> st_end r = value \<or> st_end r \<noteq> [] \<or> UINT32_MAX < unat (st_value r)
            then None
            else Some (ucast (st_value r))))"

definition getenv_u32_or_default :: "env \<Rightarrow> string \<Rightarrow> u32 \<Rightarrow> u32" where
  "getenv_u32_or_default getenv name default_value =
     (case getenv_u32_checked getenv name of
        Some parsed_value \<Rightarrow> parsed_value
      | None \<Rightarrow> default_value)"

fun getenv_u32_first_of :: "env \<Rightarrow> string list \<Rightarrow> u32 \<Rightarrow> u32" where
  "getenv_u32_first_of getenv [] default_value = default_value"
| "getenv_u32_first_of getenv (name # names) default_value =
     (case getenv_u32_checked getenv name of
        Some parsed_value \<Rightarrow> parsed_value
      | None \<Rightarrow> getenv_u32_first_of getenv names default_value)"

definition getenv_str_or_default :: "env \<Rightarrow> string \<Rightarrow> string \<Rightarrow> string" where
  "getenv_str_or_default getenv name default_value =
     (case getenv name of
        None \<Rightarrow> default_value
      | Some value \<Rightarrow> if value = [] then default_value else value)"

section \<open>ParseEnvMillis of the task executor\<close>

definition ParseEnvMillis :: "env \<Rightarrow> string \<Rightarrow> int \<Rightarrow> int" where
  "ParseEnvMillis getenv name default_ms =
     (case getenv name of
        None \<Rightarrow> default_ms
      | Some value \<Rightarrow>
          if value = [] then default_ms
          else (let r = strtol value; parsed = st_value r in
            if st_end r = value \<or> st_end r \<noteq> [] then default_ms
            else if parsed < 0 then -1
            else if parsed > 24 * 60 * 60 * 1000 then 24 * 60 * 60 * 1000
            else parsed))"


section \<open>Decimal printing is read back\<close>

lemma digit_char_props [simp]:
  assumes "d < 10"
  shows "c_isdigit (digit_char d)" "digit_val (digit_char d) = d"
    "\<not> c_isspace (digit_char d)" "digit_char d \<noteq> CHR ''-''" "digit_char d \<noteq> CHR ''+''"
proof -
  have v: "(of_char (digit_char d) :: nat) = 48 + d"
    using assms by (simp add: digit_char_def)
  show "c_isdigit (digit_char d)" "digit_val (digit_char d) = d" "\<not> c_isspace (digit_char d)"
    using assms v by (auto simp: c_isdigit_def digit_val_def c_isspace_def)
  show "digit_char d \<noteq> CHR ''-''" "digit_char d \<noteq> CHR ''+''"
    using v by (auto dest: arg_cong [where f = "of_char :: char \<Rightarrow> nat"])
qed

lemma digits_value_snoc [simp]: "digits_value (ds @ [c]) = 10 * digits_value ds + digit_val c"
  by (simp add: digits_value_def)

lemma to_dec_nonempty [simp]: "to_dec n \<noteq> []"
  by (subst to_dec.simps) simp

lemma Nil_neq_to_dec [simp]: "[] \<noteq> to_dec n"
  using to_dec_nonempty by metis

lemma to_dec_digits: "\<forall>c\<in>set (to_dec n). c_isdigit c"
proof (induction n rule: to_dec.induct)
  case (1 n)
  then show ?case by (subst to_dec.simps) auto
qed

lemma to_dec_value [simp]: "digits_value (to_dec n) = n"
proof (induction n rule: to_dec.induct)
  case (1 n)
  show ?case
  proof (cases "n < 10")
    case True
    then show ?thesis by (subst to_dec.simps) (simp add: digits_value_def)
  next
    case False
    with 1 show ?thesis by (subst to_dec.simps) simp
  qed
qed

lemma to_dec_hd: "\<exists>d<10. hd (to_dec n) = digit_char d"
proof (induction n rule: to_dec.induct)
  case (1 n)
  then show ?case by (subst (1) to_dec.simps) auto
qed

lemma parse_decimal_to_dec [simp]: "parse_decimal (to_dec n) = Some (False, n, [])"
proof -
  obtain d where d: "d < 10" "hd (to_dec n) = digit_char d" using to_dec_hd by blast
  obtain c cs where c: "to_dec n = c # cs" by (cases "to_dec n") auto
  have space: "dropWhile c_isspace (to_dec n) = to_dec n" using d c by auto
  have all: "takeWhile c_isdigit (to_dec n) = to_dec n" "dropWhile c_isdigit (to_dec n) = []"
    using to_dec_digits by (auto simp: takeWhile_eq_all_conv dropWhile_eq_Nil_conv)
  show ?thesis
    using d by (simp add: parse_decimal_def space all Let_def)
qed

lemma parse_decimal_minus_to_dec [simp]:
  "parse_decimal (CHR ''-'' # to_dec n) = Some (True, n, [])"
proof -
  have all: "takeWhile c_isdigit (to_dec n) = to_dec n" "dropWhile c_isdigit (to_dec n) = []"
    using to_dec_digits by (auto simp: takeWhile_eq_all_conv dropWhile_eq_Nil_conv)
  show ?thesis by (simp add: parse_decimal_def c_isspace_def all Let_def)
qed

lemma strtol_to_string [simp]:
  "INT64_MIN \<le> i \<Longrightarrow> i \<le> INT64_MAX \<Longrightarrow>
     strtol (to_string i) = \<lparr>st_value = i, st_end = [], st_erange = False\<rparr>"
  by (auto simp: strtol_def to_string_def Let_def)

lemma to_string_nonempty [simp]: "to_string i \<noteq> []"
  by (simp add: to_string_def)

lemma strtoul_to_dec [simp]:
  "m \<le> UINT64_MAX \<Longrightarrow> strtoul (to_dec m) = \<lparr>st_value = of_nat m, st_end = [], st_erange = False\<rparr>"
  by (simp add: strtoul_def)

text \<open>every 32 bit value, written in decimal into an environment variable, is read back
  unchanged by the DPU host's checked reader.\<close>

theorem getenv_u32_roundtrip:
  assumes "getenv name = Some (to_dec (unat v))"
  shows "getenv_u32_checked getenv name = Some v"
proof -
  have v: "unat v \<le> UINT32_MAX" by (rule unat_u32_less)
  show ?thesis using assms v
    by (simp add: getenv_u32_checked_def Let_def)
qed


theorem getenv_u32_roundtrip_witness:
  "getenv_u32_checked [''DPA_DEMO_TASKS'' \<mapsto> to_dec (unat (20 :: u32))] ''DPA_DEMO_TASKS'' = Some 20"
  by (rule getenv_u32_roundtrip) simp

text \<open>the first variable of the list that holds a well formed 32 bit number decides the
  value, whatever the variables before it hold that is not a number, and the default is used
  exactly when none does.\<close>

theorem getenv_u32_first_of_spec:
  "getenv_u32_first_of getenv names d =
     (case List.find (\<lambda>n. getenv_u32_checked getenv n \<noteq> None) names of
        None \<Rightarrow> d
      | Some n \<Rightarrow> the (getenv_u32_checked getenv n))"
  by (induction names) (auto split: option.splits)

text \<open>the idle timeout read from the environment is the caller's default, or lies between
  -1 (disabled) and one day.\<close>

theorem ParseEnvMillis_bounds:
  "ParseEnvMillis getenv name d = d \<or>
     (-1 \<le> ParseEnvMillis getenv name d \<and> ParseEnvMillis getenv name d \<le> 86400000)"
  by (auto simp: ParseEnvMillis_def Let_def split: option.splits)

text \<open>a number of milliseconds printed in decimal is read back as that number capped at one
  day, and every negative number is read as -1.\<close>

theorem ParseEnvMillis_reads_back:
  assumes "INT64_MIN \<le> i" "i \<le> INT64_MAX" "getenv name = Some (to_string i)"
  shows "ParseEnvMillis getenv name d = (if i < 0 then -1 else min i 86400000)"
proof -
  have ne: "[] \<noteq> to_string i" using to_string_nonempty by metis
  show ?thesis using assms by (auto simp: ParseEnvMillis_def Let_def ne)
qed

theorem ParseEnvMillis_reads_back_witness:
  "ParseEnvMillis [''RPC_WORK_IDLE_TIMEOUT_MS'' \<mapsto> to_string 1500] ''RPC_WORK_IDLE_TIMEOUT_MS'' (-1) = 1500"
  using ParseEnvMillis_reads_back [of 1500 "[''RPC_WORK_IDLE_TIMEOUT_MS'' \<mapsto> to_string 1500]"
    "''RPC_WORK_IDLE_TIMEOUT_MS''" "-1"] by simp

text \<open>strtoul accepts a sign, so a negative number of the right size passes the checks of the
  DPU host's reader.\<close>

theorem getenv_u32_accepts_negative:
  "getenv_u32_checked [''DPA_DEMO_TASKS'' \<mapsto> ''-18446744073709551615''] ''DPA_DEMO_TASKS'' = Some 1"
proof -
  have "parse_decimal ''-18446744073709551615'' = Some (True, UINT64_MAX, [])"
    by (simp add: parse_decimal_def c_isspace_def c_isdigit_def digits_value_def digit_val_def)
  then show ?thesis by (simp add: getenv_u32_checked_def strtoul_def)
qed

end
