(* ===== verification/Doca.thy ===== *)
theory Doca
  imports Prelude
begin

text \<open>
  The interface of the DPU hosts to the DOCA SDK, which is not part of the repository. The SDK
  is a parameter of the model: a record that answers each call from the history of the calls
  made before it, with an error code and the values the call writes through its pointers. A
  run of the host is the list of the calls it made with their answers, and the live objects of
  a run are those created by a successful call and not yet handed to their destroy call.
\<close>

section \<open>Error codes, pointers and calls\<close>

datatype doca_error =
    DOCA_SUCCESS
  | DOCA_ERROR_INVALID_VALUE
  | DOCA_ERROR_NOT_FOUND
  | DOCA_ERROR_NOT_SUPPORTED
  | DOCA_ERROR_NO_MEMORY
  | DOCA_ERROR_UNEXPECTED
  | DOCA_ERROR_OTHER nat

text \<open>A pointer to an SDK object: None is NULL.\<close>

type_synonym handle = nat
type_synonym ptr = "handle option"

datatype doca_kind =
  KSyncEvent | KRemoteNetEvent | KDpa | KDev | KDevList | KThread | KCompletion
  | KNotification | KSrq | KRdma | KMmap | KArgp

text \<open>
  The calls that create or destroy an object are distinguished from the others, which are
  named by their C function. The pointer and the integer arguments are listed in the order of
  the C function; pointers through which a call writes are left out, since what is written is
  part of the answer. The object of doca_argp_init is the process wide parser, handle 0.
\<close>

datatype doca_call =
    Create doca_kind "ptr list" "u64 list"
  | Destroy doca_kind ptr
  | Invoke string "ptr list" "u64 list"

text \<open>
  What a call gives back: the error code, the handle and the length written through its out
  parameters, the device list of DevinfoCreateList, the name of DevinfoGetIbdevName, and the
  option values that ArgpStart hands to the registered callback.
\<close>

record answer =
  a_err :: doca_error
  a_out :: handle
  a_len :: nat
  a_list :: "handle list"
  a_name :: string
  a_params :: "string list"

type_synonym trace = "(doca_call \<times> answer) list"

text \<open>
  The SDK: its answers, its macro DOCA_ERROR_PROPAGATE and its constant
  DOCA_DEVINFO_IBDEV_NAME_SIZE.
\<close>

record sdk =
  sdk_answer :: "trace \<Rightarrow> doca_call \<Rightarrow> answer"
  sdk_propagate :: "doca_error \<Rightarrow> doca_error \<Rightarrow> doca_error"
  sdk_ibdev_name_size :: nat

definition call :: "sdk \<Rightarrow> doca_call \<Rightarrow> trace \<Rightarrow> answer \<times> trace" where
  "call S c t = (let a = sdk_answer S t c in (a, t @ [(c, a)]))"

definition ok_answer :: answer where
  "ok_answer = \<lparr>a_err = DOCA_SUCCESS, a_out = 0, a_len = 0, a_list = [], a_name = [], a_params = []\<rparr>"

text \<open>
  A chain of calls each of which jumps to the same clean-up on error: the calls run in order
  and stop at the first one that fails. The answer is that of the last call made.
\<close>

fun run_until_error :: "sdk \<Rightarrow> doca_call list \<Rightarrow> trace \<Rightarrow> answer \<times> trace" where
  "run_until_error S [] t = (ok_answer, t)"
| "run_until_error S (c # cs) t =
     (let (a, t') = call S c t in
      if a_err a \<noteq> DOCA_SUCCESS \<or> cs = [] then (a, t') else run_until_error S cs t')"

text \<open>Calls whose results the code does not look at.\<close>

fun run_ignoring :: "sdk \<Rightarrow> doca_call list \<Rightarrow> trace \<Rightarrow> trace" where
  "run_ignoring S [] t = t"
| "run_ignoring S (c # cs) t = run_ignoring S cs (snd (call S c t))"

text \<open>The recurring last step of a destroy function: keep the first error.\<close>

definition propagate_if_error :: "sdk \<Rightarrow> doca_error \<Rightarrow> doca_error \<Rightarrow> doca_error" where
  "propagate_if_error S result tmp_result =
     (if tmp_result \<noteq> DOCA_SUCCESS then sdk_propagate S result tmp_result else result)"

text \<open>The documented meaning of DOCA_ERROR_PROPAGATE: the first error wins.\<close>

definition keeps_first_error :: "sdk \<Rightarrow> bool" where
  "keeps_first_error S \<longleftrightarrow>
     (\<forall>t. sdk_propagate S DOCA_SUCCESS t = t) \<and>
     (\<forall>r t. r \<noteq> DOCA_SUCCESS \<longrightarrow> sdk_propagate S r t = r)"

section \<open>Live objects\<close>

type_synonym object = "doca_kind \<times> handle"

definition created_handle :: "doca_kind \<Rightarrow> answer \<Rightarrow> handle" where
  "created_handle k a = (if k = KArgp then 0 else a_out a)"

fun live_step :: "object list \<Rightarrow> doca_call \<times> answer \<Rightarrow> object list" where
  "live_step L (Create k ps ns, a) =
     (if a_err a = DOCA_SUCCESS then (k, created_handle k a) # L else L)"
| "live_step L (Destroy k (Some h), a) = remove1 (k, h) L"
| "live_step L (Destroy k None, a) = L"
| "live_step L (Invoke f ps ns, a) = L"

definition live :: "trace \<Rightarrow> object list" where
  "live t = foldl live_step [] t"

text \<open>The objects handed to a destroy call while they are not live.\<close>

fun destroyed_dead :: "object list \<Rightarrow> doca_call \<times> answer \<Rightarrow> bool" where
  "destroyed_dead L (Destroy k (Some h), a) \<longleftrightarrow> (k, h) \<notin> set L"
| "destroyed_dead L ev \<longleftrightarrow> False"

fun double_destroy_from :: "object list \<Rightarrow> trace \<Rightarrow> bool" where
  "double_destroy_from L [] = False"
| "double_destroy_from L (ev # evs) =
     (destroyed_dead L ev \<or> double_destroy_from (live_step L ev) evs)"

definition double_destroy :: "trace \<Rightarrow> bool" where
  "double_destroy t = double_destroy_from [] t"

section \<open>Calculating with traces\<close>

lemma live_Nil [simp]: "live [] = []"
  by (simp add: live_def)

lemma live_append [simp]: "live (t @ evs) = foldl live_step (live t) evs"
  by (simp add: live_def)

fun is_invoke :: "doca_call \<Rightarrow> bool" where
  "is_invoke (Invoke f ps ns) = True"
| "is_invoke c = False"

lemma live_step_invoke [simp]: "is_invoke c \<Longrightarrow> live_step L (c, a) = L"
  by (cases c) auto

lemma call_trace: "call S c t = (sdk_answer S t c, t @ [(c, sdk_answer S t c)])"
  by (simp add: call_def Let_def)

lemma live_run_invokes:
  "\<forall>c\<in>set cs. is_invoke c \<Longrightarrow> live (snd (run_until_error S cs t)) = live t"
  by (induction cs arbitrary: t) (auto simp: call_trace)

lemma live_run_invokes':
  "run_until_error S cs t = (a, t') \<Longrightarrow> \<forall>c\<in>set cs. is_invoke c \<Longrightarrow> live t' = live t"
  using live_run_invokes [of cs S t] by simp

lemma live_run_ignoring: "\<forall>c\<in>set cs. is_invoke c \<Longrightarrow> live (run_ignoring S cs t) = live t"
  by (induction cs arbitrary: t) (auto simp: call_trace)

lemma double_destroy_from_append:
  "double_destroy_from L (xs @ ys) \<longleftrightarrow>
     double_destroy_from L xs \<or> double_destroy_from (foldl live_step L xs) ys"
  by (induction xs arbitrary: L) auto

lemma double_destroy_append [simp]:
  "double_destroy (xs @ ys) \<longleftrightarrow> double_destroy xs \<or> double_destroy_from (live xs) ys"
  by (simp add: double_destroy_def double_destroy_from_append live_def)

text \<open>
  A run from t to t' keeps the objects when it ends with the same live objects and has not
  handed a dead object to a destroy call.
\<close>

definition keeps_objects :: "trace \<Rightarrow> trace \<Rightarrow> bool" where
  "keeps_objects t t' \<longleftrightarrow> live t' = live t \<and> double_destroy t' = double_destroy t"

lemma keeps_objects_refl [simp, intro]: "keeps_objects t t"
  by (simp add: keeps_objects_def)

lemma keeps_objects_trans: "keeps_objects t t' \<Longrightarrow> keeps_objects t' t'' \<Longrightarrow> keeps_objects t t''"
  by (simp add: keeps_objects_def)

lemma keeps_objects_invoke [simp]: "keeps_objects t (t @ [(Invoke f ps ns, a)]) "
  by (simp add: keeps_objects_def)

lemma destroyed_dead_invoke [simp]: "is_invoke c \<Longrightarrow> \<not> destroyed_dead L (c, a)"
  by (cases c) auto

lemma keeps_objects_call: "is_invoke c \<Longrightarrow> keeps_objects t (t @ [(c, a)])"
  by (simp add: keeps_objects_def)

text \<open>
  The effect of one call on the objects, as destruction rules: they keep the intermediate
  traces of a long function as variables.
\<close>

lemma call_Invoke:
  "call S (Invoke f ps ns) t = (a, t') \<Longrightarrow> live t' = live t \<and> double_destroy t' = double_destroy t"
  by (auto simp: call_trace)

lemma call_Create:
  "call S (Create k ps ns) t = (a, t') \<Longrightarrow>
     live t' = (if a_err a = DOCA_SUCCESS then (k, created_handle k a) # live t else live t) \<and>
     double_destroy t' = double_destroy t"
  by (auto simp: call_trace)

lemma call_Destroy:
  "call S (Destroy k (Some h)) t = (a, t') \<Longrightarrow>
     live t' = remove1 (k, h) (live t) \<and>
     double_destroy t' = (double_destroy t \<or> (k, h) \<notin> set (live t))"
  by (auto simp: call_trace)

lemmas call_effects = call_Invoke call_Create call_Destroy

lemma call_extends: "call S c t = (a, t') \<Longrightarrow> t' = t @ [(c, a)]"
  by (auto simp: call_trace)

lemma keeps_objects_run:
  "run_until_error S cs t = (a, t') \<Longrightarrow> \<forall>c\<in>set cs. is_invoke c \<Longrightarrow> keeps_objects t t'"
proof (induction cs arbitrary: t)
  case Nil
  then show ?case by simp
next
  case (Cons c cs)
  obtain b u where step: "call S c t = (b, u)" by (cases "call S c t")
  have u: "keeps_objects t u"
    using Cons.prems(2) call_extends [OF step] by (simp add: keeps_objects_call)
  show ?case
  proof (cases "a_err b \<noteq> DOCA_SUCCESS \<or> cs = []")
    case True
    with Cons.prems(1) step u show ?thesis by simp
  next
    case False
    with Cons.prems step have "keeps_objects u t'" by (intro Cons.IH) simp_all
    with u show ?thesis by (rule keeps_objects_trans)
  qed
qed

lemma run_Invoke:
  "run_until_error S cs t = (a, t') \<Longrightarrow> \<forall>c\<in>set cs. is_invoke c \<Longrightarrow>
     live t' = live t \<and> double_destroy t' = double_destroy t"
  using keeps_objects_run by (simp add: keeps_objects_def)

lemma keeps_objects_run_ignoring:
  "\<forall>c\<in>set cs. is_invoke c \<Longrightarrow> keeps_objects t (run_ignoring S cs t)"
proof (induction cs arbitrary: t)
  case Nil
  then show ?case by simp
next
  case (Cons c cs)
  have "keeps_objects t (t @ [(c, sdk_answer S t c)])"
    using Cons.prems by (simp add: keeps_objects_call)
  then show ?case
    using Cons.IH [of "t @ [(c, sdk_answer S t c)]"] Cons.prems keeps_objects_trans
    by (fastforce simp: call_trace)
qed

text \<open>Creating an object and handing it straight back to its destroy call.\<close>

lemma keeps_objects_create_destroy:
  assumes "live t' = (k, h) # live t" "double_destroy t' = double_destroy t"
  shows "keeps_objects t (t' @ [(Destroy k (Some h), a)])"
  using assms by (simp add: keeps_objects_def)

text \<open>A successful creation: one more live object, on top.\<close>

definition adds_object :: "trace \<Rightarrow> trace \<Rightarrow> object \<Rightarrow> bool" where
  "adds_object t t' ob \<longleftrightarrow> live t' = ob # live t \<and> double_destroy t' = double_destroy t"

lemma adds_object_create:
  "a_err a = DOCA_SUCCESS \<Longrightarrow> k \<noteq> KArgp \<Longrightarrow> adds_object t (t @ [(Create k ps ns, a)]) (k, a_out a)"
  by (simp add: adds_object_def created_handle_def)

lemma keeps_objects_failed_create:
  "a_err a \<noteq> DOCA_SUCCESS \<Longrightarrow> keeps_objects t (t @ [(Create k ps ns, a)])"
  by (simp add: keeps_objects_def)

lemma adds_object_keeps: "adds_object t t' ob \<Longrightarrow> keeps_objects t' t'' \<Longrightarrow> adds_object t t'' ob"
  by (simp add: adds_object_def keeps_objects_def)

lemma adds_object_destroy:
  "adds_object t t' (k, h) \<Longrightarrow> keeps_objects t (t' @ [(Destroy k (Some h), a)])"
  by (simp add: adds_object_def keeps_objects_def)

lemma adds_object_live: "adds_object t t' ob \<Longrightarrow> live t' = ob # live t"
  by (simp add: adds_object_def)

end
