(* ===== verification/DpaCommon.thy ===== *)
theory DpaCommon
  imports Doca
begin

text \<open>
  The helpers of application/dpu*/dpa_common.c, the same file in the three DPU hosts:
  choosing and opening a device, the DPA context, sync events, and the init and destroy pairs
  of threads, completions, RDMA objects and memory maps. Out parameters and struct fields are
  returned with the error code; logging is left out.
\<close>

section \<open>Command line parameter\<close>

record dpa_config =
  device_name :: string

record dpa_resources =
  doca_device :: ptr
  doca_dpa :: ptr

definition DEVICE_DEFAULT_NAME :: string where
  "DEVICE_DEFAULT_NAME = ''NOT_SET''"

definition device_name_param_callback ::
  "sdk \<Rightarrow> string \<Rightarrow> dpa_config \<Rightarrow> doca_error \<times> dpa_config" where
  "device_name_param_callback S param dpa_cgf =
     (let len = min (length param) (sdk_ibdev_name_size S) in
      if len = sdk_ibdev_name_size S then (DOCA_ERROR_INVALID_VALUE, dpa_cgf)
      else (DOCA_SUCCESS, dpa_cgf\<lparr>device_name := param\<rparr>))"

definition register_dpa_params :: "sdk \<Rightarrow> trace \<Rightarrow> doca_error \<times> trace" where
  "register_dpa_params S t =
     (let (a, t) = call S (Invoke ''doca_argp_param_create'' [] []) t in
      if a_err a \<noteq> DOCA_SUCCESS then (a_err a, t)
      else
        let device_param = Some (a_out a);
            t = run_ignoring S
              [Invoke ''doca_argp_param_set_short_name'' [device_param] [],
               Invoke ''doca_argp_param_set_long_name'' [device_param] [],
               Invoke ''doca_argp_param_set_arguments'' [device_param] [],
               Invoke ''doca_argp_param_set_description'' [device_param] [],
               Invoke ''doca_argp_param_set_callback'' [device_param] [],
               Invoke ''doca_argp_param_set_type'' [device_param] []] t;
            (a, t) = call S (Invoke ''doca_argp_register_param'' [device_param] []) t
        in (a_err a, t))"

section \<open>Opening a device\<close>

text \<open>
  The loop over the device list. It ends with DevReturn when opening a device fails (the list
  is destroyed and the function returns), and with DevBreak when the loop is left or exhausted.
\<close>

datatype dev_scan = DevReturn doca_error | DevBreak doca_error ptr

fun scan_devices ::
  "sdk \<Rightarrow> string \<Rightarrow> handle list \<Rightarrow> doca_error \<Rightarrow> ptr \<Rightarrow> trace \<Rightarrow> dev_scan \<times> trace" where
  "scan_devices S name [] result dev t = (DevBreak result dev, t)"
| "scan_devices S name (d # ds) result dev t =
     (let (a, t) = call S (Invoke ''doca_dpa_cap_is_supported'' [Some d] []) t in
      if a_err a \<noteq> DOCA_SUCCESS then scan_devices S name ds (a_err a) dev t
      else
        let (a, t) = call S (Invoke ''doca_devinfo_get_ibdev_name'' [Some d] []) t in
        if a_err a \<noteq> DOCA_SUCCESS \<or> (name \<noteq> DEVICE_DEFAULT_NAME \<and> name \<noteq> a_name a)
        then scan_devices S name ds (a_err a) dev t
        else
          let (a, t) = call S (Create KDev [Some d] []) t in
          if a_err a \<noteq> DOCA_SUCCESS then (DevReturn (a_err a), t)
          else (DevBreak (a_err a) (Some (a_out a)), t))"

definition open_dpa_device ::
  "sdk \<Rightarrow> string \<Rightarrow> ptr \<Rightarrow> trace \<Rightarrow> doca_error \<times> ptr \<times> trace" where
  "open_dpa_device S name dev t =
     (let (a, t) = call S (Create KDevList [] []) t in
      if a_err a \<noteq> DOCA_SUCCESS then (a_err a, dev, t)
      else
        let dev_list = Some (a_out a);
            (r, t) = scan_devices S name (a_list a) (a_err a) dev t;
            t = snd (call S (Destroy KDevList dev_list) t)
        in (case r of
              DevReturn e \<Rightarrow> (e, dev, t)
            | DevBreak result dev \<Rightarrow>
                if dev = None then (DOCA_ERROR_NOT_FOUND, dev, t) else (result, dev, t)))"

section \<open>Sync events\<close>

text \<open>
  The four create functions share their shape: create, then a chain of set-up calls; when one
  of them fails the new event is destroyed and the error of the chain is kept. The out
  parameter is written by the create call, and stays written when the event is destroyed.
\<close>

definition create_sync_event ::
  "sdk \<Rightarrow> (ptr \<Rightarrow> doca_call list) \<Rightarrow> ptr \<Rightarrow> trace \<Rightarrow> answer \<times> ptr \<times> trace" where
  "create_sync_event S setup ev t =
     (let (a, t) = call S (Create KSyncEvent [] []) t in
      if a_err a \<noteq> DOCA_SUCCESS then (a, ev, t)
      else
        let ev = Some (a_out a);
            (a, t) = run_until_error S (setup ev) t
        in if a_err a = DOCA_SUCCESS then (a, ev, t)
           else let (d, t) = call S (Destroy KSyncEvent ev) t in
             (a\<lparr>a_err := propagate_if_error S (a_err a) (a_err d)\<rparr>, ev, t))"

definition create_doca_dpa_wait_sync_event ::
  "sdk \<Rightarrow> ptr \<Rightarrow> ptr \<Rightarrow> ptr \<Rightarrow> trace \<Rightarrow> doca_error \<times> ptr \<times> trace" where
  "create_doca_dpa_wait_sync_event S dpa dev wait_event t =
     (let (a, ev, t) = create_sync_event S (\<lambda>ev.
        [Invoke ''doca_sync_event_add_publisher_location_cpu'' [ev, dev] [],
         Invoke ''doca_sync_event_add_subscriber_location_dpa'' [ev, dpa] [],
         Invoke ''doca_sync_event_start'' [ev] []]) wait_event t
      in (a_err a, ev, t))"

text \<open>The caller's handle pointer may be NULL: want_handle is whether it is not.\<close>

definition create_doca_dpa_completion_sync_event ::
  "sdk \<Rightarrow> ptr \<Rightarrow> ptr \<Rightarrow> ptr \<Rightarrow> bool \<Rightarrow> trace \<Rightarrow> doca_error \<times> ptr \<times> handle option \<times> trace" where
  "create_doca_dpa_completion_sync_event S dpa dev comp_event want_handle t =
     (let (a, ev, t) = create_sync_event S (\<lambda>ev.
        [Invoke ''doca_sync_event_add_publisher_location_dpa'' [ev, dpa] [],
         Invoke ''doca_sync_event_add_subscriber_location_cpu'' [ev, dev] [],
         Invoke ''doca_sync_event_start'' [ev] []] @
        (if want_handle then [Invoke ''doca_sync_event_get_dpa_handle'' [ev, dpa] []] else [])) comp_event t
      in (a_err a, ev, (if want_handle \<and> a_err a = DOCA_SUCCESS then Some (a_out a) else None), t))"

definition create_doca_dpa_kernel_sync_event ::
  "sdk \<Rightarrow> ptr \<Rightarrow> ptr \<Rightarrow> trace \<Rightarrow> doca_error \<times> ptr \<times> trace" where
  "create_doca_dpa_kernel_sync_event S dpa kernel_event t =
     (let (a, ev, t) = create_sync_event S (\<lambda>ev.
        [Invoke ''doca_sync_event_add_publisher_location_dpa'' [ev, dpa] [],
         Invoke ''doca_sync_event_add_subscriber_location_dpa'' [ev, dpa] [],
         Invoke ''doca_sync_event_start'' [ev] []]) kernel_event t
      in (a_err a, ev, t))"

definition create_doca_remote_net_sync_event ::
  "sdk \<Rightarrow> ptr \<Rightarrow> ptr \<Rightarrow> trace \<Rightarrow> doca_error \<times> ptr \<times> trace" where
  "create_doca_remote_net_sync_event S dev remote_net_event t =
     (let (a, ev, t) = create_sync_event S (\<lambda>ev.
        [Invoke ''doca_sync_event_add_publisher_location_remote_net'' [ev] [],
         Invoke ''doca_sync_event_add_subscriber_location_cpu'' [ev, dev] [],
         Invoke ''doca_sync_event_start'' [ev] []]) remote_net_event t
      in (a_err a, ev, t))"

definition export_doca_remote_net_sync_event_to_dpa ::
  "sdk \<Rightarrow> ptr \<Rightarrow> ptr \<Rightarrow> ptr \<Rightarrow> ptr \<Rightarrow> trace \<Rightarrow> doca_error \<times> ptr \<times> handle option \<times> trace" where
  "export_doca_remote_net_sync_event_to_dpa S dev dpa remote_net_event exported t =
     (let (a, t) = call S (Invoke ''doca_sync_event_export_to_remote_net'' [remote_net_event] []) t in
      if a_err a \<noteq> DOCA_SUCCESS then (a_err a, exported, None, t)
      else
        let (a, t) = call S (Create KRemoteNetEvent [dev, Some (a_out a)] [of_nat (a_len a)]) t in
        if a_err a \<noteq> DOCA_SUCCESS then (a_err a, exported, None, t)
        else
          let exported = Some (a_out a);
              (a, t) = call S (Invoke ''doca_sync_event_remote_net_get_dpa_handle'' [exported, dpa] []) t
          in if a_err a = DOCA_SUCCESS then (a_err a, exported, Some (a_out a), t)
             else let (d, t) = call S (Destroy KRemoteNetEvent exported) t in
               (propagate_if_error S (a_err a) (a_err d), exported, None, t))"

section \<open>The DPA context\<close>

definition allocate_dpa_resources ::
  "sdk \<Rightarrow> dpa_config \<Rightarrow> dpa_resources \<Rightarrow> trace \<Rightarrow> doca_error \<times> dpa_resources \<times> trace" where
  "allocate_dpa_resources S cfg res t =
     (let (e, dev, t) = open_dpa_device S (device_name cfg) (doca_device res) t;
          res = res\<lparr>doca_device := dev\<rparr>
      in if e \<noteq> DOCA_SUCCESS then (e, res, t)
      else
        let (a, t) = call S (Create KDpa [dev] []) t in
        if a_err a \<noteq> DOCA_SUCCESS
        then (a_err a, res, run_ignoring S [Destroy KDev dev] t)
        else
          let dpa = Some (a_out a);
              res = res\<lparr>doca_dpa := dpa\<rparr>;
              (a, t) = run_until_error S
                [Invoke ''doca_dpa_set_app'' [dpa] [], Invoke ''doca_dpa_start'' [dpa] []] t
          in if a_err a \<noteq> DOCA_SUCCESS
             then (a_err a, res, run_ignoring S [Destroy KDpa dpa, Destroy KDev dev] t)
             else (a_err a, res, t))"

definition destroy_dpa_resources :: "sdk \<Rightarrow> dpa_resources \<Rightarrow> trace \<Rightarrow> doca_error \<times> trace" where
  "destroy_dpa_resources S res t =
     (let (a, t) = call S (Destroy KDpa (doca_dpa res)) t;
          result = propagate_if_error S DOCA_SUCCESS (a_err a);
          (a, t) = call S (Destroy KDev (doca_device res)) t
      in (propagate_if_error S result (a_err a), t))"

section \<open>Sync events are not leaked\<close>

lemma propagate_if_error_error:
  "keeps_first_error S \<Longrightarrow> e \<noteq> DOCA_SUCCESS \<Longrightarrow> propagate_if_error S e d = e"
  by (simp add: propagate_if_error_def keeps_first_error_def)

lemma propagate_if_error_success:
  "keeps_first_error S \<Longrightarrow> propagate_if_error S DOCA_SUCCESS d = d"
  by (simp add: propagate_if_error_def keeps_first_error_def)

lemma create_sync_event_objects:
  assumes run: "create_sync_event S setup ev t = (a, ev', t')"
    and inv: "\<forall>p. \<forall>c\<in>set (setup p). is_invoke c"
    and kf: "keeps_first_error S"
  shows "if a_err a = DOCA_SUCCESS then \<exists>h. ev' = Some h \<and> adds_object t t' (KSyncEvent, h)
    else keeps_objects t t'"
proof -
  let ?c = "sdk_answer S t (Create KSyncEvent [] [])"
  let ?t1 = "t @ [(Create KSyncEvent [] [], ?c)]"
  obtain b t2 where chain: "run_until_error S (setup (Some (a_out ?c))) ?t1 = (b, t2)"
    by (cases "run_until_error S (setup (Some (a_out ?c))) ?t1")
  show ?thesis
  proof (cases "a_err ?c = DOCA_SUCCESS")
    case False
    then show ?thesis using run
      by (auto simp: create_sync_event_def call_trace keeps_objects_failed_create)
  next
    case True
    then have "adds_object t ?t1 (KSyncEvent, a_out ?c)" by (simp add: adds_object_create)
    then have t2: "adds_object t t2 (KSyncEvent, a_out ?c)"
      using keeps_objects_run [OF chain] inv by (blast intro: adds_object_keeps)
    show ?thesis using run True chain t2 adds_object_destroy [OF t2] kf
      by (auto simp: create_sync_event_def Let_def call_trace propagate_if_error_error split: if_splits)
  qed
qed

text \<open>creating a wait event either fails and leaves the live SDK objects as they were, or
  succeeds and adds exactly the event it returns; no dead object is destroyed.\<close>

theorem wait_sync_event_not_leaked:
  assumes "create_doca_dpa_wait_sync_event S dpa dev ev t = (e, ev', t')" "keeps_first_error S"
  shows "if e = DOCA_SUCCESS then \<exists>h. ev' = Some h \<and> adds_object t t' (KSyncEvent, h)
    else keeps_objects t t'"
proof -
  obtain a where run: "create_sync_event S (\<lambda>ev.
        [Invoke ''doca_sync_event_add_publisher_location_cpu'' [ev, dev] [],
         Invoke ''doca_sync_event_add_subscriber_location_dpa'' [ev, dpa] [],
         Invoke ''doca_sync_event_start'' [ev] []]) ev t = (a, ev', t')" and e: "e = a_err a"
    using assms(1) by (auto simp: create_doca_dpa_wait_sync_event_def split: prod.splits)
  show ?thesis using create_sync_event_objects [OF run _ assms(2)] e by simp
qed

text \<open>
  A sample SDK for the witnesses: every creation hands out a handle that was not used before
  (the length of the run), every call succeeds except those the given predicate selects, and
  DOCA_ERROR_PROPAGATE keeps the first error.
\<close>

definition sample_sdk :: "(trace \<Rightarrow> doca_call \<Rightarrow> bool) \<Rightarrow> sdk" where
  "sample_sdk fails =
     \<lparr>sdk_answer = (\<lambda>t c. ok_answer\<lparr>a_err := (if fails t c then DOCA_ERROR_UNEXPECTED else DOCA_SUCCESS),
                              a_out := length t, a_list := [7], a_name := ''mlx5_0''\<rparr>),
      sdk_propagate = (\<lambda>r t. if r = DOCA_SUCCESS then t else r),
      sdk_ibdev_name_size = 64\<rparr>"

lemma sample_sdk_keeps_first [simp]: "keeps_first_error (sample_sdk fails)"
  by (simp add: sample_sdk_def keeps_first_error_def)

lemma sample_sdk_answer [simp]:
  "a_err (sdk_answer (sample_sdk fails) t c) =
     (if fails t c then DOCA_ERROR_UNEXPECTED else DOCA_SUCCESS)"
  "a_out (sdk_answer (sample_sdk fails) t c) = length t"
  "a_list (sdk_answer (sample_sdk fails) t c) = [7]"
  "a_name (sdk_answer (sample_sdk fails) t c) = ''mlx5_0''"
  "a_params (sdk_answer (sample_sdk fails) t c) = []"
  by (simp_all add: sample_sdk_def ok_answer_def)

theorem wait_sync_event_not_leaked_witness:
  "\<exists>t'. create_doca_dpa_wait_sync_event (sample_sdk (\<lambda>t c. False)) (Some 1) (Some 2) None [] =
      (DOCA_SUCCESS, Some 0, t') \<and> adds_object [] t' (KSyncEvent, 0)"
proof -
  obtain t' where run:
    "create_doca_dpa_wait_sync_event (sample_sdk (\<lambda>t c. False)) (Some 1) (Some 2) None [] =
      (DOCA_SUCCESS, Some 0, t')"
    by (simp add: create_doca_dpa_wait_sync_event_def create_sync_event_def Let_def call_trace)
  then show ?thesis using wait_sync_event_not_leaked [OF run] by auto
qed

section \<open>The DPA context\<close>

lemma adds_object_destroy_ignoring:
  "adds_object t t' (k, h) \<Longrightarrow> keeps_objects t (run_ignoring S [Destroy k (Some h)] t')"
  by (simp add: adds_object_destroy call_trace)

lemma scan_devices_objects:
  assumes "scan_devices S name ds result dev t = (r, t')"
  shows "(case r of
      DevReturn e \<Rightarrow> e \<noteq> DOCA_SUCCESS \<and> keeps_objects t t'
    | DevBreak e dev' \<Rightarrow> (dev' = dev \<and> keeps_objects t t') \<or>
        (e = DOCA_SUCCESS \<and> (\<exists>h. dev' = Some h \<and> adds_object t t' (KDev, h))))"
  using assms
proof (induction ds arbitrary: result t)
  case Nil
  then show ?case by auto
next
  case (Cons d ds)
  obtain a1 t1 where c1: "call S (Invoke ''doca_dpa_cap_is_supported'' [Some d] []) t = (a1, t1)"
    by fastforce
  obtain a2 t2 where c2: "call S (Invoke ''doca_devinfo_get_ibdev_name'' [Some d] []) t1 = (a2, t2)"
    by fastforce
  obtain a3 t3 where c3: "call S (Create KDev [Some d] []) t2 = (a3, t3)"
    by fastforce
  note eff = call_Invoke [OF c1] call_Invoke [OF c2] call_Create [OF c3]
  show ?case
    using Cons.prems Cons.IH [of "a_err a1" t1] Cons.IH [of "a_err a2" t2] eff
    by (cases r) (auto simp: c1 c2 c3 keeps_objects_def adds_object_def created_handle_def
        split: if_splits)
qed

lemma open_dpa_device_objects:
  assumes "open_dpa_device S name None t = (e, dev, t')"
  shows "if e = DOCA_SUCCESS then \<exists>h. dev = Some h \<and> adds_object t t' (KDev, h)
    else keeps_objects t t'"
proof -
  obtain c t1 where c: "call S (Create KDevList [] []) t = (c, t1)" by fastforce
  obtain r t2 where scan: "scan_devices S name (a_list c) DOCA_SUCCESS None t1 = (r, t2)" by fastforce
  obtain d t3 where d: "call S (Destroy KDevList (Some (a_out c))) t2 = (d, t3)" by fastforce
  show ?thesis
    using assms scan_devices_objects [OF scan] call_Create [OF c] call_Destroy [OF d]
    by (auto simp: open_dpa_device_def c scan d keeps_objects_def adds_object_def
        created_handle_def split: if_splits dev_scan.splits)
qed

lemma allocate_dpa_resources_objects:
  assumes run: "allocate_dpa_resources S cfg res t = (e, res', t')" and none: "doca_device res = None"
  shows "if e = DOCA_SUCCESS then
      \<exists>dev dpa. doca_device res' = Some dev \<and> doca_dpa res' = Some dpa \<and>
        live t' = (KDpa, dpa) # (KDev, dev) # live t \<and> double_destroy t' = double_destroy t
    else keeps_objects t t'"
proof -
  obtain e1 dev t1 where opened: "open_dpa_device S (device_name cfg) None t = (e1, dev, t1)"
    by (cases "open_dpa_device S (device_name cfg) None t")
  show ?thesis
  proof (cases "e1 = DOCA_SUCCESS")
    case False
    then show ?thesis using run none opened open_dpa_device_objects [OF opened]
      by (auto simp: allocate_dpa_resources_def)
  next
    case True
    then obtain h where h: "dev = Some h" "live t1 = (KDev, h) # live t"
        "double_destroy t1 = double_destroy t"
      using open_dpa_device_objects [OF opened] by (auto simp: adds_object_def)
    obtain c t2 where c: "call S (Create KDpa [Some h] []) t1 = (c, t2)" by fastforce
    let ?cs = "[Invoke ''doca_dpa_set_app'' [Some (a_out c)] [], Invoke ''doca_dpa_start'' [Some (a_out c)] []]"
    obtain a t3 where chain: "run_until_error S ?cs t2 = (a, t3)" by fastforce
    obtain d1 t4 where d1: "call S (Destroy KDpa (Some (a_out c))) t3 = (d1, t4)" by fastforce
    obtain d2 t5 where d2: "call S (Destroy KDev (Some h)) t4 = (d2, t5)" by fastforce
    obtain d3 t6 where d3: "call S (Destroy KDev (Some h)) t2 = (d3, t6)" by fastforce
    note eff = call_Create [OF c] run_Invoke [OF chain] call_Destroy [OF d1] call_Destroy [OF d2]
      call_Destroy [OF d3]
    show ?thesis using run none opened True h eff
      by (auto simp del: run_until_error.simps simp: allocate_dpa_resources_def c chain d1 d2 d3
          keeps_objects_def created_handle_def Let_def split: if_splits)
  qed
qed

text \<open>allocating the DPA resources either fails and leaves no object behind, or succeeds;
  destroying the allocated resources then leaves the live objects as they were before, without
  destroying anything twice.\<close>

theorem dpa_resources_balanced:
  assumes "allocate_dpa_resources S cfg res t = (e, res', t')" "doca_device res = None"
  shows "keeps_objects t (if e = DOCA_SUCCESS then snd (destroy_dpa_resources S res' t') else t')"
proof (cases "e = DOCA_SUCCESS")
  case False
  then show ?thesis using allocate_dpa_resources_objects [OF assms] by simp
next
  case True
  then obtain dev dpa where h: "doca_device res' = Some dev" "doca_dpa res' = Some dpa"
      "live t' = (KDpa, dpa) # (KDev, dev) # live t" "double_destroy t' = double_destroy t"
    using allocate_dpa_resources_objects [OF assms] by auto
  obtain d1 t4 where d1: "call S (Destroy KDpa (Some dpa)) t' = (d1, t4)" by fastforce
  obtain d2 t5 where d2: "call S (Destroy KDev (Some dev)) t4 = (d2, t5)" by fastforce
  show ?thesis using True h call_Destroy [OF d1] call_Destroy [OF d2]
    by (simp add: destroy_dpa_resources_def d1 d2 keeps_objects_def)
qed

theorem dpa_resources_balanced_witness:
  "\<exists>res' t'. allocate_dpa_resources (sample_sdk (\<lambda>t c. False)) \<lparr>device_name = DEVICE_DEFAULT_NAME\<rparr>
       \<lparr>doca_device = None, doca_dpa = None\<rparr> [] = (DOCA_SUCCESS, res', t') \<and>
     keeps_objects [] (snd (destroy_dpa_resources (sample_sdk (\<lambda>t c. False)) res' t'))"
proof -
  let ?S = "sample_sdk (\<lambda>t c. False)"
  obtain res' t' where run: "allocate_dpa_resources ?S \<lparr>device_name = DEVICE_DEFAULT_NAME\<rparr>
       \<lparr>doca_device = None, doca_dpa = None\<rparr> [] = (DOCA_SUCCESS, res', t')"
    by (simp add: allocate_dpa_resources_def open_dpa_device_def Let_def call_trace)
  show ?thesis using run dpa_resources_balanced [OF run] by auto
qed

definition answered_ok :: "trace \<Rightarrow> doca_call \<Rightarrow> answer \<Rightarrow> bool" where
  "answered_ok t c a \<longleftrightarrow> (c, a) \<in> set t \<and> a_err a = DOCA_SUCCESS"

lemma answered_ok_mono: "answered_ok t c a \<Longrightarrow> set t \<subseteq> set t' \<Longrightarrow> answered_ok t' c a"
  by (auto simp: answered_ok_def)

lemma call_set: "call S c t = (a, t') \<Longrightarrow> set t' = insert (c, a) (set t)"
  by (auto simp: call_trace)

lemma scan_devices_choice:
  assumes "scan_devices S name ds result None t = (DevBreak e (Some h), t')"
  shows "\<exists>d\<in>set ds. \<exists>a1 a2 a3. answered_ok t' (Invoke ''doca_dpa_cap_is_supported'' [Some d] []) a1 \<and>
    answered_ok t' (Invoke ''doca_devinfo_get_ibdev_name'' [Some d] []) a2 \<and>
    (name = DEVICE_DEFAULT_NAME \<or> a_name a2 = name) \<and>
    answered_ok t' (Create KDev [Some d] []) a3 \<and> a_out a3 = h"
  using assms
proof (induction ds arbitrary: result t)
  case Nil
  then show ?case by simp
next
  case (Cons d ds)
  obtain a1 t1 where c1: "call S (Invoke ''doca_dpa_cap_is_supported'' [Some d] []) t = (a1, t1)"
    by fastforce
  obtain a2 t2 where c2: "call S (Invoke ''doca_devinfo_get_ibdev_name'' [Some d] []) t1 = (a2, t2)"
    by fastforce
  obtain a3 t3 where c3: "call S (Create KDev [Some d] []) t2 = (a3, t3)"
    by fastforce
  show ?case
  proof (cases "a_err a1 = DOCA_SUCCESS \<and> a_err a2 = DOCA_SUCCESS \<and>
      (name = DEVICE_DEFAULT_NAME \<or> a_name a2 = name)")
    case False
    then obtain r u where "scan_devices S name ds r None u = (DevBreak e (Some h), t')"
      using Cons.prems by (auto simp: c1 c2 c3 split: if_splits)
    then show ?thesis using Cons.IH [of r u] by auto
  next
    case True
    then have last: "a_err a3 = DOCA_SUCCESS" "a_out a3 = h" "t' = t3"
      using Cons.prems by (auto simp: c1 c2 c3 split: if_splits)
    have "answered_ok t' (Invoke ''doca_dpa_cap_is_supported'' [Some d] []) a1"
      "answered_ok t' (Invoke ''doca_devinfo_get_ibdev_name'' [Some d] []) a2"
      "answered_ok t' (Create KDev [Some d] []) a3"
      using True last call_set [OF c1] call_set [OF c2] call_set [OF c3]
      by (auto simp: answered_ok_def)
    with True last show ?thesis by fastforce
  qed
qed

text \<open>the device that is opened is a DPA capable one, and, unless no name was asked for,
  the one with the requested name.\<close>

theorem open_dpa_device_choice:
  assumes "open_dpa_device S name None t = (DOCA_SUCCESS, Some h, t')"
  shows "\<exists>d a1 a2 a3. answered_ok t' (Invoke ''doca_dpa_cap_is_supported'' [Some d] []) a1 \<and>
    answered_ok t' (Invoke ''doca_devinfo_get_ibdev_name'' [Some d] []) a2 \<and>
    (name = DEVICE_DEFAULT_NAME \<or> a_name a2 = name) \<and>
    answered_ok t' (Create KDev [Some d] []) a3 \<and> a_out a3 = h"
proof -
  obtain c t1 where c: "call S (Create KDevList [] []) t = (c, t1)" by fastforce
  obtain r t2 where scan: "scan_devices S name (a_list c) DOCA_SUCCESS None t1 = (r, t2)" by fastforce
  obtain d t3 where d: "call S (Destroy KDevList (Some (a_out c))) t2 = (d, t3)" by fastforce
  have r: "r = DevBreak DOCA_SUCCESS (Some h)" and t': "set t2 \<subseteq> set t'"
    using assms call_set [OF d]
    by (auto simp: open_dpa_device_def c scan d split: if_splits dev_scan.splits)
  show ?thesis
    using scan_devices_choice [OF scan [unfolded r]] answered_ok_mono [OF _ t'] by blast
qed

theorem open_dpa_device_choice_witness:
  "\<exists>t'. open_dpa_device (sample_sdk (\<lambda>t c. False)) ''mlx5_0'' None [] = (DOCA_SUCCESS, Some 3, t') \<and>
     (\<exists>d a3. answered_ok t' (Create KDev [Some d] []) a3 \<and> a_out a3 = 3)"
proof -
  obtain t' where run: "open_dpa_device (sample_sdk (\<lambda>t c. False)) ''mlx5_0'' None [] = (DOCA_SUCCESS, Some 3, t')"
    by (simp add: open_dpa_device_def Let_def call_trace)
  show ?thesis using run open_dpa_device_choice [OF run] by blast
qed

end
