(* ===== verification/DpaObjects.thy ===== *)
theory DpaObjects
  imports DpaCommon
begin

text \<open>
  The init, start and destroy functions of the object structs of application/dpu*/dpa_common.c.
  Every init creates one SDK object, configures it by a chain of calls, and destroys it again
  when a call of the chain fails. The structs are the records of dpa_common.h.
\<close>

text \<open>
  The chain after the create call: when a call fails the struct's own destroy function runs and
  its result is ignored.
\<close>

definition setup_or_destroy ::
  "sdk \<Rightarrow> doca_call list \<Rightarrow> (trace \<Rightarrow> doca_error \<times> trace) \<Rightarrow> trace \<Rightarrow> answer \<times> trace" where
  "setup_or_destroy S cs destroy t =
     (let (a, t) = run_until_error S cs t in
      if a_err a \<noteq> DOCA_SUCCESS then (a, snd (destroy t)) else (a, t))"

section \<open>Threads\<close>

record dpa_thread_obj =
  th_dpa :: ptr
  th_func :: nat
  th_arg :: u64
  th_tls_dev_ptr :: u64
  th_thread :: ptr

definition dpa_thread_obj_destroy :: "sdk \<Rightarrow> dpa_thread_obj \<Rightarrow> trace \<Rightarrow> doca_error \<times> trace" where
  "dpa_thread_obj_destroy S ob t =
     (let (a, t) = call S (Destroy KThread (th_thread ob)) t
      in (propagate_if_error S DOCA_SUCCESS (a_err a), t))"

definition dpa_thread_obj_init ::
  "sdk \<Rightarrow> dpa_thread_obj \<Rightarrow> trace \<Rightarrow> doca_error \<times> dpa_thread_obj \<times> trace" where
  "dpa_thread_obj_init S ob t =
     (let (a, t) = call S (Create KThread [th_dpa ob] []) t in
      if a_err a \<noteq> DOCA_SUCCESS then (a_err a, ob, t)
      else
        let ob = ob\<lparr>th_thread := Some (a_out a)\<rparr>;
            (a, t) = setup_or_destroy S
              ([Invoke ''doca_dpa_thread_set_func_arg'' [th_thread ob] [of_nat (th_func ob), th_arg ob]] @
               (if th_tls_dev_ptr ob \<noteq> 0
                then [Invoke ''doca_dpa_thread_set_local_storage'' [th_thread ob] [th_tls_dev_ptr ob]]
                else []) @
               [Invoke ''doca_dpa_thread_start'' [th_thread ob] []])
              (dpa_thread_obj_destroy S ob) t
        in (a_err a, ob, t))"

section \<open>Completions\<close>

record dpa_completion_obj =
  co_dpa :: ptr
  co_queue_size :: u32
  co_thread :: ptr
  co_dpa_comp :: ptr
  co_handle :: handle

definition dpa_completion_obj_destroy ::
  "sdk \<Rightarrow> dpa_completion_obj \<Rightarrow> trace \<Rightarrow> doca_error \<times> trace" where
  "dpa_completion_obj_destroy S ob t =
     (let (a, t) = call S (Destroy KCompletion (co_dpa_comp ob)) t
      in (propagate_if_error S DOCA_SUCCESS (a_err a), t))"

definition dpa_completion_obj_init ::
  "sdk \<Rightarrow> dpa_completion_obj \<Rightarrow> trace \<Rightarrow> doca_error \<times> dpa_completion_obj \<times> trace" where
  "dpa_completion_obj_init S ob t =
     (let (a, t) = call S (Create KCompletion [co_dpa ob] [ucast (co_queue_size ob)]) t in
      if a_err a \<noteq> DOCA_SUCCESS then (a_err a, ob, t)
      else
        let ob = ob\<lparr>co_dpa_comp := Some (a_out a)\<rparr>;
            (a, t) = setup_or_destroy S
              [Invoke ''doca_dpa_completion_set_thread'' [co_dpa_comp ob, co_thread ob] [],
               Invoke ''doca_dpa_completion_start'' [co_dpa_comp ob] [],
               Invoke ''doca_dpa_completion_get_dpa_handle'' [co_dpa_comp ob] []]
              (dpa_completion_obj_destroy S ob) t
        in if a_err a \<noteq> DOCA_SUCCESS then (a_err a, ob, t)
           else (DOCA_SUCCESS, ob\<lparr>co_handle := a_out a\<rparr>, t))"

record dpa_notification_completion_obj =
  no_dpa :: ptr
  no_thread :: ptr
  no_notification_comp :: ptr
  no_handle :: handle

definition dpa_notification_completion_obj_destroy ::
  "sdk \<Rightarrow> dpa_notification_completion_obj \<Rightarrow> trace \<Rightarrow> doca_error \<times> trace" where
  "dpa_notification_completion_obj_destroy S ob t =
     (let (a, t) = call S (Destroy KNotification (no_notification_comp ob)) t
      in (propagate_if_error S DOCA_SUCCESS (a_err a), t))"

definition dpa_notification_completion_obj_init ::
  "sdk \<Rightarrow> dpa_notification_completion_obj \<Rightarrow> trace \<Rightarrow>
     doca_error \<times> dpa_notification_completion_obj \<times> trace" where
  "dpa_notification_completion_obj_init S ob t =
     (let (a, t) = call S (Create KNotification [no_dpa ob, no_thread ob] []) t in
      if a_err a \<noteq> DOCA_SUCCESS then (a_err a, ob, t)
      else
        let ob = ob\<lparr>no_notification_comp := Some (a_out a)\<rparr>;
            (a, t) = setup_or_destroy S
              [Invoke ''doca_dpa_notification_completion_start'' [no_notification_comp ob] [],
               Invoke ''doca_dpa_notification_completion_get_dpa_handle'' [no_notification_comp ob] []]
              (dpa_notification_completion_obj_destroy S ob) t
        in if a_err a \<noteq> DOCA_SUCCESS then (a_err a, ob, t)
           else (DOCA_SUCCESS, ob\<lparr>no_handle := a_out a\<rparr>, t))"

section \<open>RDMA\<close>

record dpa_rdma_srq_obj =
  sq_device :: ptr
  sq_dpa :: ptr
  sq_srq_size :: u32
  sq_buf_list_len :: u32
  sq_srq_type :: u32
  sq_rdma_srq :: ptr
  sq_as_ctx :: ptr
  sq_dpa_rdma_srq :: handle

definition dpa_rdma_srq_obj_destroy ::
  "sdk \<Rightarrow> dpa_rdma_srq_obj \<Rightarrow> trace \<Rightarrow> doca_error \<times> trace" where
  "dpa_rdma_srq_obj_destroy S ob t =
     (let (a, t) = call S (Invoke ''doca_ctx_stop'' [sq_as_ctx ob] []) t;
          ret_err = propagate_if_error S DOCA_SUCCESS (a_err a);
          (a, t) = call S (Destroy KSrq (sq_rdma_srq ob)) t
      in (propagate_if_error S ret_err (a_err a), t))"

definition dpa_rdma_srq_obj_init ::
  "sdk \<Rightarrow> dpa_rdma_srq_obj \<Rightarrow> trace \<Rightarrow> doca_error \<times> dpa_rdma_srq_obj \<times> trace" where
  "dpa_rdma_srq_obj_init S ob t =
     (let (a, t) = call S (Create KSrq [sq_device ob] []) t in
      if a_err a \<noteq> DOCA_SUCCESS then (a_err a, ob, t)
      else
        let ob = ob\<lparr>sq_rdma_srq := Some (a_out a)\<rparr>;
            (c, t) = call S (Invoke ''doca_rdma_srq_as_ctx'' [sq_rdma_srq ob] []) t;
            ob = ob\<lparr>sq_as_ctx := Some (a_out c)\<rparr>;
            (a, t) = setup_or_destroy S
              [Invoke ''doca_rdma_srq_set_shared_recv_queue_size'' [sq_rdma_srq ob] [ucast (sq_srq_size ob)],
               Invoke ''doca_rdma_srq_task_receive_set_dst_buf_list_len'' [sq_rdma_srq ob] [ucast (sq_buf_list_len ob)],
               Invoke ''doca_rdma_srq_set_type'' [sq_rdma_srq ob] [ucast (sq_srq_type ob)],
               Invoke ''doca_ctx_set_datapath_on_dpa'' [sq_as_ctx ob, sq_dpa ob] [],
               Invoke ''doca_ctx_start'' [sq_as_ctx ob] [],
               Invoke ''doca_rdma_srq_get_dpa_handle'' [sq_rdma_srq ob] []]
              (dpa_rdma_srq_obj_destroy S ob) t
        in if a_err a \<noteq> DOCA_SUCCESS then (a_err a, ob, t)
           else (a_err a, ob\<lparr>sq_dpa_rdma_srq := a_out a\<rparr>, t))"

record dpa_rdma_obj =
  rd_device :: ptr
  rd_dpa :: ptr
  rd_permissions :: u32
  rd_user_data :: u64
  rd_rdma :: ptr
  rd_as_ctx :: ptr
  rd_dpa_rdma :: handle
  rd_connection_details :: handle
  rd_conn_det_len :: nat

definition dpa_rdma_obj_destroy :: "sdk \<Rightarrow> dpa_rdma_obj \<Rightarrow> trace \<Rightarrow> doca_error \<times> trace" where
  "dpa_rdma_obj_destroy S ob t =
     (let (a, t) = call S (Invoke ''doca_ctx_stop'' [rd_as_ctx ob] []) t;
          ret_err = propagate_if_error S DOCA_SUCCESS (a_err a);
          (a, t) = call S (Destroy KRdma (rd_rdma ob)) t
      in (propagate_if_error S ret_err (a_err a), t))"

definition dpa_rdma_obj_init ::
  "sdk \<Rightarrow> dpa_rdma_srq_obj option \<Rightarrow> dpa_rdma_obj \<Rightarrow> trace \<Rightarrow> doca_error \<times> dpa_rdma_obj \<times> trace" where
  "dpa_rdma_obj_init S srq ob t =
     (let (a, t) = call S (case srq of
            Some q \<Rightarrow> Create KRdma [rd_device ob, sq_rdma_srq q] []
          | None \<Rightarrow> Create KRdma [rd_device ob] []) t in
      if a_err a \<noteq> DOCA_SUCCESS then (a_err a, ob, t)
      else
        let ob = ob\<lparr>rd_rdma := Some (a_out a)\<rparr>;
            (c, t) = call S (Invoke ''doca_rdma_as_ctx'' [rd_rdma ob] []) t;
            ob = ob\<lparr>rd_as_ctx := Some (a_out c)\<rparr>;
            (a, t) = setup_or_destroy S
              [Invoke ''doca_rdma_set_permissions'' [rd_rdma ob] [ucast (rd_permissions ob)],
               Invoke ''doca_rdma_set_grh_enabled'' [rd_rdma ob] [1],
               Invoke ''doca_ctx_set_datapath_on_dpa'' [rd_as_ctx ob, rd_dpa ob] [],
               Invoke ''doca_ctx_set_user_data'' [rd_as_ctx ob] [rd_user_data ob]]
              (dpa_rdma_obj_destroy S ob) t
        in (a_err a, ob, t))"

text \<open>The start function destroys the object itself when one of its three calls fails.\<close>

definition dpa_rdma_obj_start ::
  "sdk \<Rightarrow> dpa_rdma_obj \<Rightarrow> trace \<Rightarrow> doca_error \<times> dpa_rdma_obj \<times> trace" where
  "dpa_rdma_obj_start S ob t =
     (let (a, t) = setup_or_destroy S [Invoke ''doca_ctx_start'' [rd_as_ctx ob] []]
            (dpa_rdma_obj_destroy S ob) t in
      if a_err a \<noteq> DOCA_SUCCESS then (a_err a, ob, t)
      else
        let (a, t) = setup_or_destroy S [Invoke ''doca_rdma_get_dpa_handle'' [rd_rdma ob] []]
              (dpa_rdma_obj_destroy S ob) t in
        if a_err a \<noteq> DOCA_SUCCESS then (a_err a, ob, t)
        else
          let ob = ob\<lparr>rd_dpa_rdma := a_out a\<rparr>;
              (a, t) = setup_or_destroy S [Invoke ''doca_rdma_export'' [rd_rdma ob] []]
                (dpa_rdma_obj_destroy S ob) t in
          if a_err a \<noteq> DOCA_SUCCESS then (a_err a, ob, t)
          else (a_err a, ob\<lparr>rd_connection_details := a_out a, rd_conn_det_len := a_len a\<rparr>, t))"

section \<open>Memory maps\<close>

text \<open>
  The field mmap_type is a C enum, so it can hold other integers than its two enumerators;
  the default branch of the switch is reached by those.
\<close>

datatype mmap_type = MMAP_TYPE_CPU | MMAP_TYPE_DPA | MMAP_TYPE_UNKNOWN int

record doca_mmap_obj =
  mm_type :: mmap_type
  mm_device :: ptr
  mm_dpa :: ptr
  mm_permissions :: u32
  mm_memrange_addr :: u64
  mm_memrange_len :: u64
  mm_mmap :: ptr
  mm_dpa_mmap_handle :: handle
  mm_rdma_export :: handle
  mm_export_len :: nat

definition doca_mmap_obj_destroy :: "sdk \<Rightarrow> doca_mmap_obj \<Rightarrow> trace \<Rightarrow> doca_error \<times> trace" where
  "doca_mmap_obj_destroy S ob t =
     (let (a, t) = call S (Destroy KMmap (mm_mmap ob)) t
      in (propagate_if_error S DOCA_SUCCESS (a_err a), t))"

text \<open>The calls of the switch on the type, None for the default branch.\<close>

definition mmap_range_calls :: "doca_mmap_obj \<Rightarrow> doca_call list option" where
  "mmap_range_calls ob =
     (case mm_type ob of
        MMAP_TYPE_CPU \<Rightarrow> Some
          [Invoke ''doca_mmap_set_memrange'' [mm_mmap ob] [mm_memrange_addr ob, mm_memrange_len ob],
           Invoke ''doca_mmap_add_dev'' [mm_mmap ob, mm_device ob] []]
      | MMAP_TYPE_DPA \<Rightarrow> Some
          [Invoke ''doca_mmap_set_dpa_memrange'' [mm_mmap ob, mm_dpa ob] [mm_memrange_addr ob, mm_memrange_len ob]]
      | MMAP_TYPE_UNKNOWN i \<Rightarrow> None)"

definition doca_mmap_obj_init ::
  "sdk \<Rightarrow> doca_mmap_obj \<Rightarrow> trace \<Rightarrow> doca_error \<times> doca_mmap_obj \<times> trace" where
  "doca_mmap_obj_init S ob t =
     (let (a, t) = call S (Create KMmap [] []) t in
      if a_err a \<noteq> DOCA_SUCCESS then (a_err a, ob, t)
      else
        let ob = ob\<lparr>mm_mmap := Some (a_out a)\<rparr>;
            (a, t) = setup_or_destroy S
              [Invoke ''doca_mmap_set_permissions'' [mm_mmap ob] [ucast (mm_permissions ob)]]
              (doca_mmap_obj_destroy S ob) t in
        if a_err a \<noteq> DOCA_SUCCESS then (a_err a, ob, t)
        else (case mmap_range_calls ob of
            None \<Rightarrow> (DOCA_ERROR_NOT_SUPPORTED, ob, snd (doca_mmap_obj_destroy S ob t))
          | Some range_calls \<Rightarrow>
              let (a, t) = setup_or_destroy S
                    (range_calls @
                     [Invoke ''doca_mmap_start'' [mm_mmap ob] [],
                      Invoke ''doca_mmap_dev_get_dpa_handle'' [mm_mmap ob, mm_device ob] []])
                    (doca_mmap_obj_destroy S ob) t in
              if a_err a \<noteq> DOCA_SUCCESS then (a_err a, ob, t)
              else
                let ob = ob\<lparr>mm_dpa_mmap_handle := a_out a\<rparr>;
                    (a, t) = setup_or_destroy S
                      [Invoke ''doca_mmap_export_rdma'' [mm_mmap ob, mm_device ob] []]
                      (doca_mmap_obj_destroy S ob) t in
                if a_err a \<noteq> DOCA_SUCCESS then (a_err a, ob, t)
                else (a_err a, ob\<lparr>mm_rdma_export := a_out a, mm_export_len := a_len a\<rparr>, t)))"

section \<open>The contract of an object struct\<close>

definition destroys_object :: "(trace \<Rightarrow> doca_error \<times> trace) \<Rightarrow> object \<Rightarrow> bool" where
  "destroys_object destroy ob \<longleftrightarrow>
     (\<forall>u. live (snd (destroy u)) = remove1 ob (live u) \<and>
        double_destroy (snd (destroy u)) = (double_destroy u \<or> ob \<notin> set (live u)))"

definition init_outcome :: "doca_kind \<Rightarrow> ptr \<Rightarrow> doca_error \<Rightarrow> trace \<Rightarrow> trace \<Rightarrow> bool" where
  "init_outcome k p e t t' \<longleftrightarrow>
     (if e = DOCA_SUCCESS then \<exists>h. p = Some h \<and> adds_object t t' (k, h) else keeps_objects t t')"

lemma destroys_object_keeps:
  "destroys_object d ob \<Longrightarrow> adds_object t u ob \<Longrightarrow> keeps_objects t (snd (d u))"
  by (simp add: destroys_object_def adds_object_def keeps_objects_def)

lemma setup_or_destroy_objects:
  assumes "setup_or_destroy S cs d u = (a, t')" and "\<forall>c\<in>set cs. is_invoke c"
    and "adds_object t u ob" and "destroys_object d ob"
  shows "if a_err a = DOCA_SUCCESS then adds_object t t' ob else keeps_objects t t'"
proof -
  obtain b v where run: "run_until_error S cs u = (b, v)" by fastforce
  have "adds_object t v ob"
    using assms(3) keeps_objects_run [OF run assms(2)] by (rule adds_object_keeps)
  moreover from this have "keeps_objects t (snd (d v))"
    by (rule destroys_object_keeps [OF assms(4)])
  ultimately show ?thesis using assms(1) run
    by (auto simp: setup_or_destroy_def split: if_splits)
qed

text \<open>
  An object struct: an init function that fails without leaving anything behind or adds one
  object, and a destroy function that removes it. The clients below hold for every struct.
\<close>

locale doca_object =
  fixes init :: "sdk \<Rightarrow> 'o \<Rightarrow> trace \<Rightarrow> doca_error \<times> 'o \<times> trace"
    and destroy :: "sdk \<Rightarrow> 'o \<Rightarrow> trace \<Rightarrow> doca_error \<times> trace"
    and kind :: doca_kind
    and object_ptr :: "'o \<Rightarrow> ptr"
  assumes init_objects: "init S ob t = (e, ob', t') \<Longrightarrow> init_outcome kind (object_ptr ob') e t t'"
    and destroy_object: "object_ptr ob = Some h \<Longrightarrow> destroys_object (destroy S ob) (kind, h)"
begin

lemma init_destroy:
  assumes "init S ob t = (e, ob', t')"
  shows "keeps_objects t (if e = DOCA_SUCCESS then snd (destroy S ob' t') else t')"
proof (cases "e = DOCA_SUCCESS")
  case True
  then obtain h where "object_ptr ob' = Some h" "adds_object t t' (kind, h)"
    using init_objects [OF assms] by (auto simp: init_outcome_def)
  with True show ?thesis using destroys_object_keeps [OF destroy_object] by simp
next
  case False
  then show ?thesis using init_objects [OF assms] by (simp add: init_outcome_def)
qed

text \<open>The object stays the only new one while other code keeps the objects.\<close>

lemma init_use_destroy:
  assumes "init S ob t = (DOCA_SUCCESS, ob', t')" and "keeps_objects t' u"
  shows "keeps_objects t (snd (destroy S ob' u))"
proof -
  obtain h where "object_ptr ob' = Some h" "adds_object t t' (kind, h)"
    using init_objects [OF assms(1)] by (auto simp: init_outcome_def)
  then show ?thesis using adds_object_keeps [OF _ assms(2)] destroys_object_keeps [OF destroy_object]
    by blast
qed

end

section \<open>Every struct fulfils the contract\<close>

lemma destroys_threadI: "th_thread ob = Some h \<Longrightarrow> destroys_object (dpa_thread_obj_destroy S ob) (KThread, h)"
  by (auto simp: destroys_object_def dpa_thread_obj_destroy_def dest!: call_Destroy split: prod.splits)

lemma destroys_completionI:
  "co_dpa_comp ob = Some h \<Longrightarrow> destroys_object (dpa_completion_obj_destroy S ob) (KCompletion, h)"
  by (auto simp: destroys_object_def dpa_completion_obj_destroy_def dest!: call_Destroy split: prod.splits)

lemma destroys_notificationI:
  "no_notification_comp ob = Some h \<Longrightarrow>
     destroys_object (dpa_notification_completion_obj_destroy S ob) (KNotification, h)"
  by (auto simp: destroys_object_def dpa_notification_completion_obj_destroy_def
      dest!: call_Destroy split: prod.splits)

lemma destroys_srqI: "sq_rdma_srq ob = Some h \<Longrightarrow> destroys_object (dpa_rdma_srq_obj_destroy S ob) (KSrq, h)"
  by (auto simp: destroys_object_def dpa_rdma_srq_obj_destroy_def Let_def
      dest!: call_Destroy call_Invoke split: prod.splits)

lemma destroys_rdmaI: "rd_rdma ob = Some h \<Longrightarrow> destroys_object (dpa_rdma_obj_destroy S ob) (KRdma, h)"
  by (auto simp: destroys_object_def dpa_rdma_obj_destroy_def Let_def
      dest!: call_Destroy call_Invoke split: prod.splits)

lemma destroys_mmapI: "mm_mmap ob = Some h \<Longrightarrow> destroys_object (doca_mmap_obj_destroy S ob) (KMmap, h)"
  by (auto simp: destroys_object_def doca_mmap_obj_destroy_def dest!: call_Destroy split: prod.splits)

lemma call_adds_object:
  "call S (Create k ps ns) t = (a, t') \<Longrightarrow> a_err a = DOCA_SUCCESS \<Longrightarrow> k \<noteq> KArgp \<Longrightarrow>
     adds_object t t' (k, a_out a)"
  using call_Create by (fastforce simp: adds_object_def created_handle_def)

lemma call_failed_keeps:
  "call S (Create k ps ns) t = (a, t') \<Longrightarrow> a_err a \<noteq> DOCA_SUCCESS \<Longrightarrow> keeps_objects t t'"
  using call_Create by (fastforce simp: keeps_objects_def)

lemma dpa_thread_obj_init_outcome:
  assumes "dpa_thread_obj_init S ob t = (e, ob', t')"
  shows "init_outcome KThread (th_thread ob') e t t'"
proof -
  obtain c t1 where c: "call S (Create KThread [th_dpa ob] []) t = (c, t1)" by fastforce
  show ?thesis
  proof (cases "a_err c = DOCA_SUCCESS")
    case False
    then show ?thesis using assms call_failed_keeps [OF c]
      by (auto simp: dpa_thread_obj_init_def c init_outcome_def)
  next
    case True
    note new = call_adds_object [OF c True]
    show ?thesis using assms True new
      by (auto simp: dpa_thread_obj_init_def c Let_def init_outcome_def
          dest!: setup_or_destroy_objects [OF _ _ new destroys_threadI] split: prod.splits if_splits)
  qed
qed

interpretation dpa_thread: doca_object dpa_thread_obj_init dpa_thread_obj_destroy KThread th_thread
  by unfold_locales (auto intro: dpa_thread_obj_init_outcome destroys_threadI)

lemma dpa_completion_obj_init_outcome:
  assumes "dpa_completion_obj_init S ob t = (e, ob', t')"
  shows "init_outcome KCompletion (co_dpa_comp ob') e t t'"
proof -
  obtain c t1 where c: "call S (Create KCompletion [co_dpa ob] [ucast (co_queue_size ob)]) t = (c, t1)" by fastforce
  show ?thesis
  proof (cases "a_err c = DOCA_SUCCESS")
    case False
    then show ?thesis using assms call_failed_keeps [OF c]
      by (auto simp: dpa_completion_obj_init_def c init_outcome_def)
  next
    case True
    note new = call_adds_object [OF c True]
    show ?thesis using assms True new
      by (auto simp: dpa_completion_obj_init_def c Let_def init_outcome_def
          dest!: setup_or_destroy_objects [OF _ _ new destroys_completionI] split: prod.splits if_splits)
  qed
qed

interpretation dpa_completion: doca_object dpa_completion_obj_init dpa_completion_obj_destroy
    KCompletion co_dpa_comp
  by unfold_locales (auto intro: dpa_completion_obj_init_outcome destroys_completionI)

lemma dpa_notification_completion_obj_init_outcome:
  assumes "dpa_notification_completion_obj_init S ob t = (e, ob', t')"
  shows "init_outcome KNotification (no_notification_comp ob') e t t'"
proof -
  obtain c t1 where c: "call S (Create KNotification [no_dpa ob, no_thread ob] []) t = (c, t1)" by fastforce
  show ?thesis
  proof (cases "a_err c = DOCA_SUCCESS")
    case False
    then show ?thesis using assms call_failed_keeps [OF c]
      by (auto simp: dpa_notification_completion_obj_init_def c init_outcome_def)
  next
    case True
    note new = call_adds_object [OF c True]
    show ?thesis using assms True new
      by (auto simp: dpa_notification_completion_obj_init_def c Let_def init_outcome_def
          dest!: setup_or_destroy_objects [OF _ _ new destroys_notificationI] split: prod.splits if_splits)
  qed
qed

interpretation dpa_notification: doca_object dpa_notification_completion_obj_init
    dpa_notification_completion_obj_destroy KNotification no_notification_comp
  by unfold_locales (auto intro: dpa_notification_completion_obj_init_outcome destroys_notificationI)

text \<open>The two RDMA structs ask the SDK for their context between creation and set-up.\<close>

lemma dpa_rdma_srq_obj_init_outcome:
  assumes "dpa_rdma_srq_obj_init S ob t = (e, ob', t')"
  shows "init_outcome KSrq (sq_rdma_srq ob') e t t'"
proof -
  obtain c t1 where c: "call S (Create KSrq [sq_device ob] []) t = (c, t1)" by fastforce
  obtain d t2 where d: "call S (Invoke ''doca_rdma_srq_as_ctx'' [Some (a_out c)] []) t1 = (d, t2)" by fastforce
  show ?thesis
  proof (cases "a_err c = DOCA_SUCCESS")
    case False
    then show ?thesis using assms call_failed_keeps [OF c]
      by (auto simp: dpa_rdma_srq_obj_init_def c init_outcome_def)
  next
    case True
    have new: "adds_object t t2 (KSrq, a_out c)"
      using call_adds_object [OF c True] call_Invoke [OF d] by (simp add: adds_object_def)
    show ?thesis using assms True new
      by (auto simp: dpa_rdma_srq_obj_init_def c d Let_def init_outcome_def
          dest!: setup_or_destroy_objects [OF _ _ new destroys_srqI] split: prod.splits if_splits)
  qed
qed

interpretation dpa_srq: doca_object dpa_rdma_srq_obj_init dpa_rdma_srq_obj_destroy KSrq sq_rdma_srq
  by unfold_locales (auto intro: dpa_rdma_srq_obj_init_outcome destroys_srqI)

lemma dpa_rdma_obj_init_outcome:
  assumes "dpa_rdma_obj_init S srq ob t = (e, ob', t')"
  shows "init_outcome KRdma (rd_rdma ob') e t t'"
proof -
  define ps where "ps = (case srq of Some q \<Rightarrow> [rd_device ob, sq_rdma_srq q] | None \<Rightarrow> [rd_device ob])"
  obtain c t1 where c: "call S (Create KRdma ps []) t = (c, t1)" by fastforce
  have c': "call S (case srq of Some q \<Rightarrow> Create KRdma [rd_device ob, sq_rdma_srq q] []
      | None \<Rightarrow> Create KRdma [rd_device ob] []) t = (c, t1)"
    using c by (simp add: ps_def split: option.splits)
  obtain d t2 where d: "call S (Invoke ''doca_rdma_as_ctx'' [Some (a_out c)] []) t1 = (d, t2)" by fastforce
  show ?thesis
  proof (cases "a_err c = DOCA_SUCCESS")
    case False
    then show ?thesis using assms call_failed_keeps [OF c]
      by (auto simp: dpa_rdma_obj_init_def c' init_outcome_def)
  next
    case True
    have new: "adds_object t t2 (KRdma, a_out c)"
      using call_adds_object [OF c True] call_Invoke [OF d] by (simp add: adds_object_def)
    show ?thesis using assms True new
      by (auto simp: dpa_rdma_obj_init_def c' d Let_def init_outcome_def
          dest!: setup_or_destroy_objects [OF _ _ new destroys_rdmaI] split: prod.splits if_splits)
  qed
qed

interpretation dpa_rdma: doca_object "\<lambda>S. dpa_rdma_obj_init S srq" dpa_rdma_obj_destroy KRdma rd_rdma
  for srq
  by unfold_locales (auto intro: dpa_rdma_obj_init_outcome destroys_rdmaI)

lemma mmap_range_calls_invoke: "mmap_range_calls ob = Some cs \<Longrightarrow> \<forall>c\<in>set cs. is_invoke c"
  by (auto simp: mmap_range_calls_def split: mmap_type.splits)

lemma doca_mmap_obj_init_outcome:
  assumes "doca_mmap_obj_init S ob t = (e, ob', t')"
  shows "init_outcome KMmap (mm_mmap ob') e t t'"
proof -
  obtain c t1 where c: "call S (Create KMmap [] []) t = (c, t1)" by fastforce
  show ?thesis
  proof (cases "a_err c = DOCA_SUCCESS")
    case False
    then show ?thesis using assms call_failed_keeps [OF c]
      by (auto simp: doca_mmap_obj_init_def c init_outcome_def)
  next
    case True
    note new = call_adds_object [OF c True]
    let ?ob = "ob\<lparr>mm_mmap := Some (a_out c)\<rparr>"
    let ?d = "doca_mmap_obj_destroy S ?ob"
    have d: "destroys_object ?d (KMmap, a_out c)" by (simp add: destroys_mmapI)
    obtain a2 t2 where s2: "setup_or_destroy S
        [Invoke ''doca_mmap_set_permissions'' [Some (a_out c)] [ucast (mm_permissions ob)]] ?d t1 = (a2, t2)"
      by fastforce
    note o2 = setup_or_destroy_objects [OF s2 _ new d]
    show ?thesis
    proof (cases "a_err a2 = DOCA_SUCCESS")
      case False
      then show ?thesis using assms True o2
        by (auto simp: doca_mmap_obj_init_def c s2 init_outcome_def Let_def)
    next
      case ok2: True
      then have new2: "adds_object t t2 (KMmap, a_out c)" using o2 by simp
      show ?thesis
      proof (cases "mmap_range_calls ?ob")
        case None
        then show ?thesis using assms True ok2 destroys_object_keeps [OF d new2]
          by (auto simp: doca_mmap_obj_init_def c s2 init_outcome_def Let_def)
      next
        case (Some cs)
        obtain a3 t3 where s3: "setup_or_destroy S (cs @
            [Invoke ''doca_mmap_start'' [Some (a_out c)] [],
             Invoke ''doca_mmap_dev_get_dpa_handle'' [Some (a_out c), mm_device ob] []]) ?d t2 = (a3, t3)"
          by fastforce
        have o3: "if a_err a3 = DOCA_SUCCESS then adds_object t t3 (KMmap, a_out c) else keeps_objects t t3"
          using mmap_range_calls_invoke [OF Some] by (intro setup_or_destroy_objects [OF s3 _ new2 d]) auto
        let ?ob3 = "?ob\<lparr>mm_dpa_mmap_handle := a_out a3\<rparr>"
        have d3: "destroys_object (doca_mmap_obj_destroy S ?ob3) (KMmap, a_out c)"
          by (simp add: destroys_mmapI)
        obtain a4 t4 where s4: "setup_or_destroy S
            [Invoke ''doca_mmap_export_rdma'' [Some (a_out c), mm_device ob] []]
            (doca_mmap_obj_destroy S ?ob3) t3 = (a4, t4)"
          by fastforce
        have o4: "a_err a3 = DOCA_SUCCESS \<Longrightarrow>
            if a_err a4 = DOCA_SUCCESS then adds_object t t4 (KMmap, a_out c) else keeps_objects t t4"
          using o3 by (intro setup_or_destroy_objects [OF s4 _ _ d3]) simp_all
        show ?thesis using assms True ok2 Some o3 o4
          by (auto simp: doca_mmap_obj_init_def c s2 s3 s4 init_outcome_def Let_def split: if_splits)
      qed
    qed
  qed
qed

interpretation doca_mmap: doca_object doca_mmap_obj_init doca_mmap_obj_destroy KMmap mm_mmap
  by unfold_locales (auto intro: doca_mmap_obj_init_outcome destroys_mmapI)

section \<open>Properties of the structs\<close>

definition init_then_destroy ::
  "('o \<Rightarrow> trace \<Rightarrow> doca_error \<times> 'o \<times> trace) \<Rightarrow> ('o \<Rightarrow> trace \<Rightarrow> doca_error \<times> trace) \<Rightarrow>
     'o \<Rightarrow> trace \<Rightarrow> trace" where
  "init_then_destroy init destroy ob t =
     (let (e, ob', t') = init ob t in if e = DOCA_SUCCESS then snd (destroy ob' t') else t')"

lemma init_then_destroyI:
  "(\<And>e ob' t'. init ob t = (e, ob', t') \<Longrightarrow>
      keeps_objects t (if e = DOCA_SUCCESS then snd (destroy ob' t') else t')) \<Longrightarrow>
   keeps_objects t (init_then_destroy init destroy ob t)"
  by (auto simp: init_then_destroy_def split: prod.splits)

text \<open>for every object struct, an init followed, when it succeeded, by the struct's destroy
  leaves exactly the live SDK objects there were before, whatever calls of the SDK fail.\<close>

theorem objects_balanced:
  "keeps_objects t (init_then_destroy (dpa_thread_obj_init S) (dpa_thread_obj_destroy S) th t) \<and>
   keeps_objects t (init_then_destroy (dpa_completion_obj_init S) (dpa_completion_obj_destroy S) co t) \<and>
   keeps_objects t (init_then_destroy (dpa_notification_completion_obj_init S)
     (dpa_notification_completion_obj_destroy S) no t) \<and>
   keeps_objects t (init_then_destroy (dpa_rdma_srq_obj_init S) (dpa_rdma_srq_obj_destroy S) sq t) \<and>
   keeps_objects t (init_then_destroy (dpa_rdma_obj_init S srq) (dpa_rdma_obj_destroy S) rd t) \<and>
   keeps_objects t (init_then_destroy (doca_mmap_obj_init S) (doca_mmap_obj_destroy S) mm t)"
  by (intro conjI init_then_destroyI)
    (erule dpa_thread.init_destroy dpa_completion.init_destroy dpa_notification.init_destroy
      dpa_srq.init_destroy dpa_rdma.init_destroy doca_mmap.init_destroy)+

text \<open>A whole RDMA session: init, start, destroy, where a failed start has destroyed the object.\<close>

definition rdma_session :: "sdk \<Rightarrow> dpa_rdma_srq_obj option \<Rightarrow> dpa_rdma_obj \<Rightarrow> trace \<Rightarrow> trace" where
  "rdma_session S srq ob t =
     (let (e, ob, t) = dpa_rdma_obj_init S srq ob t in
      if e \<noteq> DOCA_SUCCESS then t
      else let (e, ob, t) = dpa_rdma_obj_start S ob t in
        if e \<noteq> DOCA_SUCCESS then t else snd (dpa_rdma_obj_destroy S ob t))"

lemma dpa_rdma_obj_start_objects:
  assumes "dpa_rdma_obj_start S ob u = (e, ob', t')" "rd_rdma ob = Some h" "adds_object t u (KRdma, h)"
  shows "rd_rdma ob' = Some h \<and>
    (if e = DOCA_SUCCESS then adds_object t t' (KRdma, h) else keeps_objects t t')"
proof -
  let ?d = "dpa_rdma_obj_destroy S ob"
  have d: "destroys_object ?d (KRdma, h)" using assms(2) by (rule destroys_rdmaI)
  obtain a1 t1 where s1: "setup_or_destroy S [Invoke ''doca_ctx_start'' [rd_as_ctx ob] []] ?d u = (a1, t1)"
    by fastforce
  obtain a2 t2 where s2: "setup_or_destroy S [Invoke ''doca_rdma_get_dpa_handle'' [Some h] []] ?d t1 = (a2, t2)"
    by fastforce
  let ?ob2 = "ob\<lparr>rd_dpa_rdma := a_out a2\<rparr>"
  obtain a3 t3 where s3: "setup_or_destroy S [Invoke ''doca_rdma_export'' [Some h] []]
      (dpa_rdma_obj_destroy S ?ob2) t2 = (a3, t3)"
    by fastforce
  have d2: "destroys_object (dpa_rdma_obj_destroy S ?ob2) (KRdma, h)"
    using assms(2) by (intro destroys_rdmaI) simp
  note o1 = setup_or_destroy_objects [OF s1 _ assms(3) d]
  have o2: "a_err a1 = DOCA_SUCCESS \<Longrightarrow>
      if a_err a2 = DOCA_SUCCESS then adds_object t t2 (KRdma, h) else keeps_objects t t2"
    using o1 by (intro setup_or_destroy_objects [OF s2 _ _ d]) simp_all
  have o3: "a_err a1 = DOCA_SUCCESS \<Longrightarrow> a_err a2 = DOCA_SUCCESS \<Longrightarrow>
      if a_err a3 = DOCA_SUCCESS then adds_object t t3 (KRdma, h) else keeps_objects t t3"
    using o2 by (intro setup_or_destroy_objects [OF s3 _ _ d2]) simp_all
  show ?thesis using assms(1,2) o1 o2 o3
    by (auto simp: dpa_rdma_obj_start_def s1 s2 s3 Let_def split: if_splits)
qed

text \<open>an RDMA session ends with the live objects it started with on every path: failed
  creation, failed set-up, failed start and normal end.\<close>

theorem rdma_session_balanced: "keeps_objects t (rdma_session S srq ob t)"
proof -
  obtain e ob1 t1 where i: "dpa_rdma_obj_init S srq ob t = (e, ob1, t1)" by (metis prod_cases3)
  show ?thesis
  proof (cases "e = DOCA_SUCCESS")
    case False
    then show ?thesis using dpa_rdma_obj_init_outcome [OF i] i
      by (simp add: rdma_session_def init_outcome_def)
  next
    case True
    then obtain h where h: "rd_rdma ob1 = Some h" "adds_object t t1 (KRdma, h)"
      using dpa_rdma_obj_init_outcome [OF i] by (auto simp: init_outcome_def)
    obtain e2 ob2 t2 where st: "dpa_rdma_obj_start S ob1 t1 = (e2, ob2, t2)" by (metis prod_cases3)
    have o2: "rd_rdma ob2 = Some h"
        "if e2 = DOCA_SUCCESS then adds_object t t2 (KRdma, h) else keeps_objects t t2"
      using dpa_rdma_obj_start_objects [OF st h] by auto
    then show ?thesis using i True st destroys_object_keeps [OF destroys_rdmaI [OF o2(1)]]
      by (auto simp: rdma_session_def split: if_splits)
  qed
qed

end
