(* ===== verification/DpaMain.thy ===== *)
theory DpaMain
  imports DpaCommon
begin

text \<open>
  The entry point of the DPU hosts, dpa_kernel_launch_main.c (the same file in the three
  hosts). The function kernel_launch, which each host defines in its own way, is an argument.
\<close>

datatype exit_code = EXIT_SUCCESS | EXIT_FAILURE

type_synonym kernel_launch_fn = "sdk \<Rightarrow> dpa_resources \<Rightarrow> trace \<Rightarrow> doca_error \<times> trace"

text \<open>doca_argp_start hands the values of --device on the command line to the callback.\<close>

definition argp_start :: "sdk \<Rightarrow> dpa_config \<Rightarrow> trace \<Rightarrow> doca_error \<times> dpa_config \<times> trace" where
  "argp_start S cfg t =
     (let (a, t) = call S (Invoke ''doca_argp_start'' [] []) t
      in (a_err a, foldl (\<lambda>cfg p. snd (device_name_param_callback S p cfg)) cfg (a_params a), t))"

text \<open>The three log backend calls; each failure leaves through sample_exit.\<close>

definition init_logging :: "sdk \<Rightarrow> trace \<Rightarrow> doca_error \<times> trace" where
  "init_logging S t =
     (let (a, t) = call S (Invoke ''doca_log_backend_create_standard'' [] []) t in
      if a_err a \<noteq> DOCA_SUCCESS then (a_err a, t)
      else
        let (a, t) = call S (Invoke ''doca_log_backend_create_with_file_sdk'' [] []) t in
        if a_err a \<noteq> DOCA_SUCCESS then (a_err a, t)
        else let (a, t) = call S (Invoke ''doca_log_backend_set_sdk_level'' [Some (a_out a)] []) t
          in (a_err a, t))"

text \<open>From doca_argp_init's success to the label argp_cleanup.\<close>

definition main_body :: "sdk \<Rightarrow> kernel_launch_fn \<Rightarrow> dpa_config \<Rightarrow> trace \<Rightarrow> exit_code \<times> trace" where
  "main_body S kernel_launch cfg t =
     (let (e, t) = register_dpa_params S t in
      if e \<noteq> DOCA_SUCCESS then (EXIT_FAILURE, t)
      else
        let (e, cfg, t) = argp_start S cfg t in
        if e \<noteq> DOCA_SUCCESS then (EXIT_FAILURE, t)
        else
          let (e, resources, t) = allocate_dpa_resources S cfg \<lparr>doca_device = None, doca_dpa = None\<rparr> t in
          if e \<noteq> DOCA_SUCCESS then (EXIT_FAILURE, t)
          else
            let (e, t) = kernel_launch S resources t;
                exit_status = (if e \<noteq> DOCA_SUCCESS then EXIT_FAILURE else EXIT_SUCCESS);
                (e, t) = destroy_dpa_resources S resources t
            in (if e \<noteq> DOCA_SUCCESS then EXIT_FAILURE else exit_status, t))"

definition dpa_main :: "sdk \<Rightarrow> kernel_launch_fn \<Rightarrow> trace \<Rightarrow> exit_code \<times> trace" where
  "dpa_main S kernel_launch t =
     (let cfg = \<lparr>device_name = DEVICE_DEFAULT_NAME\<rparr>;
          (e, t) = init_logging S t in
      if e \<noteq> DOCA_SUCCESS then (EXIT_FAILURE, t)
      else
        let (a, t) = call S (Create KArgp [] []) t in
        if a_err a \<noteq> DOCA_SUCCESS then (EXIT_FAILURE, t)
        else
          let (exit_status, t) = main_body S kernel_launch cfg t;
              t = snd (call S (Destroy KArgp (Some 0)) t)
          in (exit_status, t))"

section \<open>The command line name\<close>

lemma callbacks_bounded:
  "P (device_name cfg) \<Longrightarrow> (\<And>p. length p < sdk_ibdev_name_size S \<Longrightarrow> P p) \<Longrightarrow>
     P (device_name (foldl (\<lambda>cfg p. snd (device_name_param_callback S p cfg)) cfg ps))"
  by (induction ps arbitrary: cfg) (auto simp: device_name_param_callback_def Let_def)

text \<open>after the command line has been read, the device name is the default one or a name
  that fits into the fixed size buffer with its terminator.\<close>

theorem argp_start_name_fits:
  assumes "argp_start S \<lparr>device_name = DEVICE_DEFAULT_NAME\<rparr> t = (e, cfg, t')"
  shows "device_name cfg = DEVICE_DEFAULT_NAME \<or> length (device_name cfg) < sdk_ibdev_name_size S"
  using assms
    callbacks_bounded [where P = "\<lambda>n. n = DEVICE_DEFAULT_NAME \<or> length n < sdk_ibdev_name_size S"
      and cfg = "\<lparr>device_name = DEVICE_DEFAULT_NAME\<rparr>"]
  by (auto simp: argp_start_def split: prod.splits)

theorem argp_start_name_fits_witness:
  "\<exists>cfg t'. argp_start (sample_sdk (\<lambda>t c. False)) \<lparr>device_name = DEVICE_DEFAULT_NAME\<rparr> [] = (DOCA_SUCCESS, cfg, t') \<and>
     (device_name cfg = DEVICE_DEFAULT_NAME \<or> length (device_name cfg) < 64)"
proof -
  let ?S = "sample_sdk (\<lambda>t c. False)"
  obtain cfg t' where run: "argp_start ?S \<lparr>device_name = DEVICE_DEFAULT_NAME\<rparr> [] = (DOCA_SUCCESS, cfg, t')"
    by (simp add: argp_start_def call_trace)
  have "sdk_ibdev_name_size ?S = 64" by (simp add: sample_sdk_def)
  with run argp_start_name_fits [OF run] show ?thesis by auto
qed

section \<open>Clean-up of the whole program\<close>

lemma init_logging_objects: "init_logging S t = (e, t') \<Longrightarrow> keeps_objects t t'"
  by (auto simp: init_logging_def keeps_objects_def dest!: call_Invoke split: prod.splits if_splits)

lemma argp_start_objects: "argp_start S cfg t = (e, cfg', t') \<Longrightarrow> keeps_objects t t'"
  by (auto simp: argp_start_def keeps_objects_def dest!: call_Invoke split: prod.splits)

lemma run_ignoring_Invoke:
  "\<forall>c\<in>set cs. is_invoke c \<Longrightarrow>
     live (run_ignoring S cs t) = live t \<and> double_destroy (run_ignoring S cs t) = double_destroy t"
  using keeps_objects_run_ignoring by (simp add: keeps_objects_def)

lemma register_dpa_params_objects:
  assumes "register_dpa_params S t = (e, t')"
  shows "keeps_objects t t'"
proof -
  let ?cs = "\<lambda>p. [Invoke ''doca_argp_param_set_short_name'' [p] [],
               Invoke ''doca_argp_param_set_long_name'' [p] [],
               Invoke ''doca_argp_param_set_arguments'' [p] [],
               Invoke ''doca_argp_param_set_description'' [p] [],
               Invoke ''doca_argp_param_set_callback'' [p] [],
               Invoke ''doca_argp_param_set_type'' [p] []]"
  obtain a t1 where c: "call S (Invoke ''doca_argp_param_create'' [] []) t = (a, t1)" by fastforce
  let ?t2 = "run_ignoring S (?cs (Some (a_out a))) t1"
  obtain b t3 where r: "call S (Invoke ''doca_argp_register_param'' [Some (a_out a)] []) ?t2 = (b, t3)"
    by fastforce
  have "live ?t2 = live t1 \<and> double_destroy ?t2 = double_destroy t1"
    by (rule run_ignoring_Invoke) simp
  then show ?thesis using assms c r call_Invoke [OF c] call_Invoke [OF r]
    by (auto simp del: run_ignoring.simps simp: register_dpa_params_def Let_def keeps_objects_def
        split: if_splits)
qed

lemma main_body_objects:
  assumes kl: "\<forall>res u. keeps_objects u (snd (kernel_launch S res u))"
    and run: "main_body S kernel_launch cfg t = (x, t')"
  shows "keeps_objects t t'"
proof -
  obtain e1 t1 where r: "register_dpa_params S t = (e1, t1)" by fastforce
  obtain e2 cfg2 t2 where s: "argp_start S cfg t1 = (e2, cfg2, t2)" by (metis prod_cases3)
  obtain e3 res t3 where a: "allocate_dpa_resources S cfg2 \<lparr>doca_device = None, doca_dpa = None\<rparr> t2 = (e3, res, t3)"
    by (metis prod_cases3)
  obtain e4 t4 where k: "kernel_launch S res t3 = (e4, t4)" by fastforce
  obtain e5 t5 where d: "destroy_dpa_resources S res t4 = (e5, t5)" by fastforce
  have t2: "keeps_objects t t1" "keeps_objects t t2"
    using register_dpa_params_objects [OF r] argp_start_objects [OF s] keeps_objects_trans by blast+
  have k34: "keeps_objects t3 t4" using kl k by (metis snd_conv)
  show ?thesis
  proof (cases "e3 = DOCA_SUCCESS")
    case False
    then have "keeps_objects t t3"
      using allocate_dpa_resources_objects [OF a] t2 keeps_objects_trans by auto
    then show ?thesis using run r s a False t2 by (auto simp: main_body_def split: if_splits)
  next
    case True
    then obtain dev dpa where h: "doca_device res = Some dev" "doca_dpa res = Some dpa"
      "live t3 = (KDpa, dpa) # (KDev, dev) # live t2" "double_destroy t3 = double_destroy t2"
      using allocate_dpa_resources_objects [OF a] by auto
    obtain x1 u1 where d1: "call S (Destroy KDpa (Some dpa)) t4 = (x1, u1)" by fastforce
    obtain x2 u2 where d2: "call S (Destroy KDev (Some dev)) u1 = (x2, u2)" by fastforce
    have "t5 = u2" using d h by (simp add: destroy_dpa_resources_def d1 d2)
    then have "keeps_objects t t5"
      using call_Destroy [OF d1] call_Destroy [OF d2] h k34 t2(2) by (simp add: keeps_objects_def)
    then show ?thesis using run r s a k d True t2
      by (auto simp: main_body_def Let_def split: if_splits)
  qed
qed

lemma dpa_main_objects:
  assumes kl: "\<forall>res u. keeps_objects u (snd (kernel_launch S res u))"
  shows "keeps_objects t (snd (dpa_main S kernel_launch t))"
proof -
  obtain e1 t1 where l: "init_logging S t = (e1, t1)" by fastforce
  obtain a t2 where c: "call S (Create KArgp [] []) t1 = (a, t2)" by fastforce
  obtain x t3 where b: "main_body S kernel_launch \<lparr>device_name = DEVICE_DEFAULT_NAME\<rparr> t2 = (x, t3)"
    by fastforce
  obtain d t4 where d: "call S (Destroy KArgp (Some 0)) t3 = (d, t4)" by fastforce
  show ?thesis
    using init_logging_objects [OF l] call_Create [OF c] main_body_objects [OF kl b] call_Destroy [OF d]
    by (auto simp: dpa_main_def l c b d Let_def keeps_objects_def created_handle_def split: if_splits)
qed

text \<open>the exit status is EXIT_SUCCESS exactly when the kernel launch was reached and both
  it and the destruction of the resources succeeded; a failure on the way is never hidden.\<close>

theorem dpa_main_exit_status:
  "fst (dpa_main S kernel_launch t) = EXIT_SUCCESS \<longleftrightarrow>
     (\<exists>t1 a t2 t3 cfg t4 res t5 t6 t7.
        init_logging S t = (DOCA_SUCCESS, t1) \<and>
        call S (Create KArgp [] []) t1 = (a, t2) \<and> a_err a = DOCA_SUCCESS \<and>
        register_dpa_params S t2 = (DOCA_SUCCESS, t3) \<and>
        argp_start S \<lparr>device_name = DEVICE_DEFAULT_NAME\<rparr> t3 = (DOCA_SUCCESS, cfg, t4) \<and>
        allocate_dpa_resources S cfg \<lparr>doca_device = None, doca_dpa = None\<rparr> t4 = (DOCA_SUCCESS, res, t5) \<and>
        kernel_launch S res t5 = (DOCA_SUCCESS, t6) \<and>
        destroy_dpa_resources S res t6 = (DOCA_SUCCESS, t7))"
  by (auto simp: dpa_main_def main_body_def Let_def split: prod.splits if_splits)

end
