(* ===== verification/DpaHost.thy ===== *)
theory DpaHost
  imports Prelude "HOL-Library.Multiset"
begin

unbundle bit_operations_syntax

text \<open>
  The sequential helpers of the DPU hosts: clock arithmetic and random sleeps of
  dpa_kernel_launch_sample.c, the run summary with its percentiles of the high priority host,
  and the device kernel hello_world.
\<close>

section \<open>Clock arithmetic\<close>

record timespec =
  tv_sec :: int
  tv_nsec :: int

definition get_time_ns :: "timespec \<Rightarrow> u64" where
  "get_time_ns ts = word_of_int (tv_sec ts) * 1000000000 + word_of_int (tv_nsec ts)"

definition timespec_add_ms :: "timespec \<Rightarrow> u32 \<Rightarrow> timespec" where
  "timespec_add_ms ts ms =
     (let sec = tv_sec ts + int (unat (ms div 1000));
          nsec = tv_nsec ts + int (unat (ms mod 1000)) * 1000000
      in if nsec \<ge> 1000000000 then \<lparr>tv_sec = sec + 1, tv_nsec = nsec - 1000000000\<rparr>
         else \<lparr>tv_sec = sec, tv_nsec = nsec\<rparr>)"

text \<open>The time-slice host writes the same addition of 200 ms inline.\<close>

definition ts_add_200ms :: "timespec \<Rightarrow> timespec" where
  "ts_add_200ms ts =
     (let nsec = tv_nsec ts + 200 * 1000000
      in if nsec \<ge> 1000000000 then \<lparr>tv_sec = tv_sec ts + 1, tv_nsec = nsec - 1000000000\<rparr>
         else \<lparr>tv_sec = tv_sec ts, tv_nsec = nsec\<rparr>)"

definition timespec_valid :: "timespec \<Rightarrow> bool" where
  "timespec_valid ts \<longleftrightarrow> 0 \<le> tv_nsec ts \<and> tv_nsec ts < 1000000000"

definition total_ns :: "timespec \<Rightarrow> int" where
  "total_ns ts = tv_sec ts * 1000000000 + tv_nsec ts"

lemma timespec_add_ms_nsec_bound: "int (unat (ms mod 1000 :: u32)) < 1000"
proof -
  have "unat (ms mod 1000 :: u32) = unat ms mod 1000" by (simp add: unat_mod)
  then show ?thesis by simp
qed

text \<open>adding milliseconds to a deadline keeps the nanosecond field in range and moves the
  deadline by exactly that time; the inline addition of the time-slice host is the same
  function at 200 ms.\<close>

theorem timespec_add_ms_exact:
  assumes "timespec_valid ts"
  shows "timespec_valid (timespec_add_ms ts ms) \<and>
    total_ns (timespec_add_ms ts ms) = total_ns ts + int (unat ms) * 1000000 \<and>
    ts_add_200ms ts = timespec_add_ms ts 200"
proof -
  have split: "int (unat ms) = int (unat (ms div 1000)) * 1000 + int (unat (ms mod 1000))"
    by (simp add: unat_div unat_mod zdiv_int zmod_int)
  show ?thesis using assms split timespec_add_ms_nsec_bound [of ms]
    by (auto simp: timespec_valid_def timespec_add_ms_def total_ns_def ts_add_200ms_def Let_def)
qed

theorem timespec_add_ms_exact_witness:
  "timespec_valid \<lparr>tv_sec = 1, tv_nsec = 999000000\<rparr> \<and>
   total_ns (timespec_add_ms \<lparr>tv_sec = 1, tv_nsec = 999000000\<rparr> 200) = 2199000000"
proof -
  have v: "timespec_valid \<lparr>tv_sec = 1, tv_nsec = 999000000\<rparr>" by (simp add: timespec_valid_def)
  show ?thesis using v timespec_add_ms_exact [OF v, of 200] by (simp add: total_ns_def)
qed

section \<open>Random sleeps\<close>

text \<open>
  The result of rand() is an argument. The range is cast to int, so a range of 2^32 values is
  zero and the remainder traps; useconds_t is a 32 bit type, so the product wraps.
\<close>

datatype sleep_outcome = NoSleep | SleepUs u32 | SleepTrap

definition c_rem :: "int \<Rightarrow> int \<Rightarrow> int" where
  "c_rem a b = sgn a * (\<bar>a\<bar> mod \<bar>b\<bar>)"

definition sleep_ms_range :: "int \<Rightarrow> u32 \<Rightarrow> u32 \<Rightarrow> sleep_outcome" where
  "sleep_ms_range rnd min_ms max_ms =
     (let max_ms = (if max_ms < min_ms then min_ms else max_ms) in
      if max_ms = 0 then NoSleep
      else if max_ms > min_ms then
        (let range = sint (max_ms - min_ms + 1) in
         if range = 0 then SleepTrap
         else SleepUs ((min_ms + word_of_int (c_rem rnd range)) * 1000))
      else SleepUs (min_ms * 1000))"

lemma sleep_ms_range_fixed: "m \<noteq> 0 \<Longrightarrow> sleep_ms_range rnd m m = SleepUs (m * 1000)"
  by (simp add: sleep_ms_range_def)

lemma unat_u32_add:
  "unat (a :: u32) + unat b \<le> UINT32_MAX \<Longrightarrow> unat (a + b) = unat a + unat b"
  by (simp add: unat_word_ariths)

lemma unat_u32_mult:
  "unat (a :: u32) * unat b \<le> UINT32_MAX \<Longrightarrow> unat (a * b) = unat a * unat b"
  by (simp add: unat_word_ariths)

lemma sint_small_u32:
  assumes "unat (w :: u32) \<le> 4294968"
  shows "sint w = int (unat w)"
proof -
  have e: "uint w = int (unat w)" by (rule uint_nat)
  have lo: "- (2 ^ 31) \<le> uint w" by (rule order_trans [OF _ uint_ge_0]) simp
  have "uint w < 2147483648" unfolding e using assms by linarith
  then have hi: "uint w < 2 ^ 31" by simp
  have t: "signed_take_bit 31 (uint w) = uint w"
    by (rule signed_take_bit_int_eq_self) (fact lo, fact hi)
  have len: "LENGTH(32) - Suc 0 = 31" by simp
  have "sint w = signed_take_bit 31 (uint w)" unfolding sint_uint len ..
  then show ?thesis by (rule trans [OF _ trans [OF t e]])
qed

text \<open>for bounds up to 4294967 ms (the largest that fits into useconds_t) and a
  non-negative random number, the sleep lies between the two bounds.\<close>

theorem sleep_ms_range_bounds:
  assumes "min_ms \<le> max_ms" "0 < max_ms" "unat max_ms \<le> 4294967" "0 \<le> rnd"
  shows "\<exists>us. sleep_ms_range rnd min_ms max_ms = SleepUs us \<and>
    unat min_ms * 1000 \<le> unat us \<and> unat us \<le> unat max_ms * 1000"
proof (cases "min_ms < max_ms")
  case False
  with assms have "min_ms = max_ms" by simp
  moreover have "unat (max_ms * 1000) = unat max_ms * 1000"
    using assms(3) by (intro trans [OF unat_u32_mult]) simp_all
  moreover have "max_ms \<noteq> 0" using assms(2) by auto
  ultimately show ?thesis by (simp add: sleep_ms_range_fixed)
next
  case True
  let ?d = "max_ms - min_ms + 1"
  have le: "unat min_ms \<le> unat max_ms" using assms(1) by (simp add: word_le_nat_alt)
  have sub: "unat (max_ms - min_ms) = unat max_ms - unat min_ms" using le by (rule unat_sub_no_wrap)
  have d: "unat ?d = unat max_ms - unat min_ms + 1"
    using sub assms(3) by (subst unat_u32_add) simp_all
  have small: "unat ?d \<le> 4294968" using d assms(3) by linarith
  have sint: "sint ?d = int (unat ?d)" using small by (rule sint_small_u32)
  define r where "r = c_rem rnd (sint ?d)"
  have r: "r = rnd mod int (unat ?d)" using assms(4) by (cases "rnd = 0") (simp_all add: r_def c_rem_def sint)
  have pos: "0 < int (unat ?d)" using d by simp
  have rb: "0 \<le> r" "r \<le> int (unat max_ms - unat min_ms)"
    unfolding r using pos_mod_sign [OF pos, of rnd] pos_mod_bound [OF pos, of rnd] d by linarith+
  have wr: "unat (word_of_int r :: u32) = nat r"
  proof -
    have "r < 4294967296" using rb assms(3) by simp
    then have "uint (word_of_int r :: u32) = r" using rb(1) by (simp add: uint_word_of_int)
    then show ?thesis by (simp add: unat_eq_nat_uint)
  qed
  have bound: "unat min_ms + nat r \<le> unat max_ms" using rb le by linarith
  have s: "unat (min_ms + word_of_int r) = unat min_ms + nat r"
    using wr bound assms(3) by (subst unat_u32_add) simp_all
  have su: "unat ((min_ms + word_of_int r) * 1000) = (unat min_ms + nat r) * 1000"
    using s bound assms(3) by (subst unat_u32_mult) simp_all
  have nz: "max_ms \<noteq> 0" "sint ?d \<noteq> 0" using assms(2) sint d by auto
  have "sleep_ms_range rnd min_ms max_ms = SleepUs ((min_ms + word_of_int r) * 1000)"
    using True nz by (auto simp: sleep_ms_range_def r_def Let_def)
  then show ?thesis using su bound by simp
qed

theorem sleep_ms_range_bounds_witness:
  "\<exists>us. sleep_ms_range 12345 30 50 = SleepUs us \<and> 30000 \<le> unat us \<and> unat us \<le> 50000"
  using sleep_ms_range_bounds [of 30 50 12345] by simp

text \<open>A range of all 32 bit values divides by zero.\<close>

theorem sleep_ms_range_traps: "sleep_ms_range rnd 0 (- 1) = SleepTrap"
  by (simp add: sleep_ms_range_def Let_def word_gt_0)

section \<open>The run summary\<close>

text \<open>
  compare_u64 is the order handed to qsort. The summary keeps the integers of the printed
  line; the divisions by 1e6 and the throughput are left to the printer. None is an early
  return (nothing completed, no time passed, or no memory).
\<close>

definition compare_u64 :: "u64 \<Rightarrow> u64 \<Rightarrow> int" where
  "compare_u64 a b = (if a < b then -1 else if a > b then 1 else 0)"

record run_summary =
  su_total :: u32
  su_completed :: u32
  su_elapsed_ns :: u64
  su_sum_ns :: u64
  su_p50_ns :: u64
  su_p95_ns :: u64
  su_p99_ns :: u64
  su_min_ns :: u64
  su_max_ns :: u64

definition percentile_index :: "u32 \<Rightarrow> u32 \<Rightarrow> u32" where
  "percentile_index completed_tasks p = ((completed_tasks - 1) * p) div 100"

definition print_summary ::
  "bool \<Rightarrow> u32 \<Rightarrow> u32 \<Rightarrow> u64 list \<Rightarrow> u64 \<Rightarrow> u64 \<Rightarrow> run_summary option" where
  "print_summary calloc_ok total_tasks completed_tasks records total_start_ns total_end_ns =
     (if completed_tasks = 0 \<or> total_end_ns \<le> total_start_ns \<or> \<not> calloc_ok then None
      else
        let durations = take (unat completed_tasks) records;
            sum_ns = sum_list durations;
            durations = sort durations
        in Some \<lparr>su_total = total_tasks, su_completed = completed_tasks,
             su_elapsed_ns = total_end_ns - total_start_ns, su_sum_ns = sum_ns,
             su_p50_ns = durations ! unat ((completed_tasks - 1) div 2),
             su_p95_ns = durations ! unat (percentile_index completed_tasks 95),
             su_p99_ns = durations ! unat (percentile_index completed_tasks 99),
             su_min_ns = durations ! 0,
             su_max_ns = durations ! unat (completed_tasks - 1)\<rparr>)"

lemma unat_pred: "c \<noteq> 0 \<Longrightarrow> unat (c - 1 :: u32) = unat c - 1"
  using unat_sub_no_wrap [of 1 c] by (simp add: unat_gt_0 Suc_leI)

text \<open>the comparison handed to qsort is the order of the unsigned integers: antisymmetric,
  transitive and zero on equal arguments only.\<close>

theorem compare_u64_total_order:
  "(compare_u64 a b = 0 \<longleftrightarrow> a = b) \<and> compare_u64 b a = - compare_u64 a b \<and>
   (compare_u64 a b \<le> 0 \<longleftrightarrow> a \<le> b)"
  by (auto simp: compare_u64_def)

text \<open>the percentile indices are inside the array of the completed tasks for every number
  of tasks, also where the 32 bit product wraps around.\<close>

theorem percentile_index_in_bounds:
  assumes "completed_tasks \<noteq> 0" "unat p \<le> 100"
  shows "unat (percentile_index completed_tasks p) < unat completed_tasks"
proof -
  have pos: "0 < unat completed_tasks" using assms(1) by (simp add: unat_gt_0)
  have "unat ((completed_tasks - 1) * p) \<le> (unat completed_tasks - 1) * unat p"
    using assms(1) by (simp add: unat_word_ariths unat_pred)
  also have "\<dots> \<le> (unat completed_tasks - 1) * 100"
    using assms(2) by (rule mult_le_mono2)
  finally have "unat ((completed_tasks - 1) * p) div 100 \<le> unat completed_tasks - 1" by simp
  then show ?thesis using pos by (simp add: percentile_index_def unat_div)
qed

theorem percentile_index_in_bounds_witness:
  "unat (percentile_index 20 95) < unat (20 :: u32)"
  by (rule percentile_index_in_bounds) simp_all

lemma percentile_exact:
  assumes "completed_tasks \<noteq> 0" "unat completed_tasks \<le> 43383508" "unat p \<le> 99"
  shows "unat (percentile_index completed_tasks p) = ((unat completed_tasks - 1) * unat p) div 100"
proof -
  have "(unat completed_tasks - 1) * unat p \<le> 43383507 * 99"
    using assms(2,3) by (intro mult_le_mono) simp_all
  then have "unat ((completed_tasks - 1) * p) = (unat completed_tasks - 1) * unat p"
    using assms(1) by (subst unat_u32_mult) (simp_all add: unat_pred)
  then show ?thesis by (simp add: percentile_index_def unat_div)
qed

text \<open>on a run of up to 43383508 completed tasks with a record for each, the summary's
  figures are durations of completed tasks in the order min, p50, p95, p99, max.\<close>

theorem print_summary_ordered:
  assumes sum: "print_summary calloc_ok total_tasks completed_tasks records t0 t1 = Some su"
    and enough: "unat completed_tasks \<le> length records" and small: "unat completed_tasks \<le> 43383508"
  shows "su_min_ns su \<le> su_p50_ns su \<and> su_p50_ns su \<le> su_p95_ns su \<and>
    su_p95_ns su \<le> su_p99_ns su \<and> su_p99_ns su \<le> su_max_ns su \<and>
    {su_min_ns su, su_p50_ns su, su_p95_ns su, su_p99_ns su, su_max_ns su}
      \<subseteq> set (take (unat completed_tasks) records)"
proof -
  let ?n = "unat completed_tasks"
  let ?ds = "sort (take ?n records)"
  have nz: "completed_tasks \<noteq> 0" using sum by (auto simp: print_summary_def split: if_splits)
  then have pos: "0 < ?n" by (simp add: unat_gt_0)
  have len: "length ?ds = ?n" using enough by simp
  have i50: "unat ((completed_tasks - 1) div 2) = (?n - 1) div 2" using nz by (simp add: unat_div unat_pred)
  have i95: "unat (percentile_index completed_tasks 95) = ((?n - 1) * 95) div 100"
    using percentile_exact [OF nz small, of 95] by simp
  have i99: "unat (percentile_index completed_tasks 99) = ((?n - 1) * 99) div 100"
    using percentile_exact [OF nz small, of 99] by simp
  have su: "su_min_ns su = ?ds ! 0" "su_p50_ns su = ?ds ! ((?n - 1) div 2)"
    "su_p95_ns su = ?ds ! (((?n - 1) * 95) div 100)" "su_p99_ns su = ?ds ! (((?n - 1) * 99) div 100)"
    "su_max_ns su = ?ds ! (?n - 1)"
    using sum i50 i95 i99 unat_pred [OF nz] by (auto simp: print_summary_def Let_def split: if_splits)
  have mono: "?ds ! i \<le> ?ds ! j" if "i \<le> j" "j < ?n" for i j
    using that len sorted_nth_mono [OF sorted_sort [of "take ?n records"]] by metis
  have mem: "?ds ! i \<in> set (take ?n records)" if "i < ?n" for i
    using that len by (metis nth_mem set_sort)
  show ?thesis unfolding su using pos by (auto intro!: mono mem)
qed

theorem print_summary_ordered_witness:
  "\<exists>su. print_summary True 3 3 [9, 4, 6] 0 20 = Some su \<and> su_min_ns su \<le> su_p50_ns su \<and> su_p99_ns su \<le> su_max_ns su"
proof -
  obtain su where run: "print_summary True 3 3 [9, 4, 6] 0 20 = Some su"
    by (simp add: print_summary_def Let_def)
  show ?thesis using run print_summary_ordered [OF run] by simp
qed

section \<open>The device kernel\<close>

text \<open>
  hello_world keeps four 64 bit accumulators and mixes them iters times. The device only
  prints the result, and only when verbose is set (the time-slice host's kernel never does).
\<close>

record kernel_state =
  ka0 :: u64
  ka1 :: u64
  ka2 :: u64
  ka3 :: u64

definition kernel_init :: "u64 \<Rightarrow> kernel_state" where
  "kernel_init task_id =
     \<lparr>ka0 = 0x9E3779B97F4A7C15 XOR task_id,
      ka1 = 0xBF58476D1CE4E5B9 + push_bit 1 task_id,
      ka2 = 0x94D049BB133111EB XOR push_bit 2 task_id,
      ka3 = 0xD6E8FEB86659FD93 + push_bit 3 task_id\<rparr>"

definition kernel_mix :: "u64 \<Rightarrow> u64 \<Rightarrow> kernel_state \<Rightarrow> kernel_state" where
  "kernel_mix task_id i s =
     (let x = i + task_id;
          b0 = (ka0 s XOR (x + push_bit 1 (ka1 s))) * 0x9E3779B185EBCA87;
          b1 = ka1 s + (b0 XOR drop_bit 3 (ka2 s)) + 0x165667B19E3779F9;
          b2 = (ka2 s XOR (b1 + push_bit 2 (ka3 s))) * 0xC2B2AE3D27D4EB4F;
          b3 = ka3 s + (b2 XOR drop_bit 5 b0) + 0x27D4EB2F165667C5
      in \<lparr>ka0 = b0, ka1 = b1, ka2 = b2, ka3 = b3\<rparr>)"

function kernel_loop :: "u64 \<Rightarrow> u64 \<Rightarrow> u64 \<Rightarrow> kernel_state \<Rightarrow> kernel_state" where
  "kernel_loop task_id iters i s =
     (if i < iters then kernel_loop task_id iters (i + 1) (kernel_mix task_id i s) else s)"
  by pat_completeness auto
termination
proof (relation "measure (\<lambda>(task_id, iters, i, s). unat iters - unat i)")
  fix task_id iters i :: u64 and s
  assume "i < iters"
  then have lt: "unat i < unat iters" by (simp add: word_less_nat_alt)
  then show "((task_id, iters, i + 1, kernel_mix task_id i s), task_id, iters, i, s)
      \<in> measure (\<lambda>(task_id, iters, i, s). unat iters - unat i)"
    using unat_Suc_no_wrap [OF lt] by simp
qed simp

declare kernel_loop.simps [simp del]

definition hello_world :: "u64 \<Rightarrow> u64 \<Rightarrow> u64 \<Rightarrow> (u64 \<times> u64 \<times> u64) option" where
  "hello_world iters task_id verbose =
     (let s = kernel_loop task_id iters 0 (kernel_init task_id);
          acc = ka0 s XOR ka1 s XOR ka2 s XOR ka3 s
      in if verbose \<noteq> 0 then Some (task_id, iters, acc) else None)"

lemma kernel_loop_fold:
  "unat i \<le> unat iters \<Longrightarrow>
     kernel_loop task_id iters i s =
       fold (\<lambda>k. kernel_mix task_id (of_nat k)) [unat i..<unat iters] s"
proof (induction task_id iters i s rule: kernel_loop.induct)
  case (1 task_id iters i s)
  show ?case
  proof (cases "i < iters")
    case True
    then have lt: "unat i < unat iters" by (simp add: word_less_nat_alt)
    have suc: "unat (i + 1) = Suc (unat i)" by (rule unat_Suc_no_wrap [OF lt])
    have "kernel_loop task_id iters i s = kernel_loop task_id iters (i + 1) (kernel_mix task_id i s)"
      using True by (subst kernel_loop.simps) simp
    also have "\<dots> = fold (\<lambda>k. kernel_mix task_id (of_nat k)) [Suc (unat i)..<unat iters] (kernel_mix task_id i s)"
      using "1.IH" [OF True] lt suc by simp
    also have "\<dots> = fold (\<lambda>k. kernel_mix task_id (of_nat k)) [unat i..<unat iters] s"
      using lt by (simp add: upt_conv_Cons)
    finally show ?thesis .
  next
    case False
    then have "unat i = unat iters" using "1.prems" by (simp add: word_less_nat_alt)
    with False show ?thesis by (subst kernel_loop.simps) simp
  qed
qed

text \<open>the device loop stops for every 64 bit iteration count, after mixing the accumulators
  once for each index below it, in order.\<close>

theorem kernel_loop_iterations:
  "kernel_loop task_id iters 0 s = fold (\<lambda>k. kernel_mix task_id (of_nat k)) [0..<unat iters] s"
  using kernel_loop_fold [of 0 iters task_id s] by simp

end
