(* ===== verification/SignalGuard.thy ===== *)
theory SignalGuard
  imports Main
begin

text \<open>
  The signal handlers of the DPU hosts (install\_stop\_signal\_handlers and restore\_stop\_signal\_handlers, the same
  in the three dpa\_kernel\_launch\_sample.c): what the process does on SIGINT and SIGTERM, and the flag
  g\_stop\_requested the rest of the hosts looks at. The kernel answers each call of sigaction.
\<close>

datatype stop_signal = Interrupt | Terminate
datatype disposition = Default_action | Ignored | Stop_handler | Other_handler nat

record signals =
  sg_dispositions :: "stop_signal \<Rightarrow> disposition"
  sg_stop_requested :: bool
  sg_killed :: bool

record signal_guard =
  sg_installed :: bool
  sg_old_int :: disposition
  sg_old_term :: disposition

text \<open>The initializer of the hosts; zero is the default action.\<close>

definition zero_guard :: signal_guard where
  "zero_guard = \<lparr>sg_installed = False, sg_old_int = Default_action, sg_old_term = Default_action\<rparr>"

text \<open>A call of sigaction: the old disposition, or None when it fails.\<close>

definition sigaction :: "bool \<Rightarrow> stop_signal \<Rightarrow> disposition \<Rightarrow> signals \<Rightarrow> disposition option \<times> signals" where
  "sigaction accepted sig d st =
     (if accepted then (Some (sg_dispositions st sig), st\<lparr>sg_dispositions := (sg_dispositions st)(sig := d)\<rparr>)
      else (None, st))"

definition install_stop_signal_handlers :: "(stop_signal \<Rightarrow> bool) \<Rightarrow> signal_guard \<Rightarrow> signals \<Rightarrow> signal_guard \<times> signals" where
  "install_stop_signal_handlers accepted guard st =
     (case sigaction (accepted Interrupt) Interrupt Stop_handler st of
        (None, st) \<Rightarrow> (guard\<lparr>sg_installed := False\<rparr>, st)
      | (Some old, st) \<Rightarrow>
          (case sigaction (accepted Terminate) Terminate Stop_handler st of
             (None, st) \<Rightarrow> (guard\<lparr>sg_old_int := old, sg_installed := False\<rparr>, st)
           | (Some old', st) \<Rightarrow> (guard\<lparr>sg_old_int := old, sg_old_term := old', sg_installed := True\<rparr>, st)))"

definition restore_stop_signal_handlers :: "signal_guard \<Rightarrow> signals \<Rightarrow> signals" where
  "restore_stop_signal_handlers guard st =
     (if \<not> sg_installed guard then st
      else snd (sigaction True Terminate (sg_old_term guard) (snd (sigaction True Interrupt (sg_old_int guard) st))))"

text \<open>The arrival of a signal; another handler has its own effects.\<close>

definition signal_arrives :: "stop_signal \<Rightarrow> signals \<Rightarrow> signals" where
  "signal_arrives sig st =
     (case sg_dispositions st sig of
        Stop_handler \<Rightarrow> st\<lparr>sg_stop_requested := True\<rparr>
      | Default_action \<Rightarrow> st\<lparr>sg_killed := True\<rparr>
      | _ \<Rightarrow> st)"

text \<open>The first statements of kernel\_launch in each host: the handlers, then the flag. The signals in between are a
  list.\<close>

definition enter_host :: "(stop_signal \<Rightarrow> bool) \<Rightarrow> stop_signal list \<Rightarrow> signals \<Rightarrow> signal_guard \<times> signals" where
  "enter_host accepted between st =
     (case install_stop_signal_handlers accepted zero_guard st of
        (guard, st) \<Rightarrow> (guard, (fold signal_arrives between st)\<lparr>sg_stop_requested := False\<rparr>))"

section \<open>Facts\<close>

lemma arrivals_guarded:
  "\<forall>sig. sg_dispositions st sig = Stop_handler \<Longrightarrow>
     fold signal_arrives sigs st = st\<lparr>sg_stop_requested := (sg_stop_requested st \<or> sigs \<noteq> [])\<rparr>"
  by (induction sigs arbitrary: st) (simp_all add: signal_arrives_def)

lemma install_cases:
  assumes "install_stop_signal_handlers accepted guard st = (guard', st')"
  obtains "\<not> accepted Interrupt" "\<not> sg_installed guard'" "st' = st"
  | "accepted Interrupt" "\<not> accepted Terminate" "\<not> sg_installed guard'"
      "st' = st\<lparr>sg_dispositions := (sg_dispositions st)(Interrupt := Stop_handler)\<rparr>"
  | "accepted Interrupt" "accepted Terminate" "sg_installed guard'"
      "sg_old_int guard' = sg_dispositions st Interrupt" "sg_old_term guard' = sg_dispositions st Terminate"
      "st' = st\<lparr>sg_dispositions := (sg_dispositions st)(Interrupt := Stop_handler, Terminate := Stop_handler)\<rparr>"
  using assms
  by (cases "accepted Interrupt"; cases "accepted Terminate")
    (auto simp: install_stop_signal_handlers_def sigaction_def)

lemma stop_signal_all: "(\<forall>sig. P sig) \<longleftrightarrow> P Interrupt \<and> P Terminate"
  by (metis stop_signal.exhaust)

lemma dispositions_upd2:
  "d(Interrupt := x, Terminate := y, Interrupt := d Interrupt, Terminate := d Terminate) = d"
  by (auto simp: fun_eq_iff)

text \<open>Between the two calls of a host no signal is lost and none ends the process, and afterwards the
  dispositions are those from before.\<close>

theorem guarded_signals_kept:
  assumes "install_stop_signal_handlers accepted guard st = (guard', st')" "sg_installed guard'"
  shows "restore_stop_signal_handlers guard' (fold signal_arrives sigs st') =
    st\<lparr>sg_stop_requested := (sg_stop_requested st \<or> sigs \<noteq> [])\<rparr>"
  using assms(1)
proof (cases rule: install_cases)
  case 3
  have all: "\<forall>sig. sg_dispositions st' sig = Stop_handler" unfolding 3(6) by (simp add: stop_signal_all)
  show ?thesis unfolding arrivals_guarded [OF all]
    using 3 by (simp add: restore_stop_signal_handlers_def sigaction_def dispositions_upd2)
qed (use assms(2) in auto)

text \<open>When only the second handler is refused the guard does not know of the first: SIGINT keeps its handler for
  good, and with it a program that should end on the signal no longer does.\<close>

theorem half_installed_stays:
  assumes "accepted Interrupt" "\<not> accepted Terminate"
    "install_stop_signal_handlers accepted guard st = (guard', st')"
  shows "sg_dispositions (restore_stop_signal_handlers guard' st') Interrupt = Stop_handler"
  using assms(3) by (cases rule: install_cases) (use assms(1,2) in \<open>auto simp: restore_stop_signal_handlers_def\<close>)

text \<open>The hosts forget the signals that arrive between its two statements: the process goes on as if
  there had been none.\<close>

theorem early_signal_lost:
  assumes "enter_host (\<lambda>_. True) between st = (guard, st')"
  shows "\<not> sg_stop_requested st' \<and> (sg_killed st' \<longleftrightarrow> sg_killed st)"
proof -
  let ?st = "st\<lparr>sg_dispositions := (sg_dispositions st)(Interrupt := Stop_handler, Terminate := Stop_handler)\<rparr>"
  have all: "\<forall>sig. sg_dispositions ?st sig = Stop_handler" by (simp add: stop_signal_all)
  have "st' = (fold signal_arrives between ?st)\<lparr>sg_stop_requested := False\<rparr>"
    using assms by (simp add: enter_host_def install_stop_signal_handlers_def sigaction_def)
  then show ?thesis unfolding arrivals_guarded [OF all] by simp
qed

end
