(* ===== verification/Pipeline.thy ===== *)
theory Pipeline
  imports Prelude
begin

text \<open>
  The contract the three DPU hosts share: a launcher that counts what it submits and a worker
  that counts what it finishes, with a bounded number of kernels in between. What the hosts'
  reports rely on is proved here once.
\<close>

definition windowed :: "nat \<Rightarrow> nat \<Rightarrow> nat \<Rightarrow> bool" where
  "windowed window submitted completed \<longleftrightarrow> completed \<le> submitted \<and> submitted \<le> completed + window"

lemma windowed_gap:
  assumes "windowed w s c" "windowed w s' c'" "c \<le> c'" "s \<le> s'"
  shows "\<bar>int (c' - c) - int (s' - s)\<bar> \<le> int w"
  using assms by (auto simp: windowed_def)

locale pipeline =
  fixes reach :: "'s \<Rightarrow> bool"
    and submitted completed :: "'s \<Rightarrow> nat"
    and window :: nat
  assumes bounds: "reach s \<Longrightarrow> windowed window (submitted s) (completed s)"
begin

lemma in_flight: "reach s \<Longrightarrow> submitted s - completed s \<le> window"
  using bounds [of s] by (auto simp: windowed_def)

lemma never_ahead: "reach s \<Longrightarrow> completed s \<le> submitted s"
  using bounds [of s] by (simp add: windowed_def)

lemma drained: "reach s \<Longrightarrow> submitted s \<le> completed s \<Longrightarrow> submitted s = completed s"
  using bounds [of s] by (simp add: windowed_def)

text \<open>
  Between two observations the completions differ from the submissions by at most the window:
  this is the error of a rate computed from either count.
\<close>

lemma rate_error:
  "reach s \<Longrightarrow> reach s' \<Longrightarrow> completed s \<le> completed s' \<Longrightarrow> submitted s \<le> submitted s' \<Longrightarrow>
     \<bar>int (completed s' - completed s) - int (submitted s' - submitted s)\<bar> \<le> int window"
  using windowed_gap [OF bounds bounds] by blast

text \<open>From a drained state on, no more is completed than submitted.\<close>

lemma rate_after_drain:
  "reach s \<Longrightarrow> reach s' \<Longrightarrow> submitted s = completed s \<Longrightarrow>
     completed s' - completed s \<le> submitted s' - submitted s"
  using bounds [of s'] by (auto simp: windowed_def)

end

end
