(* ===== verification/KernelLaunch.thy ===== *)
theory KernelLaunch
  imports CString DpaObjects DpaHost
begin

text \<open>
  The launch loop of the low priority DPU host, kernel_launch and its threads in
  application/dpu/low_priority/dpa_kernel_launch/host/dpa_kernel_launch_sample.c, as a state
  machine of three threads: the launcher (kernel_launch itself), the completion worker and the
  signal handler. A step is the code between two points where another thread can run; what
  the SDK answers is an argument of the step.
\<close>

section \<open>Configuration\<close>

record kl_config =
  m_tasks :: u32
  n_iters_in_kernel :: u32
  sleep_min_ms :: u32
  sleep_max_ms :: u32
  max_inflight :: u32
  gate_batch :: u32
  gate_hold_ms :: u32
  gate_idle_ms :: u32
  gate_drain :: u32
  gate_log_ms :: u32
  gate_verbose :: u32
  heartbeat_ms :: u32
  stdout_flush_ms :: u32

definition k_m_tasks :: u32 where "k_m_tasks = 200000"
definition k_n_iters_in_kernel :: u32 where "k_n_iters_in_kernel = 300000"
definition k_sleep_min_ms :: u32 where "k_sleep_min_ms = 30"
definition k_sleep_max_ms :: u32 where "k_sleep_max_ms = 50"
definition k_max_inflight_default :: u32 where "k_max_inflight_default = 1"

definition clamp_inflight :: "u32 \<Rightarrow> u32 \<Rightarrow> u32" where
  "clamp_inflight inflight batch =
     (let inflight = (if inflight = 0 then 1 else inflight)
      in if batch \<noteq> 0 \<and> inflight < batch then batch else inflight)"

definition read_kl_config :: "env \<Rightarrow> kl_config" where
  "read_kl_config getenv =
     (let sleep_min = getenv_u32_or_default getenv ''DPA_DEMO_SLEEP_MIN_MS'' k_sleep_min_ms;
          sleep_max = getenv_u32_or_default getenv ''DPA_DEMO_SLEEP_MAX_MS'' k_sleep_max_ms;
          fixed_sleep_ms = getenv_u32_checked getenv ''DPA_DEMO_INTER_TASK_SLEEP_MS'';
          batch = getenv_u32_or_default getenv ''DPA_DEMO_GATE_BATCH'' 0;
          inflight = getenv_u32_first_of getenv
            [''DPA_DEMO_MAX_INFLIGHT'', ''DPA_DEMO_INFLIGHT''] k_max_inflight_default
      in \<lparr>m_tasks = getenv_u32_first_of getenv
             [''DPA_DEMO_TASKS'', ''DPA_DEMO_TOTAL_TASKS''] k_m_tasks,
          n_iters_in_kernel = getenv_u32_first_of getenv
             [''DPA_DEMO_KERNEL_ITERS'', ''DPA_DEMO_ITERS''] k_n_iters_in_kernel,
          sleep_min_ms = (case fixed_sleep_ms of Some v \<Rightarrow> v | None \<Rightarrow> sleep_min),
          sleep_max_ms = (case fixed_sleep_ms of Some v \<Rightarrow> v | None \<Rightarrow> sleep_max),
          max_inflight = clamp_inflight inflight batch,
          gate_batch = batch,
          gate_hold_ms = getenv_u32_or_default getenv ''DPA_DEMO_GATE_HOLD_MS'' 0,
          gate_idle_ms = getenv_u32_or_default getenv ''DPA_DEMO_GATE_IDLE_MS'' 0,
          gate_drain = getenv_u32_or_default getenv ''DPA_DEMO_GATE_DRAIN'' (if batch \<noteq> 0 then 1 else 0),
          gate_log_ms = getenv_u32_or_default getenv ''DPA_DEMO_GATE_LOG_MS'' (if batch \<noteq> 0 then 500 else 0),
          gate_verbose = getenv_u32_or_default getenv ''DPA_DEMO_GATE_VERBOSE'' (if batch \<noteq> 0 then 1 else 0),
          heartbeat_ms = getenv_u32_or_default getenv ''DPA_DEMO_HEARTBEAT_MS'' 0,
          stdout_flush_ms = getenv_u32_or_default getenv ''DPA_DEMO_STDOUT_FLUSH_MS'' 0\<rparr>)"

text \<open>What the launch loop relies on.\<close>

definition kl_config_ok :: "kl_config \<Rightarrow> bool" where
  "kl_config_ok cfg \<longleftrightarrow> 0 < max_inflight cfg \<and> gate_batch cfg \<le> max_inflight cfg"

section \<open>State\<close>

record inflight_record =
  ir_task_id :: u32
  ir_comp_val :: u64
  ir_start_ns :: u64

text \<open>
  Positions of the launcher. L_Slot is the wait for a free in-flight slot (the mutex is
  released inside the wait), L_Record writes the record of the task before L_Publish
  increments next_ready under the mutex, L_Drain and L_FinalDrain wait for target_completed.
\<close>

datatype launcher_pc =
  L_Head | L_Slot | L_Start | L_Launch | L_OpenSingle | L_Record | L_Publish | L_Batch
  | L_GateOpen | L_Drain | L_FinalCheck | L_FinalOpen | L_FinalDrain | L_StopAccepting
  | L_Cleanup | L_Join | L_Done

datatype worker_pc = W_Wait | W_Event | W_Fail doca_error | W_Finish | W_Exit

record kl_state =
  g_stop_requested :: bool
  records :: "inflight_record list"
  next_ready :: u32
  next_to_wait :: u32
  completed :: u32
  accepting :: bool
  worker_result :: doca_error
  launcher_pc :: launcher_pc
  task_id :: u32
  wait_thresh :: u64
  task_start_ns :: u64
  gate_in_batch :: u32
  gate_wait_val :: u64
  target_completed :: u32
  kl_result :: doca_error
  worker_pc :: worker_pc
  record_idx :: u32
  wait_event_val :: u64
  launches :: "(u64 \<times> u64) list"

text \<open>
  The last two fields are what the device sees: the value last stored into the wait event and
  the kernels launched, each with the threshold of the wait event above which it runs and the
  value it stores into the completion event.
\<close>

definition kl_init :: "kl_config \<Rightarrow> kl_state" where
  "kl_init cfg =
     \<lparr>g_stop_requested = False,
      records = replicate (unat (m_tasks cfg)) \<lparr>ir_task_id = 0, ir_comp_val = 0, ir_start_ns = 0\<rparr>,
      next_ready = 0, next_to_wait = 0, completed = 0, accepting = True,
      worker_result = DOCA_SUCCESS, launcher_pc = L_Head, task_id = 0, wait_thresh = 0,
      task_start_ns = 0, gate_in_batch = 0, gate_wait_val = 4, target_completed = 0,
      kl_result = DOCA_SUCCESS, worker_pc = W_Wait, record_idx = 0, wait_event_val = 0,
      launches = []\<rparr>"

text \<open>
  The environment of a step: the error code of the SDK call the step makes, the outcome of
  doca_sync_event_wait_gt (None while it blocks), the clock, and whether a stop signal arrives
  before it.
\<close>

record kl_env =
  en_err :: doca_error
  en_wait :: "doca_error option"
  en_now :: u64
  en_signal :: bool

section \<open>The launcher\<close>

definition comp_event_val :: "u32 \<Rightarrow> u64" where
  "comp_event_val tid = 10 + ucast tid"

definition fail_with :: "doca_error \<Rightarrow> kl_state \<Rightarrow> kl_state" where
  "fail_with e s = s\<lparr>kl_result := e, launcher_pc := L_Cleanup\<rparr>"

definition next_task :: "kl_state \<Rightarrow> kl_state" where
  "next_task s = s\<lparr>task_id := task_id s + 1, launcher_pc := L_Head\<rparr>"

text \<open>Opening every gate at once when a stop was requested; the result of the call is ignored.\<close>

definition release_all :: "kl_env \<Rightarrow> kl_state \<Rightarrow> kl_state" where
  "release_all e s =
     (let s = s\<lparr>launcher_pc := L_Cleanup\<rparr>
      in if en_err e = DOCA_SUCCESS then s\<lparr>wait_event_val := - 1\<rparr> else s)"

definition launcher_step :: "kl_config \<Rightarrow> kl_env \<Rightarrow> kl_state \<Rightarrow> kl_state" where
  "launcher_step cfg e s = (case launcher_pc s of
     L_Head \<Rightarrow>
       if task_id s < m_tasks cfg \<and> \<not> g_stop_requested s then s\<lparr>launcher_pc := L_Slot\<rparr>
       else s\<lparr>launcher_pc := L_FinalCheck\<rparr>
   | L_Slot \<Rightarrow>
       if next_ready s - completed s \<ge> max_inflight cfg \<and> worker_result s = DOCA_SUCCESS \<and>
          \<not> g_stop_requested s
       then s
       else if worker_result s \<noteq> DOCA_SUCCESS then fail_with (worker_result s) s
       else s\<lparr>launcher_pc := L_Start\<rparr>
   | L_Start \<Rightarrow>
       if g_stop_requested s then s\<lparr>launcher_pc := L_FinalCheck\<rparr>
       else s\<lparr>launcher_pc := L_Launch, task_start_ns := en_now e,
              wait_thresh := (if gate_batch cfg = 0 then 4 else gate_wait_val s)\<rparr>
   | L_Launch \<Rightarrow>
       if en_err e \<noteq> DOCA_SUCCESS then fail_with (en_err e) s
       else s\<lparr>launches := launches s @ [(wait_thresh s, comp_event_val (task_id s))],
              launcher_pc := (if gate_batch cfg = 0 then L_OpenSingle else L_Record)\<rparr>
   | L_OpenSingle \<Rightarrow>
       if en_err e \<noteq> DOCA_SUCCESS then fail_with (en_err e) s
       else s\<lparr>wait_event_val := wait_thresh s + 1, launcher_pc := L_Record\<rparr>
   | L_Record \<Rightarrow>
       s\<lparr>records := (records s)[unat (task_id s) := \<lparr>ir_task_id = task_id s,
           ir_comp_val = comp_event_val (task_id s), ir_start_ns = task_start_ns s\<rparr>],
         launcher_pc := L_Publish\<rparr>
   | L_Publish \<Rightarrow>
       (let s = s\<lparr>next_ready := next_ready s + 1\<rparr>
        in if gate_batch cfg \<noteq> 0 then s\<lparr>launcher_pc := L_Batch\<rparr> else next_task s)
   | L_Batch \<Rightarrow>
       (let s = s\<lparr>gate_in_batch := gate_in_batch s + 1\<rparr>
        in if gate_in_batch s \<ge> gate_batch cfg then s\<lparr>launcher_pc := L_GateOpen\<rparr> else next_task s)
   | L_GateOpen \<Rightarrow>
       if g_stop_requested s then release_all e s
       else if en_err e \<noteq> DOCA_SUCCESS then fail_with (en_err e) s
       else
         let s = s\<lparr>wait_event_val := gate_wait_val s + 1, gate_wait_val := gate_wait_val s + 2,
                   gate_in_batch := 0\<rparr>
         in if gate_drain cfg \<noteq> 0
            then s\<lparr>target_completed := next_ready s, launcher_pc := L_Drain\<rparr>
            else next_task s
   | L_Drain \<Rightarrow>
       if completed s < target_completed s \<and> worker_result s = DOCA_SUCCESS \<and>
          \<not> g_stop_requested s
       then s
       else if g_stop_requested s then release_all e s
       else if worker_result s \<noteq> DOCA_SUCCESS then fail_with (worker_result s) s
       else next_task s
   | L_FinalCheck \<Rightarrow>
       if gate_batch cfg \<noteq> 0 \<and> gate_in_batch s \<noteq> 0 then s\<lparr>launcher_pc := L_FinalOpen\<rparr>
       else s\<lparr>launcher_pc := L_StopAccepting\<rparr>
   | L_FinalOpen \<Rightarrow>
       if g_stop_requested s then release_all e s
       else if en_err e \<noteq> DOCA_SUCCESS then fail_with (en_err e) s
       else
         let s = s\<lparr>wait_event_val := gate_wait_val s + 1\<rparr>
         in if gate_drain cfg \<noteq> 0
            then s\<lparr>target_completed := next_ready s, launcher_pc := L_FinalDrain\<rparr>
            else s\<lparr>launcher_pc := L_StopAccepting\<rparr>
   | L_FinalDrain \<Rightarrow>
       if completed s < target_completed s \<and> worker_result s = DOCA_SUCCESS \<and>
          \<not> g_stop_requested s
       then s
       else if g_stop_requested s then release_all e s
       else if worker_result s \<noteq> DOCA_SUCCESS then fail_with (worker_result s) s
       else s\<lparr>launcher_pc := L_StopAccepting\<rparr>
   | L_StopAccepting \<Rightarrow> s\<lparr>accepting := False, launcher_pc := L_Cleanup\<rparr>
   | L_Cleanup \<Rightarrow> s\<lparr>accepting := False, launcher_pc := L_Join\<rparr>
   | L_Join \<Rightarrow>
       if worker_pc s = W_Exit
       then s\<lparr>kl_result := (if worker_result s \<noteq> DOCA_SUCCESS \<and> kl_result s = DOCA_SUCCESS
                 then worker_result s else kl_result s), launcher_pc := L_Done\<rparr>
       else s
   | L_Done \<Rightarrow> s)"

section \<open>The completion worker and the signal handler\<close>

definition worker_step :: "kl_env \<Rightarrow> kl_state \<Rightarrow> kl_state" where
  "worker_step e s = (case worker_pc s of
     W_Wait \<Rightarrow>
       if next_to_wait s = next_ready s \<and> accepting s then s
       else if next_to_wait s = next_ready s then s\<lparr>worker_pc := W_Exit\<rparr>
       else s\<lparr>record_idx := next_to_wait s, next_to_wait := next_to_wait s + 1, worker_pc := W_Event\<rparr>
   | W_Event \<Rightarrow>
       (case en_wait e of
          None \<Rightarrow> s
        | Some wait_res \<Rightarrow>
            if wait_res \<noteq> DOCA_SUCCESS then s\<lparr>worker_pc := W_Fail wait_res\<rparr>
            else s\<lparr>worker_pc := W_Finish\<rparr>)
   | W_Fail wait_res \<Rightarrow> s\<lparr>worker_result := wait_res, accepting := False, worker_pc := W_Exit\<rparr>
   | W_Finish \<Rightarrow> s\<lparr>completed := completed s + 1, worker_pc := W_Wait\<rparr>
   | W_Exit \<Rightarrow> s)"

definition handle_stop_signal :: "kl_state \<Rightarrow> kl_state" where
  "handle_stop_signal s = s\<lparr>g_stop_requested := True\<rparr>"

inductive kl_reach :: "kl_config \<Rightarrow> kl_state \<Rightarrow> bool" for cfg where
  kl_start: "kl_reach cfg (kl_init cfg)"
| kl_launcher: "kl_reach cfg s \<Longrightarrow> kl_reach cfg (launcher_step cfg e s)"
| kl_worker: "kl_reach cfg s \<Longrightarrow> kl_reach cfg (worker_step e s)"
| kl_signal: "kl_reach cfg s \<Longrightarrow> kl_reach cfg (handle_stop_signal s)"


text \<open>
  One tick of the heartbeat thread: the line it prints (completed, total, in flight,
  accepting) and whether the thread ends after it.
\<close>

definition heartbeat_tick :: "kl_config \<Rightarrow> kl_state \<Rightarrow> (u32 \<times> u32 \<times> u32 \<times> bool) \<times> bool" where
  "heartbeat_tick cfg s =
     (let inflight = (if next_ready s \<ge> completed s then next_ready s - completed s else 0)
      in ((completed s, m_tasks cfg, inflight, accepting s),
          completed s \<ge> m_tasks cfg \<and> \<not> accepting s))"

text \<open>One round of a scheduler that lets both threads run, and runs of several steps.\<close>

definition kl_round :: "kl_config \<Rightarrow> kl_env \<Rightarrow> kl_state \<Rightarrow> kl_state" where
  "kl_round cfg e s =
     worker_step e (launcher_step cfg e (if en_signal e then handle_stop_signal s else s))"

primrec kl_rounds :: "kl_config \<Rightarrow> (nat \<Rightarrow> kl_env) \<Rightarrow> nat \<Rightarrow> kl_state \<Rightarrow> kl_state" where
  "kl_rounds cfg es 0 s = s"
| "kl_rounds cfg es (Suc n) s = kl_round cfg (es n) (kl_rounds cfg es n s)"

section \<open>Invariants\<close>

definition winding_up :: "launcher_pc \<Rightarrow> bool" where
  "winding_up pc \<longleftrightarrow> pc = L_Cleanup \<or> pc = L_Join \<or> pc = L_Done"

definition in_task :: "launcher_pc \<Rightarrow> bool" where
  "in_task pc \<longleftrightarrow> pc = L_Slot \<or> pc = L_Start \<or> pc = L_Launch \<or> pc = L_OpenSingle \<or>
     pc = L_Record \<or> pc = L_Publish"

definition has_slot :: "launcher_pc \<Rightarrow> bool" where
  "has_slot pc \<longleftrightarrow> pc = L_Launch \<or> pc = L_OpenSingle \<or> pc = L_Record \<or> pc = L_Publish"

definition after_publish :: "launcher_pc \<Rightarrow> bool" where
  "after_publish pc \<longleftrightarrow> pc = L_Batch \<or> pc = L_GateOpen \<or> pc = L_Drain"

definition launched_unpublished :: "launcher_pc \<Rightarrow> bool" where
  "launched_unpublished pc \<longleftrightarrow> pc = L_OpenSingle \<or> pc = L_Record \<or> pc = L_Publish"

lemmas pc_defs = winding_up_def in_task_def has_slot_def after_publish_def launched_unpublished_def

text \<open>The worker: what it has taken, finished and reported at each of its positions.\<close>

definition worker_inv :: "kl_state \<Rightarrow> bool" where
  "worker_inv s \<longleftrightarrow>
     unat (next_to_wait s) \<le> unat (next_ready s) \<and>
     (case worker_pc s of
        W_Wait \<Rightarrow> next_to_wait s = completed s \<and> worker_result s = DOCA_SUCCESS
      | W_Event \<Rightarrow> unat (next_to_wait s) = Suc (unat (completed s)) \<and> record_idx s = completed s \<and>
          worker_result s = DOCA_SUCCESS
      | W_Fail e \<Rightarrow> unat (next_to_wait s) = Suc (unat (completed s)) \<and> record_idx s = completed s \<and>
          worker_result s = DOCA_SUCCESS \<and> e \<noteq> DOCA_SUCCESS
      | W_Finish \<Rightarrow> unat (next_to_wait s) = Suc (unat (completed s)) \<and> record_idx s = completed s \<and>
          worker_result s = DOCA_SUCCESS
      | W_Exit \<Rightarrow> \<not> accepting s \<and>
          (if worker_result s = DOCA_SUCCESS
           then next_to_wait s = completed s \<and> next_to_wait s = next_ready s
           else unat (next_to_wait s) = Suc (unat (completed s)))) \<and>
     (\<not> accepting s \<longrightarrow> worker_result s \<noteq> DOCA_SUCCESS \<or> winding_up (launcher_pc s)) \<and>
     (accepting s \<longrightarrow> launcher_pc s \<noteq> L_Join \<and> launcher_pc s \<noteq> L_Done)"

text \<open>The launcher: how far next_ready is, and the bound on the launches in flight.\<close>

definition launcher_inv :: "kl_config \<Rightarrow> kl_state \<Rightarrow> bool" where
  "launcher_inv cfg s \<longleftrightarrow>
     unat (completed s) \<le> unat (next_ready s) \<and>
     unat (next_ready s) \<le> unat (m_tasks cfg) \<and>
     (launcher_pc s = L_Head \<or> in_task (launcher_pc s) \<longrightarrow> task_id s = next_ready s) \<and>
     (in_task (launcher_pc s) \<longrightarrow> unat (next_ready s) < unat (m_tasks cfg)) \<and>
     (after_publish (launcher_pc s) \<longrightarrow> unat (next_ready s) = Suc (unat (task_id s))) \<and>
     unat (next_ready s) \<le> unat (completed s) + unat (max_inflight cfg) \<and>
     (launcher_pc s = L_Start \<longrightarrow> g_stop_requested s \<or>
        unat (next_ready s) < unat (completed s) + unat (max_inflight cfg)) \<and>
     (has_slot (launcher_pc s) \<longrightarrow>
        unat (next_ready s) < unat (completed s) + unat (max_inflight cfg)) \<and>
     (launcher_pc s = L_Drain \<or> launcher_pc s = L_FinalDrain \<longrightarrow> target_completed s = next_ready s)"

lemma worker_inv_init: "worker_inv (kl_init cfg)"
  by (simp add: worker_inv_def kl_init_def winding_up_def)

lemma launcher_inv_init: "launcher_inv cfg (kl_init cfg)"
  by (simp add: launcher_inv_def kl_init_def pc_defs)

lemma worker_inv_launcher_step:
  assumes "worker_inv s" "launcher_inv cfg s"
  shows "worker_inv (launcher_step cfg e s)"
proof (cases "launcher_pc s")
  case L_Publish
  then have "unat (next_ready s + 1) = Suc (unat (next_ready s))"
    using assms(2) by (intro unat_Suc_no_wrap [of _ "m_tasks cfg"]) (simp add: launcher_inv_def pc_defs)
  with L_Publish assms show ?thesis
    by (auto simp: launcher_step_def worker_inv_def Let_def next_task_def pc_defs
        split: worker_pc.splits if_splits)
qed (use assms in \<open>auto simp: launcher_step_def worker_inv_def Let_def next_task_def fail_with_def
        release_all_def pc_defs split: worker_pc.splits if_splits\<close>)

lemma launcher_inv_launcher_step:
  assumes "launcher_inv cfg s"
  shows "launcher_inv cfg (launcher_step cfg e s)"
proof (cases "launcher_pc s")
  case L_Publish
  then have "unat (next_ready s + 1) = Suc (unat (next_ready s))"
    using assms by (intro unat_Suc_no_wrap [of _ "m_tasks cfg"]) (simp add: launcher_inv_def pc_defs)
  with L_Publish assms show ?thesis
    by (auto simp: launcher_step_def launcher_inv_def Let_def next_task_def pc_defs)
next
  case L_Slot
  then show ?thesis using assms
    by (auto simp: launcher_step_def launcher_inv_def fail_with_def pc_defs word_le_nat_alt
        unat_sub_no_wrap)
next
  case L_Head
  then show ?thesis using assms
    by (auto simp: launcher_step_def launcher_inv_def pc_defs word_less_nat_alt)
next
  case L_Batch
  with assms show ?thesis
    by (auto simp: launcher_step_def launcher_inv_def Let_def next_task_def pc_defs dest: unat_Suc_eq)
next
  case L_GateOpen
  with assms show ?thesis
    by (auto simp: launcher_step_def launcher_inv_def Let_def next_task_def fail_with_def
        release_all_def pc_defs dest: unat_Suc_eq)
next
  case L_Drain
  with assms show ?thesis
    by (auto simp: launcher_step_def launcher_inv_def Let_def next_task_def fail_with_def
        release_all_def pc_defs dest: unat_Suc_eq)
qed (use assms in \<open>auto simp: launcher_step_def launcher_inv_def Let_def next_task_def fail_with_def
        release_all_def pc_defs\<close>)

lemma worker_inv_worker_step:
  assumes "worker_inv s"
  shows "worker_inv (worker_step e s)"
proof (cases "worker_pc s")
  case W_Wait
  have le: "unat (next_to_wait s) \<le> unat (next_ready s)" using assms by (simp add: worker_inv_def)
  have "next_to_wait s \<noteq> next_ready s \<Longrightarrow> unat (next_to_wait s + 1) = Suc (unat (next_to_wait s)) \<and>
      Suc (unat (next_to_wait s)) \<le> unat (next_ready s)"
    using le unat_Suc_no_wrap [of "next_to_wait s" "next_ready s"]
    by (metis Suc_leI le_neq_implies_less word_unat_eq_iff)
  with W_Wait assms show ?thesis by (auto simp: worker_step_def worker_inv_def)
next
  case W_Finish
  with assms show ?thesis
    by (auto simp: worker_step_def worker_inv_def dest: unat_Suc_eq)
qed (use assms in \<open>auto simp: worker_step_def worker_inv_def split: option.splits\<close>)

lemma launcher_inv_worker_step:
  assumes "launcher_inv cfg s" "worker_inv s"
  shows "launcher_inv cfg (worker_step e s)"
proof (cases "worker_pc s")
  case W_Finish
  with assms(2) have n: "unat (next_to_wait s) = Suc (unat (completed s))"
      "unat (next_to_wait s) \<le> unat (next_ready s)"
    by (simp_all add: worker_inv_def)
  then have "unat (completed s + 1) = Suc (unat (completed s))"
    by (intro unat_Suc_no_wrap [of _ "next_to_wait s"]) simp
  moreover have "unat (completed s) < unat (next_ready s)" using n by simp
  ultimately show ?thesis using assms(1) W_Finish
    by (auto simp: worker_step_def launcher_inv_def)
qed (use assms(1) in \<open>simp add: worker_step_def launcher_inv_def split: option.split\<close>)+

lemma worker_inv_signal: "worker_inv s \<Longrightarrow> worker_inv (handle_stop_signal s)"
  by (auto simp: worker_inv_def handle_stop_signal_def split: worker_pc.splits)

lemma launcher_inv_signal: "launcher_inv cfg s \<Longrightarrow> launcher_inv cfg (handle_stop_signal s)"
  by (simp add: launcher_inv_def handle_stop_signal_def)

text \<open>The kernels launched and the records published, task by task.\<close>

definition data_inv :: "kl_config \<Rightarrow> kl_state \<Rightarrow> bool" where
  "data_inv cfg s \<longleftrightarrow>
     (if launched_unpublished (launcher_pc s) then length (launches s) = Suc (unat (next_ready s))
      else if winding_up (launcher_pc s) \<and> kl_result s \<noteq> DOCA_SUCCESS
      then unat (next_ready s) \<le> length (launches s)
      else length (launches s) = unat (next_ready s)) \<and>
     (\<forall>j<length (launches s). snd (launches s ! j) = 10 + of_nat j) \<and>
     length (records s) = unat (m_tasks cfg) \<and>
     (\<forall>j<unat (next_ready s) + (if launcher_pc s = L_Publish then 1 else 0).
        ir_task_id (records s ! j) = of_nat j \<and> ir_comp_val (records s ! j) = 10 + of_nat j)"

text \<open>
  How the launcher ends: a successful result without a stop request means that every task was
  published.
\<close>

definition result_inv :: "kl_config \<Rightarrow> kl_state \<Rightarrow> bool" where
  "result_inv cfg s \<longleftrightarrow>
     (\<not> winding_up (launcher_pc s) \<longrightarrow> kl_result s = DOCA_SUCCESS) \<and>
     ((launcher_pc s = L_FinalCheck \<or> launcher_pc s = L_FinalOpen \<or> launcher_pc s = L_FinalDrain \<or>
       launcher_pc s = L_StopAccepting \<or> winding_up (launcher_pc s) \<and> kl_result s = DOCA_SUCCESS) \<and>
      \<not> g_stop_requested s \<longrightarrow> next_ready s = m_tasks cfg) \<and>
     (launcher_pc s = L_Done \<longrightarrow> worker_pc s = W_Exit \<and>
        (kl_result s = DOCA_SUCCESS \<longrightarrow> worker_result s = DOCA_SUCCESS))"

lemma data_inv_init: "data_inv cfg (kl_init cfg)"
  by (simp add: data_inv_def kl_init_def pc_defs)

lemma result_inv_init: "result_inv cfg (kl_init cfg)"
  by (simp add: result_inv_def kl_init_def pc_defs)

lemma comp_event_val_next:
  "comp_event_val (w :: u32) = 10 + of_nat (unat w)"
  by (simp add: comp_event_val_def)

lemma data_inv_launcher_step:
  assumes "data_inv cfg s" "launcher_inv cfg s" "result_inv cfg s"
  shows "data_inv cfg (launcher_step cfg e s)"
proof (cases "launcher_pc s")
  case L_Launch
  then have "task_id s = next_ready s" using assms(2) by (simp add: launcher_inv_def pc_defs)
  with L_Launch assms(1) show ?thesis
    by (simp add: launcher_step_def data_inv_def fail_with_def pc_defs nth_append
        comp_event_val_next) (auto simp: less_Suc_eq)
next
  case L_Record
  then have "task_id s = next_ready s" "unat (next_ready s) < unat (m_tasks cfg)"
    using assms(2) by (simp_all add: launcher_inv_def pc_defs)
  with L_Record assms(1) show ?thesis
    by (simp add: launcher_step_def data_inv_def pc_defs nth_list_update comp_event_val_next)
next
  case L_Publish
  then have "unat (next_ready s + 1) = Suc (unat (next_ready s))"
    using assms(2) by (intro unat_Suc_no_wrap [of _ "m_tasks cfg"]) (simp add: launcher_inv_def pc_defs)
  with L_Publish assms(1) show ?thesis
    by (simp add: launcher_step_def data_inv_def Let_def next_task_def pc_defs)
next
  case L_Join
  with assms(1) show ?thesis
    by (auto simp: launcher_step_def data_inv_def pc_defs)
qed (use assms(1,3) in \<open>simp add: launcher_step_def data_inv_def result_inv_def Let_def next_task_def
        fail_with_def release_all_def pc_defs\<close>)+

lemma result_inv_launcher_step:
  assumes "result_inv cfg s" "launcher_inv cfg s" "worker_inv s"
  shows "result_inv cfg (launcher_step cfg e s)"
proof (cases "launcher_pc s")
  case L_Head
  with assms(1,2) show ?thesis
    by (auto simp: launcher_step_def result_inv_def launcher_inv_def pc_defs word_less_nat_alt
        not_less word_unat_eq_iff)
qed (use assms(1) in \<open>auto simp: launcher_step_def result_inv_def Let_def next_task_def
        fail_with_def release_all_def pc_defs\<close>)

lemma data_inv_worker_step: "data_inv cfg s \<Longrightarrow> data_inv cfg (worker_step e s)"
  by (cases "worker_pc s") (simp_all add: data_inv_def worker_step_def split: option.split)

lemma result_inv_worker_step:
  assumes "result_inv cfg s"
  shows "result_inv cfg (worker_step e s)"
  using assms
  by (cases "worker_pc s") (simp_all add: result_inv_def worker_step_def split: option.split)

lemma data_inv_signal: "data_inv cfg s \<Longrightarrow> data_inv cfg (handle_stop_signal s)"
  by (simp add: data_inv_def handle_stop_signal_def)

lemma result_inv_signal: "result_inv cfg s \<Longrightarrow> result_inv cfg (handle_stop_signal s)"
  by (simp add: result_inv_def handle_stop_signal_def)

text \<open>
  The gate: unreleased counts the published tasks of the batch whose wait value has not been
  stored yet; every older task has a threshold below the stored value.
\<close>

definition unreleased :: "kl_state \<Rightarrow> nat" where
  "unreleased s =
     (if launcher_pc s = L_Drain \<or> launcher_pc s = L_FinalDrain \<or> launcher_pc s = L_StopAccepting
      then 0 else unat (gate_in_batch s) + (if launcher_pc s = L_Batch then 1 else 0))"

definition released :: "kl_state \<Rightarrow> nat \<Rightarrow> bool" where
  "released s j \<longleftrightarrow> unat (fst (launches s ! j)) < unat (wait_event_val s)"

definition gate_inv :: "kl_config \<Rightarrow> kl_state \<Rightarrow> bool" where
  "gate_inv cfg s \<longleftrightarrow>
     (if winding_up (launcher_pc s)
      then kl_result s = DOCA_SUCCESS \<and> \<not> g_stop_requested s \<longrightarrow>
        (\<forall>j<unat (next_ready s). released s j)
      else
        (\<forall>j<length (launches s). unat (fst (launches s ! j)) \<le> unat (gate_wait_val s)) \<and>
        (\<forall>j. j + unreleased s < unat (next_ready s) \<longrightarrow> released s j) \<and>
        unat (gate_wait_val s) + 2 * (unat (gate_in_batch s) + (if launcher_pc s = L_Batch then 1 else 0))
          \<le> 4 + 2 * unat (next_ready s) \<and>
        (launcher_pc s = L_Launch \<or> launcher_pc s = L_OpenSingle \<longrightarrow> wait_thresh s = gate_wait_val s) \<and>
        (after_publish (launcher_pc s) \<or> launcher_pc s = L_FinalOpen \<or> launcher_pc s = L_FinalDrain \<longrightarrow>
           gate_batch cfg \<noteq> 0) \<and>
        (launcher_pc s = L_OpenSingle \<longrightarrow> gate_batch cfg = 0) \<and>
        (if gate_batch cfg = 0
         then gate_wait_val s = 4 \<and> gate_in_batch s = 0 \<and>
           (launcher_pc s = L_Record \<or> launcher_pc s = L_Publish \<longrightarrow> wait_event_val s = 5)
         else
           (launcher_pc s = L_Head \<or> in_task (launcher_pc s) \<or> launcher_pc s = L_Batch \<longrightarrow>
              unat (gate_in_batch s) < unat (gate_batch cfg)) \<and>
           (launcher_pc s = L_GateOpen \<longrightarrow> gate_in_batch s \<noteq> 0) \<and>
           (launcher_pc s = L_Drain \<longrightarrow> gate_in_batch s = 0)))"

lemma gate_inv_init: "gate_inv cfg (kl_init cfg)"
  by (simp add: gate_inv_def kl_init_def pc_defs unreleased_def unat_gt_0)

lemma gate_vals:
  assumes "unat (g :: u64) + 2 * k \<le> 4 + 2 * unat (r :: u32)"
  shows "unat (g + 1) = Suc (unat g)" "unat (g + 2) = unat g + 2"
  using assms unat_u32_less [of r] by (simp_all add: unat_word_ariths)

lemma gate_inv_launcher_step:
  assumes "gate_inv cfg s" "launcher_inv cfg s" "data_inv cfg s" "result_inv cfg s"
  shows "gate_inv cfg (launcher_step cfg e s)"
proof (cases "launcher_pc s")
  case L_Launch
  with assms(1,3) show ?thesis
    by (simp add: launcher_step_def gate_inv_def data_inv_def fail_with_def pc_defs unreleased_def
        released_def nth_append) (auto simp: less_Suc_eq)
next
  case L_Publish
  then have n: "unat (next_ready s + 1) = Suc (unat (next_ready s))"
    using assms(2) by (intro unat_Suc_no_wrap [of _ "m_tasks cfg"]) (simp add: launcher_inv_def pc_defs)
  have l: "length (launches s) = Suc (unat (next_ready s))"
    using L_Publish assms(3) by (simp add: data_inv_def pc_defs)
  show ?thesis
  proof (cases "gate_batch cfg = 0")
    case True
    with L_Publish assms(1) n l show ?thesis
      by (simp add: launcher_step_def gate_inv_def Let_def next_task_def pc_defs unreleased_def
          released_def) (auto simp: less_Suc_eq)
  next
    case False
    with L_Publish assms(1) n l show ?thesis
      by (simp add: launcher_step_def gate_inv_def Let_def pc_defs unreleased_def released_def)
  qed
next
  case L_Batch
  then have "gate_batch cfg \<noteq> 0" "unat (gate_in_batch s) < unat (gate_batch cfg)"
    using assms(1) by (simp_all add: gate_inv_def pc_defs split: if_splits)
  then have "unat (gate_in_batch s + 1) = Suc (unat (gate_in_batch s))"
    by (intro unat_Suc_no_wrap)
  moreover from this have "gate_in_batch s + 1 \<noteq> 0" by (metis nat.distinct(1) unat_0)
  ultimately show ?thesis using L_Batch assms(1)
    by (cases "gate_batch cfg = 0")
      (simp_all add: launcher_step_def gate_inv_def Let_def next_task_def pc_defs unreleased_def
        released_def word_le_nat_alt)
next
  case L_GateOpen
  then have w: "unat (gate_wait_val s) + 2 * unat (gate_in_batch s) \<le> 4 + 2 * unat (next_ready s)"
      and nz: "gate_in_batch s \<noteq> 0"
    using assms(1) by (simp_all add: gate_inv_def pc_defs split: if_splits)
  have l: "length (launches s) = unat (next_ready s)"
    using L_GateOpen assms(3) by (simp add: data_inv_def pc_defs)
  have "0 < unat (gate_in_batch s)" using nz by (simp add: unat_gt_0)
  with L_GateOpen assms(1) l gate_vals [OF w] w nz show ?thesis
    by (simp add: launcher_step_def gate_inv_def Let_def next_task_def pc_defs unreleased_def
        released_def fail_with_def release_all_def less_Suc_eq_le) (auto simp: unat_gt_0 le_SucI)
next
  case L_FinalOpen
  then have w: "unat (gate_wait_val s) + 2 * unat (gate_in_batch s) \<le> 4 + 2 * unat (next_ready s)"
    using assms(1) by (simp add: gate_inv_def pc_defs split: if_splits)
  have l: "length (launches s) = unat (next_ready s)"
    using L_FinalOpen assms(3) by (simp add: data_inv_def pc_defs)
  with L_FinalOpen assms(1) gate_vals [OF w] w show ?thesis
    by (simp add: launcher_step_def gate_inv_def Let_def pc_defs unreleased_def
        released_def fail_with_def release_all_def less_Suc_eq_le)
next
  case L_FinalCheck
  with assms(1) show ?thesis
    by (auto simp: launcher_step_def gate_inv_def pc_defs unreleased_def released_def)
next
  case L_OpenSingle
  have l: "length (launches s) = Suc (unat (next_ready s))"
    using L_OpenSingle assms(3) by (simp add: data_inv_def pc_defs)
  have "\<forall>j<length (launches s). unat (fst (launches s ! j)) \<le> 4"
    using assms(1) L_OpenSingle by (auto simp: gate_inv_def pc_defs)
  then have "\<forall>j<unat (next_ready s). unat (fst (launches s ! j)) < 5"
    using l by (fastforce simp: less_Suc_eq)
  with L_OpenSingle assms(1) show ?thesis
    by (auto simp: launcher_step_def gate_inv_def fail_with_def pc_defs unreleased_def released_def)
next
  case L_Head
  with assms(1) show ?thesis
    by (simp add: launcher_step_def gate_inv_def next_task_def
        fail_with_def release_all_def pc_defs unreleased_def released_def)
next
  case L_Slot
  with assms(1) show ?thesis
    by (auto simp: launcher_step_def gate_inv_def next_task_def
        fail_with_def release_all_def pc_defs unreleased_def released_def)
next
  case L_Start
  with assms(1) show ?thesis
    by (simp add: launcher_step_def gate_inv_def next_task_def
        fail_with_def release_all_def pc_defs unreleased_def released_def)
next
  case L_Record
  with assms(1) show ?thesis
    by (simp add: launcher_step_def gate_inv_def next_task_def
        fail_with_def release_all_def pc_defs unreleased_def released_def)
next
  case L_Drain
  with assms(1) show ?thesis
    by (simp add: unat_gt_0 launcher_step_def gate_inv_def Let_def next_task_def
        fail_with_def release_all_def pc_defs unreleased_def released_def)
next
  case L_FinalDrain
  with assms(1) show ?thesis
    by (simp add: launcher_step_def gate_inv_def Let_def next_task_def
        fail_with_def release_all_def pc_defs unreleased_def released_def)
next
  case L_StopAccepting
  with assms(1) show ?thesis
    by (simp add: launcher_step_def gate_inv_def next_task_def
        fail_with_def release_all_def pc_defs unreleased_def released_def)
next
  case L_Cleanup
  with assms(1) show ?thesis
    by (simp add: launcher_step_def gate_inv_def next_task_def
        fail_with_def release_all_def pc_defs unreleased_def released_def)
next
  case L_Join
  with assms(1) show ?thesis
    by (simp add: launcher_step_def gate_inv_def next_task_def
        fail_with_def release_all_def pc_defs unreleased_def released_def)
next
  case L_Done
  with assms(1) show ?thesis
    by (simp add: launcher_step_def gate_inv_def next_task_def
        fail_with_def release_all_def pc_defs unreleased_def released_def)
qed

lemma gate_inv_frame:
  assumes "gate_inv cfg s"
    "launcher_pc s' = launcher_pc s" "kl_result s' = kl_result s" "next_ready s' = next_ready s"
    "launches s' = launches s" "gate_wait_val s' = gate_wait_val s"
    "gate_in_batch s' = gate_in_batch s" "wait_event_val s' = wait_event_val s"
    "wait_thresh s' = wait_thresh s" "g_stop_requested s \<longrightarrow> g_stop_requested s'"
  shows "gate_inv cfg s'"
proof (cases "winding_up (launcher_pc s)")
  case True
  then show ?thesis using assms by (auto simp: gate_inv_def released_def)
next
  case False
  show ?thesis using assms(1)
    unfolding gate_inv_def unreleased_def released_def assms(2-9) if_not_P [OF False] .
qed

lemma worker_step_frame [simp]:
  "launcher_pc (worker_step e s) = launcher_pc s"
  "kl_result (worker_step e s) = kl_result s"
  "next_ready (worker_step e s) = next_ready s"
  "launches (worker_step e s) = launches s"
  "gate_wait_val (worker_step e s) = gate_wait_val s"
  "gate_in_batch (worker_step e s) = gate_in_batch s"
  "wait_event_val (worker_step e s) = wait_event_val s"
  "wait_thresh (worker_step e s) = wait_thresh s"
  "g_stop_requested (worker_step e s) = g_stop_requested s"
  "task_id (worker_step e s) = task_id s"
  by (cases "worker_pc s"; simp add: worker_step_def split: option.split)+

lemma gate_inv_worker_step: "gate_inv cfg s \<Longrightarrow> gate_inv cfg (worker_step e s)"
  by (erule gate_inv_frame) simp_all

lemma gate_inv_signal: "gate_inv cfg s \<Longrightarrow> gate_inv cfg (handle_stop_signal s)"
  by (erule gate_inv_frame) (simp_all add: handle_stop_signal_def)

definition kl_inv :: "kl_config \<Rightarrow> kl_state \<Rightarrow> bool" where
  "kl_inv cfg s \<longleftrightarrow> worker_inv s \<and> launcher_inv cfg s \<and> data_inv cfg s \<and> result_inv cfg s \<and>
     gate_inv cfg s"

lemma kl_inv_init: "kl_inv cfg (kl_init cfg)"
  by (simp add: kl_inv_def worker_inv_init launcher_inv_init data_inv_init result_inv_init gate_inv_init)

lemma kl_inv_launcher: "kl_inv cfg s \<Longrightarrow> kl_inv cfg (launcher_step cfg e s)"
  by (simp add: kl_inv_def worker_inv_launcher_step launcher_inv_launcher_step
      data_inv_launcher_step result_inv_launcher_step gate_inv_launcher_step)

lemma kl_inv_worker: "kl_inv cfg s \<Longrightarrow> kl_inv cfg (worker_step e s)"
  by (simp add: kl_inv_def worker_inv_worker_step launcher_inv_worker_step
      data_inv_worker_step result_inv_worker_step gate_inv_worker_step)

lemma kl_inv_signal: "kl_inv cfg s \<Longrightarrow> kl_inv cfg (handle_stop_signal s)"
  by (simp add: kl_inv_def worker_inv_signal launcher_inv_signal data_inv_signal result_inv_signal
      gate_inv_signal)

lemma kl_reach_inv: "kl_reach cfg s \<Longrightarrow> kl_inv cfg s"
  by (induction rule: kl_reach.induct)
    (simp_all add: kl_inv_init kl_inv_launcher kl_inv_worker kl_inv_signal)

end
