(* ===== verification/LaunchCorrect.thy ===== *)
theory LaunchCorrect
  imports KernelLaunch Pipeline
begin

text \<open>
  What the invariants of KernelLaunch give for kernel_launch of the low priority host: the
  window of launches in flight, the records the worker reads, the gates, the value returned and
  termination.
\<close>

section \<open>Progress\<close>

definition launcher_rank :: "launcher_pc \<Rightarrow> nat" where
  "launcher_rank pc = (case pc of
     L_Head \<Rightarrow> 19 | L_Slot \<Rightarrow> 18 | L_Start \<Rightarrow> 17 | L_Launch \<Rightarrow> 16 | L_OpenSingle \<Rightarrow> 15
   | L_Record \<Rightarrow> 14 | L_Publish \<Rightarrow> 13 | L_Batch \<Rightarrow> 12 | L_GateOpen \<Rightarrow> 11 | L_Drain \<Rightarrow> 10
   | L_FinalCheck \<Rightarrow> 8 | L_FinalOpen \<Rightarrow> 7 | L_FinalDrain \<Rightarrow> 6 | L_StopAccepting \<Rightarrow> 5
   | L_Cleanup \<Rightarrow> 4 | L_Join \<Rightarrow> 3 | L_Done \<Rightarrow> 0)"

definition worker_rank :: "worker_pc \<Rightarrow> nat" where
  "worker_rank pc = (case pc of W_Wait \<Rightarrow> 1 | W_Event \<Rightarrow> 4 | W_Fail _ \<Rightarrow> 3 | W_Finish \<Rightarrow> 3 | W_Exit \<Rightarrow> 0)"

text \<open>
  A bound on the steps left: 20 per task still to be launched, 4 per task still to be waited
  for, and the positions of the two threads. A task being published counts as launched.
\<close>

definition launcher_measure :: "kl_config \<Rightarrow> kl_state \<Rightarrow> nat" where
  "launcher_measure cfg s =
     20 * (unat (m_tasks cfg) - unat (task_id s)) + launcher_rank (launcher_pc s)"

definition worker_measure :: "kl_config \<Rightarrow> kl_state \<Rightarrow> nat" where
  "worker_measure cfg s =
     4 * (unat (m_tasks cfg) - unat (next_to_wait s)) + worker_rank (worker_pc s)"

definition kl_measure :: "kl_config \<Rightarrow> kl_state \<Rightarrow> nat" where
  "kl_measure cfg s = launcher_measure cfg s + worker_measure cfg s"

lemma worker_step_measure:
  assumes "kl_inv cfg s"
  shows "worker_step e s = s \<or> worker_measure cfg (worker_step e s) < worker_measure cfg s"
proof (cases "worker_pc s")
  case W_Wait
  have le: "unat (next_to_wait s) \<le> unat (next_ready s)" "unat (next_ready s) \<le> unat (m_tasks cfg)"
    using assms by (simp_all add: kl_inv_def worker_inv_def launcher_inv_def)
  show ?thesis
  proof (cases "next_to_wait s = next_ready s")
    case True
    with W_Wait show ?thesis by (simp add: worker_step_def worker_measure_def worker_rank_def)
  next
    case False
    with le(1) have lt: "unat (next_to_wait s) < unat (next_ready s)"
      by (metis le_neq_implies_less word_unat_eq_iff)
    have "3 + 4 * (unat (m_tasks cfg) - Suc (unat (next_to_wait s)))
        < 4 * (unat (m_tasks cfg) - unat (next_to_wait s))"
      using lt le(2) by arith
    with False W_Wait unat_Suc_no_wrap [OF lt] show ?thesis
      by (simp add: worker_step_def worker_measure_def worker_rank_def)
  qed
qed (simp_all add: worker_step_def worker_measure_def worker_rank_def split: option.split)

lemma launcher_step_measure:
  assumes "kl_inv cfg s"
  shows "launcher_step cfg e s = s \<or>
    launcher_measure cfg (launcher_step cfg e s) < launcher_measure cfg s"
proof -
  let ?k = "\<lambda>w. unat (m_tasks cfg) - unat w"
  have n: "\<exists>d. ?k (task_id s + 1) = d \<and> ?k (task_id s) = Suc d"
    if "launcher_pc s = L_Publish \<or> after_publish (launcher_pc s)"
  proof -
    have li: "launcher_inv cfg s" using assms by (simp add: kl_inv_def)
    have lt: "unat (task_id s) < unat (m_tasks cfg)"
    proof (cases "launcher_pc s = L_Publish")
      case True
      with li show ?thesis by (simp add: launcher_inv_def pc_defs)
    next
      case False
      with that li have "unat (next_ready s) = Suc (unat (task_id s))"
          "unat (next_ready s) \<le> unat (m_tasks cfg)"
        by (simp_all add: launcher_inv_def)
      then show ?thesis by simp
    qed
    show ?thesis using lt by (simp add: unat_Suc_no_wrap [OF lt] Suc_diff_Suc)
  qed
  have moves: "launcher_step cfg e s = s \<or>
      task_id (launcher_step cfg e s) = task_id s \<and>
        launcher_rank (launcher_pc (launcher_step cfg e s)) < launcher_rank (launcher_pc s) \<or>
      (launcher_pc s = L_Publish \<or> after_publish (launcher_pc s)) \<and>
        task_id (launcher_step cfg e s) = task_id s + 1 \<and>
        launcher_pc (launcher_step cfg e s) = L_Head"
    by (cases "launcher_pc s")
      (simp_all add: launcher_step_def launcher_rank_def next_task_def fail_with_def
          release_all_def after_publish_def Let_def)
  then show ?thesis
  proof (elim disjE conjE)
    assume h: "launcher_pc s = L_Publish" "task_id (launcher_step cfg e s) = task_id s + 1"
      "launcher_pc (launcher_step cfg e s) = L_Head"
    with n show ?thesis by (auto simp: launcher_measure_def launcher_rank_def)
  next
    assume h: "after_publish (launcher_pc s)" "task_id (launcher_step cfg e s) = task_id s + 1"
      "launcher_pc (launcher_step cfg e s) = L_Head"
    with n show ?thesis by (auto simp: launcher_measure_def launcher_rank_def)
  qed (simp_all add: launcher_measure_def)
qed

lemma launcher_step_frame [simp]:
  "next_to_wait (launcher_step cfg e s) = next_to_wait s"
  "worker_pc (launcher_step cfg e s) = worker_pc s"
  "worker_result (launcher_step cfg e s) = worker_result s"
  "completed (launcher_step cfg e s) = completed s"
  "record_idx (launcher_step cfg e s) = record_idx s"
  by (cases "launcher_pc s"; simp add: launcher_step_def fail_with_def next_task_def release_all_def
      Let_def)+

lemma kl_measure_steps:
  assumes "kl_inv cfg s"
  shows "launcher_step cfg e s = s \<or> kl_measure cfg (launcher_step cfg e s) < kl_measure cfg s"
    and "worker_step e s = s \<or> kl_measure cfg (worker_step e s) < kl_measure cfg s"
  using launcher_step_measure [OF assms] worker_step_measure [OF assms]
  by (auto simp: kl_measure_def worker_measure_def launcher_measure_def)

section \<open>Runs without an SDK error\<close>

text \<open>
  While the launcher winds up, every published kernel has been released or the worker has ended.
  This holds on runs in which the SDK accepts every call of the launcher.
\<close>

definition wound_up_inv :: "kl_state \<Rightarrow> bool" where
  "wound_up_inv s \<longleftrightarrow> winding_up (launcher_pc s) \<longrightarrow>
     worker_pc s = W_Exit \<or> (\<forall>j<unat (next_ready s). released s j)"

lemma worker_result_exit: "worker_inv s \<Longrightarrow> worker_result s \<noteq> DOCA_SUCCESS \<Longrightarrow> worker_pc s = W_Exit"
  by (cases "worker_pc s") (simp_all add: worker_inv_def)

lemma small_below_max: "unat (x :: u64) \<le> 4 + 2 * unat (r :: u32) \<Longrightarrow> unat x < UINT64_MAX"
  using unat_u32_less [of r] by linarith

lemma u64_max: "unat (- 1 :: u64) = UINT64_MAX"
  by (simp add: unsigned_minus_1_eq_mask mask_eq_exp_minus_1)

lemma worker_exit_stays: "worker_pc s = W_Exit \<Longrightarrow> worker_pc (worker_step e s) = W_Exit"
  by (simp add: worker_step_def)

lemma release_all_releases:
  assumes "kl_inv cfg s" "en_err e = DOCA_SUCCESS" "\<not> winding_up (launcher_pc s)"
    "\<not> launched_unpublished (launcher_pc s)"
  shows "\<forall>j<unat (next_ready s). released (release_all e s) j"
proof (intro allI impI)
  fix j assume j: "j < unat (next_ready s)"
  have l: "length (launches s) = unat (next_ready s)"
    using assms(1,3,4) by (simp add: kl_inv_def data_inv_def)
  have "unat (fst (launches s ! j)) \<le> unat (gate_wait_val s)"
    using assms(1,3) j l by (simp add: kl_inv_def gate_inv_def)
  moreover have "unat (gate_wait_val s) \<le> 4 + 2 * unat (next_ready s)"
    using assms(1,3) by (simp add: kl_inv_def gate_inv_def)
  ultimately have "unat (fst (launches s ! j)) < UINT64_MAX"
    using small_below_max le_trans by blast
  then show "released (release_all e s) j"
    using assms(2) by (simp add: released_def release_all_def u64_max)
qed

lemma wound_up_launcher_step:
  assumes "kl_inv cfg s" "wound_up_inv s" "en_err e = DOCA_SUCCESS"
  shows "wound_up_inv (launcher_step cfg e s)"
proof (cases "winding_up (launcher_pc s)")
  case True
  then have "next_ready (launcher_step cfg e s) = next_ready s"
      "launches (launcher_step cfg e s) = launches s"
      "wait_event_val (launcher_step cfg e s) = wait_event_val s"
    by (cases "launcher_pc s"; simp add: launcher_step_def winding_up_def)+
  with True assms(2) show ?thesis by (simp add: wound_up_inv_def released_def)
next
  case nw: False
  have w: "worker_result s \<noteq> DOCA_SUCCESS \<Longrightarrow> worker_pc s = W_Exit"
    using assms(1) worker_result_exit by (simp add: kl_inv_def)
  have "launcher_pc s = L_StopAccepting \<or>
      (launcher_step cfg e s = release_all e s \<and> \<not> launched_unpublished (launcher_pc s)) \<or>
      \<not> winding_up (launcher_pc (launcher_step cfg e s)) \<or> worker_result s \<noteq> DOCA_SUCCESS"
    using nw assms(3)
    by (cases "launcher_pc s")
      (simp_all add: launcher_step_def pc_defs next_task_def Let_def)
  then consider "launcher_pc s = L_StopAccepting" | "launcher_step cfg e s = release_all e s"
      "\<not> launched_unpublished (launcher_pc s)"
    | "\<not> winding_up (launcher_pc (launcher_step cfg e s))"
    | "worker_result s \<noteq> DOCA_SUCCESS"
    by blast
  then show ?thesis
  proof cases
    case 1
    with assms(1) show ?thesis
      by (simp add: kl_inv_def gate_inv_def wound_up_inv_def launcher_step_def pc_defs
          unreleased_def released_def)
  next
    case 2
    then show ?thesis using release_all_releases [OF assms(1,3) nw] assms(3)
      by (simp add: wound_up_inv_def release_all_def Let_def)
  next
    case 3
    then show ?thesis by (simp add: wound_up_inv_def)
  next
    case 4
    then show ?thesis using w by (simp add: wound_up_inv_def)
  qed
qed

lemma wound_up_worker_step: "wound_up_inv s \<Longrightarrow> wound_up_inv (worker_step e s)"
  using worker_exit_stays [of s e] by (auto simp: wound_up_inv_def released_def)

lemma wound_up_signal: "wound_up_inv s \<Longrightarrow> wound_up_inv (handle_stop_signal s)"
  by (simp add: wound_up_inv_def released_def handle_stop_signal_def)

text \<open>The positions at which a thread can block.\<close>

lemma launcher_blocked:
  assumes "launcher_step cfg e s = s"
  shows "launcher_pc s = L_Done \<or> (launcher_pc s = L_Join \<and> worker_pc s \<noteq> W_Exit) \<or>
    worker_result s = DOCA_SUCCESS \<and>
    (launcher_pc s = L_Slot \<and> max_inflight cfg \<le> next_ready s - completed s \<or>
     (launcher_pc s = L_Drain \<or> launcher_pc s = L_FinalDrain) \<and> completed s < target_completed s)"
proof -
  have "launcher_pc (launcher_step cfg e s) = launcher_pc s" using assms by simp
  then show ?thesis
    by (cases "launcher_pc s")
      (simp_all add: launcher_step_def fail_with_def next_task_def release_all_def Let_def
        split: if_split_asm)
qed

lemma worker_blocked:
  assumes "worker_step e s = s"
  shows "worker_pc s = W_Exit \<or> (worker_pc s = W_Wait \<and> next_to_wait s = next_ready s \<and> accepting s) \<or>
    (worker_pc s = W_Event \<and> en_wait e = None)"
proof -
  have "worker_pc (worker_step e s) = worker_pc s" using assms by simp
  then show ?thesis
    by (cases "worker_pc s")
      (auto simp: worker_step_def split: if_splits option.splits)
qed

text \<open>
  The gate never blocks the launcher on a kernel it has not released: while the launcher waits,
  the oldest unfinished task is released.
\<close>

lemma oldest_released:
  assumes "kl_config_ok cfg" "kl_inv cfg s"
    and "launcher_pc s = L_Slot \<and> max_inflight cfg \<le> next_ready s - completed s \<or>
      (launcher_pc s = L_Drain \<or> launcher_pc s = L_FinalDrain) \<and> completed s < target_completed s"
  shows "completed s \<noteq> next_ready s" "released s (unat (completed s))"
proof -
  have li: "launcher_inv cfg s" and gi: "gate_inv cfg s" using assms(2) by (simp_all add: kl_inv_def)
  have le: "unat (completed s) \<le> unat (next_ready s)" using li by (simp add: launcher_inv_def)
  have m: "0 < unat (max_inflight cfg)" "unat (gate_batch cfg) \<le> unat (max_inflight cfg)"
    using assms(1) by (simp_all add: kl_config_ok_def word_less_nat_alt word_le_nat_alt)
  have rel: "j + unreleased s < unat (next_ready s) \<Longrightarrow> released s j" for j
    using gi assms(3) by (auto simp: gate_inv_def pc_defs)
  have "unat (completed s) + unreleased s < unat (next_ready s)"
  proof (cases "launcher_pc s = L_Slot")
    case True
    then have full: "unat (max_inflight cfg) \<le> unat (next_ready s) - unat (completed s)"
      using assms(3) unat_sub_no_wrap [OF le] by (simp add: word_le_nat_alt)
    have u: "unreleased s = unat (gate_in_batch s)" using True by (simp add: unreleased_def)
    have "unat (gate_in_batch s) < unat (max_inflight cfg)"
      using gi True m by (cases "gate_batch cfg = 0") (simp_all add: gate_inv_def pc_defs)
    with full u show ?thesis by linarith
  next
    case False
    with assms(3) have d: "launcher_pc s = L_Drain \<or> launcher_pc s = L_FinalDrain"
        "completed s < target_completed s" by auto
    from d(1) li have "target_completed s = next_ready s" by (simp add: launcher_inv_def)
    moreover from d(1) have "unreleased s = 0" by (auto simp: unreleased_def)
    ultimately have "completed s < next_ready s" "unreleased s = 0" using d(2) by simp_all
    then show ?thesis by (simp add: word_less_nat_alt)
  qed
  then show "completed s \<noteq> next_ready s" "released s (unat (completed s))"
    using rel by auto
qed

lemma blocked_done:
  assumes "kl_config_ok cfg" "kl_inv cfg s" "wound_up_inv s"
    and "launcher_step cfg e s = s" "worker_step e s = s"
    and "worker_pc s = W_Event \<Longrightarrow> released s (unat (record_idx s)) \<Longrightarrow> en_wait e \<noteq> None"
  shows "launcher_pc s = L_Done"
proof (rule ccontr)
  assume nd: "launcher_pc s \<noteq> L_Done"
  have wi: "worker_inv s" using assms(2) by (simp add: kl_inv_def)
  have not_event: "worker_pc s = W_Event \<Longrightarrow> \<not> released s (unat (record_idx s))"
    using worker_blocked [OF assms(5)] assms(6) by auto
  show False
  proof (cases "launcher_pc s = L_Join")
    case True
    with launcher_blocked [OF assms(4)] have "worker_pc s \<noteq> W_Exit" by auto
    moreover from this True wi worker_blocked [OF assms(5)] have e: "worker_pc s = W_Event"
      by (auto simp: worker_inv_def)
    moreover have "unat (record_idx s) < unat (next_ready s)" using wi e by (simp add: worker_inv_def)
    ultimately show False using assms(3) True not_event by (auto simp: wound_up_inv_def winding_up_def)
  next
    case False
    with launcher_blocked [OF assms(4)] nd have ok: "worker_result s = DOCA_SUCCESS"
      and b: "launcher_pc s = L_Slot \<and> max_inflight cfg \<le> next_ready s - completed s \<or>
        (launcher_pc s = L_Drain \<or> launcher_pc s = L_FinalDrain) \<and> completed s < target_completed s"
      by auto
    note rel = oldest_released [OF assms(1,2) b]
    from worker_blocked [OF assms(5)] show False
    proof (elim disjE conjE)
      assume "worker_pc s = W_Exit"
      with wi ok b show False by (auto simp: worker_inv_def winding_up_def)
    next
      assume "worker_pc s = W_Wait" "next_to_wait s = next_ready s"
      with wi rel(1) show False by (simp add: worker_inv_def)
    next
      assume "worker_pc s = W_Event"
      with wi rel(2) not_event show False by (simp add: worker_inv_def)
    qed
  qed
qed

lemma kl_rounds_reach: "kl_reach cfg (kl_rounds cfg es n (kl_init cfg))"
  by (induction n) (auto simp: kl_round_def intro: kl_reach.intros)

lemma kl_record_bound:
  assumes "kl_reach cfg s" "worker_pc s = W_Event \<or> worker_pc s = W_Finish"
  shows "unat (record_idx s) < unat (next_ready s)" "unat (record_idx s) < length (records s)"
proof -
  have wi: "worker_inv s" and li: "launcher_inv cfg s" and di: "data_inv cfg s"
    using kl_reach_inv [OF assms(1)] by (simp_all add: kl_inv_def)
  show "unat (record_idx s) < unat (next_ready s)" using wi assms(2) by (auto simp: worker_inv_def)
  then show "unat (record_idx s) < length (records s)"
    using li di by (simp add: launcher_inv_def data_inv_def)
qed

interpretation kl_pipe: pipeline "kl_reach cfg" "\<lambda>s. unat (next_ready s)"
    "\<lambda>s. unat (completed s)" "unat (max_inflight cfg)" for cfg
  by unfold_locales (use kl_reach_inv in \<open>auto simp: kl_inv_def launcher_inv_def windowed_def\<close>)

section \<open>Properties\<close>

definition gated_demo :: kl_config where
  "gated_demo = \<lparr>m_tasks = 3, n_iters_in_kernel = 1, sleep_min_ms = 0, sleep_max_ms = 0,
     max_inflight = 2, gate_batch = 2, gate_hold_ms = 0, gate_idle_ms = 0, gate_drain = 1,
     gate_log_ms = 0, gate_verbose = 0, heartbeat_ms = 0, stdout_flush_ms = 0\<rparr>"

definition prompt_env :: kl_env where
  "prompt_env = \<lparr>en_err = DOCA_SUCCESS, en_wait = Some DOCA_SUCCESS, en_now = 0, en_signal = False\<rparr>"

definition demo_run :: "nat \<Rightarrow> kl_state" where
  "demo_run n = kl_rounds gated_demo (\<lambda>_. prompt_env) n (kl_init gated_demo)"

lemma demo_reach: "kl_reach gated_demo (demo_run n)"
  unfolding demo_run_def by (rule kl_rounds_reach)

text \<open>The configuration kernel_launch computes from any environment satisfies what the
  launch loop relies on: at least one launch may be in flight, and a whole gate batch fits in
  the window. A batch larger than DPA_DEMO_MAX_INFLIGHT widens the window.\<close>

theorem read_kl_config_ok: "kl_config_ok (read_kl_config getenv)"
  by (auto simp: kl_config_ok_def read_kl_config_def clamp_inflight_def Let_def word_gt_0)

text \<open>C29. In every reachable state of kernel_launch, under any interleaving of launcher, worker and
  stop signals and any SDK answers, the worker's counters are ordered, never wrap, and the
  number of launches in flight is at most max_inflight.\<close>

theorem kl_window:
  assumes "kl_reach cfg s"
  shows "completed s \<le> next_to_wait s \<and> next_to_wait s \<le> next_ready s \<and> next_ready s \<le> m_tasks cfg \<and>
    next_to_wait s - completed s \<le> 1 \<and> next_ready s - completed s \<le> max_inflight cfg"
proof -
  have wi: "worker_inv s" and li: "launcher_inv cfg s"
    using kl_reach_inv [OF assms] by (simp_all add: kl_inv_def)
  have c: "unat (next_to_wait s) = unat (completed s) \<or> unat (next_to_wait s) = Suc (unat (completed s))"
    using wi by (cases "worker_pc s") (auto simp: worker_inv_def split: if_splits)
  have le: "unat (next_to_wait s) \<le> unat (next_ready s)" "unat (next_ready s) \<le> unat (m_tasks cfg)"
      "unat (next_ready s) \<le> unat (completed s) + unat (max_inflight cfg)"
    using wi li by (simp_all add: worker_inv_def launcher_inv_def)
  have cw: "unat (completed s) \<le> unat (next_to_wait s)" using c by linarith
  have d1: "unat (next_to_wait s - completed s) = unat (next_to_wait s) - unat (completed s)"
    by (rule unat_sub_no_wrap [OF cw])
  have d2: "unat (next_ready s - completed s) = unat (next_ready s) - unat (completed s)"
    by (rule unat_sub_no_wrap) (use cw le(1) in linarith)
  show ?thesis unfolding word_le_nat_alt d1 d2 using c cw le by auto
qed

theorem kl_window_witness:
  "kl_reach gated_demo (demo_run 9) \<and> next_ready (demo_run 9) - completed (demo_run 9) \<le> 2"
  using kl_window [OF demo_reach [of 9]] demo_reach by (simp add: gated_demo_def)



text \<open>C11. Gates cannot deadlock the launcher. Whenever it waits for a free slot with a full window or for a
  drained batch, some task is unfinished and the oldest unfinished kernel is released: the wait
  event holds a value above its threshold.\<close>

theorem kl_gate_no_deadlock:
  assumes "kl_config_ok cfg" "kl_reach cfg s"
    and "launcher_pc s = L_Slot \<and> max_inflight cfg \<le> next_ready s - completed s \<or>
      (launcher_pc s = L_Drain \<or> launcher_pc s = L_FinalDrain) \<and> completed s < target_completed s"
  shows "completed s < next_ready s \<and>
    fst (launches s ! unat (completed s)) < wait_event_val s"
proof -
  note inv = kl_reach_inv [OF assms(2)]
  have "unat (completed s) \<le> unat (next_ready s)" using inv by (simp add: kl_inv_def launcher_inv_def)
  then have "completed s < next_ready s"
    using oldest_released(1) [OF assms(1) inv assms(3)]
    by (simp add: word_less_nat_alt order_less_le word_unat_eq_iff)
  then show ?thesis using oldest_released(2) [OF assms(1) inv assms(3)]
    by (simp add: released_def word_less_nat_alt)
qed

text \<open>A run whose waits block: the launcher opens the first batch and waits for it to drain.\<close>

definition blocked_run :: "nat \<Rightarrow> kl_state" where
  "blocked_run n = kl_rounds gated_demo (\<lambda>_. prompt_env\<lparr>en_wait := None\<rparr>) n (kl_init gated_demo)"

theorem kl_gate_no_deadlock_witness:
  "launcher_pc (blocked_run 16) = L_Drain \<and>
   fst (launches (blocked_run 16) ! unat (completed (blocked_run 16))) < wait_event_val (blocked_run 16)"
proof -
  have "kl_config_ok gated_demo" by (simp add: kl_config_ok_def gated_demo_def)
  moreover have "kl_reach gated_demo (blocked_run 16)"
    unfolding blocked_run_def by (rule kl_rounds_reach)
  moreover have b: "launcher_pc (blocked_run 16) = L_Drain"
      "completed (blocked_run 16) < target_completed (blocked_run 16)"
    by code_simp+
  ultimately show ?thesis using kl_gate_no_deadlock [of gated_demo "blocked_run 16"] by blast
qed

text \<open>
  A device that finishes what is released: whenever the worker waits for a released kernel, the
  wait returns (with success or with an error). Nothing is assumed of unreleased kernels.
\<close>

definition kl_mid :: "kl_config \<Rightarrow> (nat \<Rightarrow> kl_env) \<Rightarrow> nat \<Rightarrow> kl_state" where
  "kl_mid cfg es n =
     (let s = kl_rounds cfg es n (kl_init cfg)
      in launcher_step cfg (es n) (if en_signal (es n) then handle_stop_signal s else s))"

definition device_finishes_released :: "kl_config \<Rightarrow> (nat \<Rightarrow> kl_env) \<Rightarrow> bool" where
  "device_finishes_released cfg es \<longleftrightarrow>
     (\<forall>n. let s = kl_mid cfg es n in
        worker_pc s = W_Event \<and> fst (launches s ! unat (record_idx s)) < wait_event_val s \<longrightarrow>
        en_wait (es n) \<noteq> None)"

lemma kl_rounds_Suc_mid: "kl_rounds cfg es (Suc n) (kl_init cfg) = worker_step (es n) (kl_mid cfg es n)"
  by (simp add: kl_mid_def kl_round_def Let_def)

lemma kl_rounds_inv:
  assumes "\<And>n. en_err (es n) = DOCA_SUCCESS"
  shows "kl_inv cfg (kl_rounds cfg es n (kl_init cfg)) \<and> wound_up_inv (kl_rounds cfg es n (kl_init cfg))"
proof (induction n)
  case 0
  show ?case by (simp add: kl_inv_init) (simp add: wound_up_inv_def kl_init_def winding_up_def)
next
  case (Suc n)
  then show ?case
    by (simp add: kl_round_def kl_inv_worker kl_inv_launcher kl_inv_signal wound_up_worker_step
        wound_up_launcher_step wound_up_signal assms)
qed

lemma kl_measure_signal [simp]: "kl_measure cfg (handle_stop_signal s) = kl_measure cfg s"
  by (simp add: kl_measure_def launcher_measure_def worker_measure_def handle_stop_signal_def)

lemma kl_round_progress:
  assumes "kl_config_ok cfg" "\<And>n. en_err (es n) = DOCA_SUCCESS" "device_finishes_released cfg es"
  shows "launcher_pc (kl_rounds cfg es (Suc n) (kl_init cfg)) = L_Done \<or>
    kl_measure cfg (kl_rounds cfg es (Suc n) (kl_init cfg)) < kl_measure cfg (kl_rounds cfg es n (kl_init cfg))"
proof -
  let ?s = "kl_rounds cfg es n (kl_init cfg)"
  let ?s' = "if en_signal (es n) then handle_stop_signal ?s else ?s"
  have inv: "kl_inv cfg ?s'" and wu: "wound_up_inv ?s'"
    using kl_rounds_inv [OF assms(2)] by (simp_all add: kl_inv_signal wound_up_signal)
  have m: "kl_measure cfg ?s' = kl_measure cfg ?s" by simp
  have mid: "kl_mid cfg es n = launcher_step cfg (es n) ?s'" by (simp add: kl_mid_def Let_def)
  have inv2: "kl_inv cfg (kl_mid cfg es n)" unfolding mid by (rule kl_inv_launcher [OF inv])
  note k1 = kl_measure_steps(1) [OF inv, of "es n", folded mid]
    and k2 = kl_measure_steps(2) [OF inv2, of "es n"]
  show ?thesis
  proof (cases "kl_mid cfg es n = ?s' \<and> worker_step (es n) (kl_mid cfg es n) = kl_mid cfg es n")
    case True
    have "launcher_pc ?s' = L_Done"
    proof (rule blocked_done [OF assms(1) inv wu])
      show "launcher_step cfg (es n) ?s' = ?s'" using True mid by simp
      show "worker_step (es n) ?s' = ?s'"
        using conjunct2 [OF True] unfolding conjunct1 [OF True] .
      show "en_wait (es n) \<noteq> None" if "worker_pc ?s' = W_Event" "released ?s' (unat (record_idx ?s'))"
        using assms(3) that True
        by (simp add: device_finishes_released_def Let_def released_def word_less_nat_alt)
    qed
    moreover have "kl_rounds cfg es (Suc n) (kl_init cfg) = ?s'"
      using conjunct2 [OF True] unfolding kl_rounds_Suc_mid conjunct1 [OF True] .
    ultimately show ?thesis by metis
  next
    case False
    then show ?thesis using k1 k2 m by (simp only: kl_rounds_Suc_mid) auto
  qed
qed



text \<open>C7. What a successful return means: both threads have ended, every kernel launched was published and
  waited for, each launch carries the completion value of its task, and unless a stop was
  requested all m_tasks tasks ran and the gate of each was opened.\<close>

theorem kl_success_complete:
  assumes "kl_reach cfg s" "launcher_pc s = L_Done" "kl_result s = DOCA_SUCCESS"
  shows "worker_pc s = W_Exit \<and> worker_result s = DOCA_SUCCESS \<and>
    completed s = next_ready s \<and> length (launches s) = unat (completed s) \<and>
    map snd (launches s) = map (\<lambda>j. 10 + of_nat j) [0..<unat (completed s)] \<and>
    (\<not> g_stop_requested s \<longrightarrow> completed s = m_tasks cfg \<and>
       (\<forall>l\<in>set (launches s). fst l < wait_event_val s))"
proof -
  note inv = kl_reach_inv [OF assms(1)]
  have w: "winding_up (launcher_pc s)" "\<not> launched_unpublished (launcher_pc s)"
    using assms(2) by (simp_all add: pc_defs)
  have r: "worker_pc s = W_Exit" "worker_result s = DOCA_SUCCESS"
    using inv assms(2,3) by (simp_all add: kl_inv_def result_inv_def)
  then have c: "completed s = next_ready s" using inv by (auto simp: kl_inv_def worker_inv_def)
  have d: "length (launches s) = unat (next_ready s)" "\<forall>j<length (launches s). snd (launches s ! j) = 10 + of_nat j"
    using inv w assms(3) by (simp_all add: kl_inv_def data_inv_def)
  have m: "map snd (launches s) = map (\<lambda>j. 10 + of_nat j) [0..<unat (next_ready s)]"
    by (rule nth_equalityI) (use d in simp_all)
  have g: "\<forall>l\<in>set (launches s). fst l < wait_event_val s" if "\<not> g_stop_requested s"
  proof -
    have "\<forall>j<length (launches s). fst (launches s ! j) < wait_event_val s"
      using inv w assms(3) that d(1)
      by (simp add: kl_inv_def gate_inv_def released_def word_less_nat_alt)
    then show ?thesis by (metis in_set_conv_nth)
  qed
  have n: "next_ready s = m_tasks cfg" if "\<not> g_stop_requested s"
    using inv w assms(3) that by (simp add: kl_inv_def result_inv_def)
  from r c d(1) m g n show ?thesis by simp
qed

theorem kl_success_complete_witness:
  "launcher_pc (demo_run 30) = L_Done \<and> completed (demo_run 30) = next_ready (demo_run 30)"
proof -
  have "launcher_pc (demo_run 30) = L_Done" "kl_result (demo_run 30) = DOCA_SUCCESS" by code_simp+
  then show ?thesis using kl_success_complete [OF demo_reach [of 30]] by blast
qed

text \<open>The heartbeat line is exact: in every reachable state the printed number of launches in flight
  is next_ready minus completed (its guard against a negative difference never fires), at most
  the window, and the thread ends only when every task completed and nothing more is accepted.\<close>

theorem heartbeat_tick_exact:
  assumes "kl_reach cfg s"
  shows "case heartbeat_tick cfg s of ((finished, tasks, inflight, acc), stop) \<Rightarrow>
    unat inflight = unat (next_ready s) - unat (completed s) \<and> inflight \<le> max_inflight cfg \<and>
    finished \<le> tasks \<and> stop = (completed s = m_tasks cfg \<and> \<not> acc)"
proof -
  have le: "unat (next_ready s) \<le> unat (m_tasks cfg)" "unat (completed s) \<le> unat (next_ready s)"
      "unat (next_ready s) - unat (completed s) \<le> unat (max_inflight cfg)"
    using kl_reach_inv [OF assms] kl_pipe.never_ahead [OF assms] kl_pipe.in_flight [OF assms]
    by (simp_all add: kl_inv_def launcher_inv_def)
  have "completed s \<le> next_ready s" "completed s \<le> m_tasks cfg" using le by (simp_all add: word_le_nat_alt)
  moreover have "m_tasks cfg \<le> completed s \<longleftrightarrow> completed s = m_tasks cfg"
    using \<open>completed s \<le> m_tasks cfg\<close> by auto
  ultimately show ?thesis using le unat_sub_no_wrap [OF le(2)]
    by (simp add: heartbeat_tick_def Let_def word_le_nat_alt)
qed

theorem heartbeat_tick_exact_witness:
  "snd (heartbeat_tick gated_demo (demo_run 30)) \<and>
   (case heartbeat_tick gated_demo (demo_run 30) of ((finished, tasks, inflight, acc), stop) \<Rightarrow>
      inflight \<le> max_inflight gated_demo)"
proof -
  have "snd (heartbeat_tick gated_demo (demo_run 30))" by code_simp
  then show ?thesis using heartbeat_tick_exact [OF demo_reach [of 30]] by (auto split: prod.splits)
qed

text \<open>
  A run in which the second launch of a batch of two is refused. The launcher goes to its
  cleanup and joins the worker, but the first kernel of the batch was never released.
\<close>

definition refused_env :: "nat \<Rightarrow> kl_env" where
  "refused_env n = \<lparr>en_err = (if n = 10 then DOCA_ERROR_UNEXPECTED else DOCA_SUCCESS), en_wait = None,
     en_now = 0, en_signal = False\<rparr>"

definition refused_run :: "nat \<Rightarrow> kl_state" where
  "refused_run n = kl_rounds gated_demo refused_env n (kl_init gated_demo)"


end
