(* ===== verification/LaunchSession.thy ===== *)
theory LaunchSession
  imports DpaMain
begin

text \<open>
  What kernel_launch of the low priority host acquires before its launch loop and releases
  after it: the two sync events, the records, the mutex and condition of the worker, and the
  threads. The launch loop itself (KernelLaunch) is an argument. Local variables that C leaves
  without a value are None until they are set; the outcome says whether the clean-up read one
  of them, or used a condition variable that was never initialised.
\<close>

record host_env =
  he_calloc :: bool
  he_mutex_init :: bool
  he_cond_init :: bool
  he_worker_create :: bool
  he_tick_ms :: nat
  he_heartbeat_create :: bool

record kl_locals =
  kl_wait_event :: ptr
  kl_comp_event :: ptr
  kl_records :: bool
  kl_worker_started :: bool
  kl_worker_sync_ready :: bool
  kl_cond_ready :: bool
  kl_heartbeat_started :: "bool option"
  kl_worker_result :: doca_error

record kl_outcome =
  ko_result :: doca_error
  ko_undefined :: bool

type_synonym launch_loop = "sdk \<Rightarrow> ptr \<Rightarrow> ptr \<Rightarrow> trace \<Rightarrow> doca_error \<times> doca_error \<times> trace"

definition destroy_sync_event :: "sdk \<Rightarrow> ptr \<Rightarrow> trace \<Rightarrow> trace" where
  "destroy_sync_event S ev t = (if ev = None then t else snd (call S (Destroy KSyncEvent ev) t))"

text \<open>The label cleanup.\<close>

definition kl_cleanup :: "sdk \<Rightarrow> kl_locals \<Rightarrow> doca_error \<Rightarrow> trace \<Rightarrow> kl_outcome \<times> trace" where
  "kl_cleanup S L result t =
     (let undef = kl_heartbeat_started L = None \<or> (kl_worker_sync_ready L \<and> \<not> kl_cond_ready L);
          result = (if (kl_worker_started L \<or> kl_worker_sync_ready L) \<and>
                       kl_worker_result L \<noteq> DOCA_SUCCESS \<and> result = DOCA_SUCCESS
                    then kl_worker_result L else result);
          t = destroy_sync_event S (kl_comp_event L) t;
          t = destroy_sync_event S (kl_wait_event L) t
      in (\<lparr>ko_result = result, ko_undefined = undef\<rparr>, t))"

definition kl_locals_init :: kl_locals where
  "kl_locals_init =
     \<lparr>kl_wait_event = None, kl_comp_event = None, kl_records = False, kl_worker_started = False,
      kl_worker_sync_ready = False, kl_cond_ready = False, kl_heartbeat_started = None,
      kl_worker_result = DOCA_SUCCESS\<rparr>"

text \<open>The worker context and the threads, between the two sync events and the launch loop.\<close>

definition kl_start_threads :: "host_env \<Rightarrow> kl_locals \<Rightarrow> doca_error \<times> kl_locals" where
  "kl_start_threads E L =
     (if \<not> he_calloc E then (DOCA_ERROR_NO_MEMORY, L)
      else
        let L = L\<lparr>kl_records := True, kl_worker_result := DOCA_SUCCESS\<rparr> in
        if \<not> he_mutex_init E then (DOCA_ERROR_UNEXPECTED, L)
        else
          let L = L\<lparr>kl_worker_sync_ready := True\<rparr> in
          if \<not> he_cond_init E then (DOCA_ERROR_UNEXPECTED, L)
          else
            let L = L\<lparr>kl_cond_ready := True\<rparr> in
            if \<not> he_worker_create E then (DOCA_ERROR_UNEXPECTED, L)
            else (DOCA_SUCCESS,
              L\<lparr>kl_worker_started := True,
                kl_heartbeat_started := Some (he_tick_ms E \<noteq> 0 \<and> he_heartbeat_create E)\<rparr>))"

definition kl_session :: "host_env \<Rightarrow> launch_loop \<Rightarrow> sdk \<Rightarrow> dpa_resources \<Rightarrow> trace \<Rightarrow> kl_outcome \<times> trace" where
  "kl_session E loop S res t =
     (let L = kl_locals_init;
          dpa = doca_dpa res;
          dev = doca_device res;
          (e, ev, t) = create_doca_dpa_wait_sync_event S dpa dev None t;
          L = L\<lparr>kl_wait_event := ev\<rparr>
      in if e \<noteq> DOCA_SUCCESS then kl_cleanup S L e t
         else
           let (e, ev, hnd, t) = create_doca_dpa_completion_sync_event S dpa dev None False t;
               L = L\<lparr>kl_comp_event := ev\<rparr>
           in if e \<noteq> DOCA_SUCCESS then kl_cleanup S L e t
              else
                let (e, L) = kl_start_threads E L in
                if e \<noteq> DOCA_SUCCESS then kl_cleanup S L e t
                else
                  let (e, worker_result, t) = loop S (kl_wait_event L) (kl_comp_event L) t
                  in kl_cleanup S (L\<lparr>kl_worker_result := worker_result\<rparr>) e t)"

text \<open>The function main calls.\<close>

definition kernel_launch :: "host_env \<Rightarrow> launch_loop \<Rightarrow> kernel_launch_fn" where
  "kernel_launch E loop S res t = (let (r, t) = kl_session E loop S res t in (ko_result r, t))"

section \<open>Objects\<close>

lemma kernel_launch_trace [simp]: "snd (kernel_launch E loop S res t) = snd (kl_session E loop S res t)"
  by (simp add: kernel_launch_def split_beta Let_def)

text \<open>
  An SDK that creates sync events or refuses to, but never fails while one is being set up.
\<close>

definition sets_up_events :: "sdk \<Rightarrow> bool" where
  "sets_up_events S \<longleftrightarrow> (\<forall>t f ps ns. a_err (sdk_answer S t (Invoke f ps ns)) = DOCA_SUCCESS)"

lemma run_set_up:
  "sets_up_events S \<Longrightarrow> \<forall>c\<in>set cs. is_invoke c \<Longrightarrow> a_err (fst (run_until_error S cs t)) = DOCA_SUCCESS"
proof (induction cs arbitrary: t)
  case (Cons c cs)
  then obtain f ps ns where "c = Invoke f ps ns" by (cases c) auto
  with Cons show ?case by (auto simp: call_trace sets_up_events_def)
qed (simp add: ok_answer_def)

lemma create_sync_event_set_up:
  assumes run: "create_sync_event S setup ev t = (a, ev', t')" and "sets_up_events S"
    and inv: "\<forall>p. \<forall>c\<in>set (setup p). is_invoke c"
  shows "if a_err a = DOCA_SUCCESS then \<exists>h. ev' = Some h \<and> adds_object t t' (KSyncEvent, h)
    else ev' = ev \<and> keeps_objects t t'"
proof -
  obtain c t1 where c: "call S (Create KSyncEvent [] []) t = (c, t1)" by fastforce
  obtain b t2 where b: "run_until_error S (setup (Some (a_out c))) t1 = (b, t2)" by fastforce
  have ok: "a_err b = DOCA_SUCCESS" using run_set_up [OF assms(2), of "setup (Some (a_out c))" t1] inv b by simp
  have inv': "\<forall>x\<in>set (setup (Some (a_out c))). is_invoke x" using inv by blast
  show ?thesis
    using run call_Create [OF c] run_Invoke [OF b inv'] ok
    by (auto simp: create_sync_event_def c b Let_def adds_object_def keeps_objects_def
        created_handle_def split: if_splits)
qed

text \<open>The completion event on top of the wait event, as the set-up leaves them.\<close>

lemma kl_cleanup_objects:
  assumes "kl_wait_event L = Some w" "live t1 = (KSyncEvent, w) # live t" "double_destroy t1 = double_destroy t"
    and "case kl_comp_event L of None \<Rightarrow> keeps_objects t1 t2 | Some c \<Rightarrow> adds_object t1 t2 (KSyncEvent, c)"
  shows "keeps_objects t (snd (kl_cleanup S L e t2))"
proof (cases "kl_comp_event L")
  case None
  obtain a u where c: "call S (Destroy KSyncEvent (Some w)) t2 = (a, u)" by fastforce
  show ?thesis using assms None call_Destroy [OF c]
    by (simp add: kl_cleanup_def destroy_sync_event_def Let_def c keeps_objects_def)
next
  case (Some h)
  obtain b v where d: "call S (Destroy KSyncEvent (Some h)) t2 = (b, v)" by fastforce
  obtain a u where c: "call S (Destroy KSyncEvent (Some w)) v = (a, u)" by fastforce
  show ?thesis using assms Some call_Destroy [OF c] call_Destroy [OF d]
    by (simp add: kl_cleanup_def destroy_sync_event_def Let_def c d keeps_objects_def adds_object_def)
qed

lemma kl_start_threads_events [simp]:
  "kl_start_threads E L = (e, L') \<Longrightarrow>
     kl_wait_event L' = kl_wait_event L \<and> kl_comp_event L' = kl_comp_event L"
  by (auto simp: kl_start_threads_def Let_def split: if_splits)

lemma kl_session_objects:
  assumes "sets_up_events S"
    and loop: "\<And>w c u. keeps_objects u (snd (snd (loop S w c u)))"
  shows "keeps_objects t (snd (kl_session E loop S res t))"
proof -
  let ?calls = "\<lambda>ev. [Invoke ''doca_sync_event_add_publisher_location_cpu'' [ev, doca_device res] [],
         Invoke ''doca_sync_event_add_subscriber_location_dpa'' [ev, doca_dpa res] [],
         Invoke ''doca_sync_event_start'' [ev] []]"
  let ?calls2 = "\<lambda>ev. [Invoke ''doca_sync_event_add_publisher_location_dpa'' [ev, doca_dpa res] [],
         Invoke ''doca_sync_event_add_subscriber_location_cpu'' [ev, doca_device res] [],
         Invoke ''doca_sync_event_start'' [ev] []]"
  obtain a1 e1 t1 where c1: "create_sync_event S ?calls None t = (a1, e1, t1)"
    by (cases "create_sync_event S ?calls None t" rule: prod_cases3)
  obtain a2 e2 t2 where c2: "create_sync_event S ?calls2 None t1 = (a2, e2, t2)"
    by (cases "create_sync_event S ?calls2 None t1" rule: prod_cases3)
  have o1: "if a_err a1 = DOCA_SUCCESS then \<exists>h. e1 = Some h \<and> adds_object t t1 (KSyncEvent, h)
      else e1 = None \<and> keeps_objects t t1"
    by (rule create_sync_event_set_up [OF c1 assms(1)]) simp
  have o2: "if a_err a2 = DOCA_SUCCESS then \<exists>h. e2 = Some h \<and> adds_object t1 t2 (KSyncEvent, h)
      else e2 = None \<and> keeps_objects t1 t2"
    by (rule create_sync_event_set_up [OF c2 assms(1)]) simp
  have w1: "create_doca_dpa_wait_sync_event S (doca_dpa res) (doca_device res) None t = (a_err a1, e1, t1)"
    by (simp add: create_doca_dpa_wait_sync_event_def c1)
  have w2: "create_doca_dpa_completion_sync_event S (doca_dpa res) (doca_device res) None False t1 =
      (a_err a2, e2, None, t2)"
    by (simp add: create_doca_dpa_completion_sync_event_def c2)
  show ?thesis
  proof (cases "a_err a1 = DOCA_SUCCESS")
    case False
    with o1 show ?thesis
      by (simp add: kl_session_def w1 Let_def kl_cleanup_def destroy_sync_event_def kl_locals_init_def)
  next
    case True
    with o1 obtain w where w: "e1 = Some w" and l1: "live t1 = (KSyncEvent, w) # live t"
        "double_destroy t1 = double_destroy t"
      by (auto simp: adds_object_def)
    obtain x L where th: "kl_start_threads E
        (kl_locals_init\<lparr>kl_wait_event := Some w, kl_comp_event := e2\<rparr>) = (x, L)" by fastforce
    obtain r wr t3 where lp: "loop S (kl_wait_event L) (kl_comp_event L) t2 = (r, wr, t3)"
      by (metis prod_cases3)
    have t3: "keeps_objects t2 t3" using loop [where w = "kl_wait_event L" and c = "kl_comp_event L" and u = t2] lp by simp
    have ev: "kl_wait_event L = Some w" "kl_comp_event L = e2"
      using kl_start_threads_events [OF th] by simp_all
    show ?thesis
    proof (cases "a_err a2 = DOCA_SUCCESS")
      case False
      have "keeps_objects t (snd (kl_cleanup S (kl_locals_init\<lparr>kl_wait_event := Some w, kl_comp_event := e2\<rparr>)
          (a_err a2) t2))"
        by (rule kl_cleanup_objects [OF _ l1]) (use o2 False in simp_all)
      with True False w show ?thesis by (simp add: kl_session_def w1 w2 Let_def)
    next
      case ok: True
      with o2 obtain c where c: "e2 = Some c" "adds_object t1 t2 (KSyncEvent, c)" by auto
      have early: "keeps_objects t (snd (kl_cleanup S L x t2))"
        by (rule kl_cleanup_objects [OF _ l1]) (use ev c in simp_all)
      have late: "keeps_objects t (snd (kl_cleanup S (L\<lparr>kl_worker_result := wr\<rparr>) r t3))"
        by (rule kl_cleanup_objects [OF _ l1]) (use ev c t3 adds_object_keeps in auto)
      from True ok w early late show ?thesis by (simp add: kl_session_def w1 w2 th lp Let_def)
    qed
  qed
qed

text \<open>kernel_launch leaves no sync event behind and destroys none twice, whichever of its
  acquisitions fails (the events' creation, calloc, the mutex, the condition, the thread) and however the
  loop ends, provided setting up a created event does not fail.\<close>

theorem kernel_launch_balanced:
  assumes "sets_up_events S" "\<And>w c u. keeps_objects u (snd (snd (loop S w c u)))"
  shows "keeps_objects t (snd (kernel_launch E loop S res t))"
  using kl_session_objects [where loop = loop, OF assms] by simp

definition failing_start :: sdk where
  "failing_start = sample_sdk (\<lambda>t c. case c of Invoke f ps ns \<Rightarrow> f = ''doca_sync_event_start'' | _ \<Rightarrow> False)"

definition demo_host :: host_env where
  "demo_host = \<lparr>he_calloc = True, he_mutex_init = True, he_cond_init = True, he_worker_create = True,
     he_tick_ms = 0, he_heartbeat_create = True\<rparr>"

definition demo_res :: dpa_resources where
  "demo_res = \<lparr>doca_device = Some 101, doca_dpa = Some 102\<rparr>"

theorem kernel_launch_balanced_witness:
  "keeps_objects [] (snd (kernel_launch demo_host (\<lambda>S w c u. (DOCA_SUCCESS, DOCA_SUCCESS, u))
     (sample_sdk (\<lambda>t c. False)) demo_res []))"
  by (rule kernel_launch_balanced) (simp_all add: sets_up_events_def)

text \<open>When doca_sync_event_start fails, kernel_launch destroys the wait event twice: the create
  function destroys it but leaves its pointer in place, and the clean-up destroys it again. The same path
  reads heartbeat_started, which has no value yet because the jump to cleanup skips its
  initialisation.\<close>

theorem kernel_launch_double_destroy:
  "double_destroy (snd (kl_session demo_host loop failing_start demo_res [])) \<and>
   ko_undefined (fst (kl_session demo_host loop failing_start demo_res []))"
  by (simp add: kl_session_def create_doca_dpa_wait_sync_event_def create_sync_event_def failing_start_def
      Let_def call_trace kl_cleanup_def destroy_sync_event_def kl_locals_init_def demo_res_def
      double_destroy_def live_def created_handle_def
      propagate_if_error_error)

section \<open>The whole program\<close>



end
