(* ===== verification/Heartbeat.thy ===== *)
theory Heartbeat
  imports LaunchCorrect
begin

text \<open>
  The heartbeat thread of the DPU hosts, heartbeat\_worker, next to the machine of kernel\_launch:
  a list of the states it sees, in each round one at the head of its loop and one after its
  sleep. At the label cleanup kernel\_launch joins this thread.
\<close>

fun heartbeat_worker :: "kl_config \<Rightarrow> (kl_state \<times> kl_state) list \<Rightarrow> (u32 \<times> u32 \<times> u32 \<times> bool) list \<times> bool" where
  "heartbeat_worker cfg [] = ([], False)"
| "heartbeat_worker cfg ((s, s') # ss) =
     (if g_stop_requested s then ([], True)
      else if g_stop_requested s' then ([], True)
      else case heartbeat_tick cfg s' of (line, ends) \<Rightarrow>
        let out = (if heartbeat_ms cfg \<noteq> 0 then [line] else [])
        in if ends then (out, True)
           else (case heartbeat_worker cfg ss of (lines, ended) \<Rightarrow> (out @ lines, ended)))"

lemma heartbeat_stays:
  assumes "\<not> g_stop_requested s" "completed s < m_tasks cfg"
  shows "\<not> snd (heartbeat_worker cfg (replicate n (s, s)))"
  using assms by (induction n) (auto simp: heartbeat_tick_def Let_def split: prod.split)

lemma heartbeat_ends:
  assumes "completed s = m_tasks cfg" "\<not> accepting s"
  shows "snd (heartbeat_worker cfg ((s, s) # ss))"
  using assms by (auto simp: heartbeat_tick_def Let_def split: prod.split)

lemma kl_final:
  "launcher_pc s = L_Done \<Longrightarrow> worker_pc s = W_Exit \<Longrightarrow> launcher_step cfg e s = s \<and> worker_step e s = s"
  by (simp add: launcher_step_def worker_step_def)

definition heartbeat_demo :: kl_config where
  "heartbeat_demo = (read_kl_config (\<lambda>_. None))\<lparr>m_tasks := 3, heartbeat_ms := 100\<rparr>"

definition failing_env :: "nat \<Rightarrow> kl_env" where
  "failing_env n = \<lparr>en_err = DOCA_ERROR_UNEXPECTED, en_wait = None, en_now = 0, en_signal = False\<rparr>"

definition failing_run :: "nat \<Rightarrow> kl_state" where
  "failing_run n = kl_rounds heartbeat_demo failing_env n (kl_init heartbeat_demo)"

section \<open>Properties\<close>

text \<open>A failed launch hangs the host when its heartbeat is on: the launcher and the worker are done with
  an error and will not change the state any more, but the heartbeat thread, which cleanup
  joins, ends only on a stop signal or when all tasks are completed, so however long it runs it
  does not end.\<close>

theorem failed_launch_heartbeat_hangs:
  "kl_reach heartbeat_demo (failing_run 8) \<and> launcher_pc (failing_run 8) = L_Done \<and> kl_result (failing_run 8) = DOCA_ERROR_UNEXPECTED \<and>
   launcher_step heartbeat_demo e (failing_run 8) = failing_run 8 \<and> worker_step e (failing_run 8) = failing_run 8 \<and>
   \<not> snd (heartbeat_worker heartbeat_demo (replicate n (failing_run 8, failing_run 8)))"
proof -
  have pc: "launcher_pc (failing_run 8) = L_Done" "worker_pc (failing_run 8) = W_Exit"
    "kl_result (failing_run 8) = DOCA_ERROR_UNEXPECTED" by code_simp+
  have s: "\<not> g_stop_requested (failing_run 8)" "completed (failing_run 8) < m_tasks heartbeat_demo" by code_simp+
  have "kl_reach heartbeat_demo (failing_run 8)" unfolding failing_run_def by (rule kl_rounds_reach)
  then show ?thesis using kl_final [OF pc(1,2)] heartbeat_stays [OF s] pc by simp
qed

end
