(* ===== verification/HighPriority.thy ===== *)
theory HighPriority
  imports LaunchCorrect
begin

text \<open>
  The high priority DPU host,
  application/dpu/high_priority/dpa_kernel_launch/host/dpa_kernel_launch_sample.c: the launch
  loop without gates, a worker that stores the duration of each task into its record, and the
  summary printed from the records after the worker was joined. The machine is related step by
  step to the one of the low priority host with its gates turned off.
\<close>

section \<open>Configuration\<close>

record hp_config =
  hp_m_tasks :: u32
  hp_n_iters_in_kernel :: u32
  hp_sleep_min_ms :: u32
  hp_sleep_max_ms :: u32
  hp_max_inflight :: u32
  hp_heartbeat_ms :: u32
  hp_stdout_flush_ms :: u32
  hp_print_task_ms :: bool

definition hp_k_m_tasks :: u32 where "hp_k_m_tasks = 20"
definition hp_k_n_iters_in_kernel :: u32 where "hp_k_n_iters_in_kernel = 3000000"

text \<open>The reader of this host tests the variable and parses it in one function.\<close>

definition hp_getenv_u32_or_default :: "env \<Rightarrow> string \<Rightarrow> u32 \<Rightarrow> u32" where
  "hp_getenv_u32_or_default getenv name default_value =
     (case getenv name of
        None \<Rightarrow> default_value
      | Some value \<Rightarrow>
          if value = [] then default_value
          else (let r = strtoul value in
            if st_erange r \<or> st_end r = value \<or> st_end r \<noteq> [] \<or> UINT32_MAX < unat (st_value r)
            then default_value
            else ucast (st_value r)))"

lemma hp_getenv_same: "hp_getenv_u32_or_default = getenv_u32_or_default"
  by (intro ext) (auto simp: hp_getenv_u32_or_default_def getenv_u32_or_default_def
      getenv_u32_checked_def Let_def split: option.split)

definition read_hp_config :: "env \<Rightarrow> hp_config" where
  "read_hp_config getenv =
     (let max_inflight = hp_getenv_u32_or_default getenv ''DPA_DEMO_INFLIGHT'' k_max_inflight_default
      in \<lparr>hp_m_tasks = hp_getenv_u32_or_default getenv ''DPA_DEMO_TASKS'' hp_k_m_tasks,
          hp_n_iters_in_kernel = hp_getenv_u32_or_default getenv ''DPA_DEMO_ITERS'' hp_k_n_iters_in_kernel,
          hp_sleep_min_ms = hp_getenv_u32_or_default getenv ''DPA_DEMO_SLEEP_MIN_MS'' k_sleep_min_ms,
          hp_sleep_max_ms = hp_getenv_u32_or_default getenv ''DPA_DEMO_SLEEP_MAX_MS'' k_sleep_max_ms,
          hp_max_inflight = (if max_inflight = 0 then 1 else max_inflight),
          hp_heartbeat_ms = hp_getenv_u32_or_default getenv ''DPA_DEMO_HEARTBEAT_MS'' 0,
          hp_stdout_flush_ms = hp_getenv_u32_or_default getenv ''DPA_DEMO_STDOUT_FLUSH_MS'' 0,
          hp_print_task_ms = (hp_getenv_u32_or_default getenv ''DPA_DEMO_PRINT_TASK_MS'' 0 \<noteq> 0)\<rparr>)"

section \<open>State and steps\<close>

record hp_record =
  hr_task_id :: u32
  hr_comp_val :: u64
  hr_start_ns :: u64
  hr_duration_ns :: u64

text \<open>
  The output fields: the lines printed for finished tasks, and the durations in the order in
  which they were measured (not in the program; the summary is compared with them).
\<close>

record hp_state =
  h_stop_requested :: bool
  h_records :: "hp_record list"
  h_next_ready :: u32
  h_next_to_wait :: u32
  h_completed :: u32
  h_accepting :: bool
  h_worker_result :: doca_error
  h_launcher_pc :: launcher_pc
  h_task_id :: u32
  h_task_start_ns :: u64
  h_wait_thresh :: u64
  h_result :: doca_error
  h_worker_pc :: worker_pc
  h_record_idx :: u32
  h_wait_event_val :: u64
  h_launches :: "(u64 \<times> u64) list"
  h_total_start_ns :: u64
  h_total_end_ns :: u64
  h_printed :: "(u32 \<times> u64) list"
  h_measured :: "u64 list"

definition hp_init :: "hp_config \<Rightarrow> u64 \<Rightarrow> hp_state" where
  "hp_init cfg total_start_ns =
     \<lparr>h_stop_requested = False,
      h_records = replicate (unat (hp_m_tasks cfg))
        \<lparr>hr_task_id = 0, hr_comp_val = 0, hr_start_ns = 0, hr_duration_ns = 0\<rparr>,
      h_next_ready = 0, h_next_to_wait = 0, h_completed = 0, h_accepting = True,
      h_worker_result = DOCA_SUCCESS, h_launcher_pc = L_Head, h_task_id = 0, h_task_start_ns = 0,
      h_wait_thresh = 0, h_result = DOCA_SUCCESS, h_worker_pc = W_Wait, h_record_idx = 0,
      h_wait_event_val = 0, h_launches = [], h_total_start_ns = total_start_ns, h_total_end_ns = 0,
      h_printed = [], h_measured = []\<rparr>"

definition hp_fail_with :: "doca_error \<Rightarrow> hp_state \<Rightarrow> hp_state" where
  "hp_fail_with e s = s\<lparr>h_result := e, h_launcher_pc := L_Cleanup\<rparr>"

definition hp_launcher_step :: "hp_config \<Rightarrow> kl_env \<Rightarrow> hp_state \<Rightarrow> hp_state" where
  "hp_launcher_step cfg e s = (case h_launcher_pc s of
     L_Head \<Rightarrow>
       if h_task_id s < hp_m_tasks cfg \<and> \<not> h_stop_requested s then s\<lparr>h_launcher_pc := L_Slot\<rparr>
       else s\<lparr>h_launcher_pc := L_FinalCheck\<rparr>
   | L_Slot \<Rightarrow>
       if h_next_ready s - h_completed s \<ge> hp_max_inflight cfg \<and> h_worker_result s = DOCA_SUCCESS \<and>
          \<not> h_stop_requested s
       then s
       else if h_worker_result s \<noteq> DOCA_SUCCESS then hp_fail_with (h_worker_result s) s
       else s\<lparr>h_launcher_pc := L_Start\<rparr>
   | L_Start \<Rightarrow>
       if h_stop_requested s then s\<lparr>h_launcher_pc := L_FinalCheck\<rparr>
       else s\<lparr>h_launcher_pc := L_Launch, h_task_start_ns := en_now e, h_wait_thresh := 4\<rparr>
   | L_Launch \<Rightarrow>
       if en_err e \<noteq> DOCA_SUCCESS then hp_fail_with (en_err e) s
       else s\<lparr>h_launches := h_launches s @ [(h_wait_thresh s, comp_event_val (h_task_id s))],
              h_launcher_pc := L_OpenSingle\<rparr>
   | L_OpenSingle \<Rightarrow>
       if en_err e \<noteq> DOCA_SUCCESS then hp_fail_with (en_err e) s
       else s\<lparr>h_wait_event_val := h_wait_thresh s + 1, h_launcher_pc := L_Record\<rparr>
   | L_Record \<Rightarrow>
       s\<lparr>h_records := (h_records s)[unat (h_task_id s) := (h_records s ! unat (h_task_id s))
           \<lparr>hr_task_id := h_task_id s, hr_comp_val := comp_event_val (h_task_id s),
            hr_start_ns := h_task_start_ns s\<rparr>],
         h_launcher_pc := L_Publish\<rparr>
   | L_Publish \<Rightarrow>
       s\<lparr>h_next_ready := h_next_ready s + 1, h_task_id := h_task_id s + 1, h_launcher_pc := L_Head\<rparr>
   | L_FinalCheck \<Rightarrow> s\<lparr>h_launcher_pc := L_StopAccepting\<rparr>
   | L_StopAccepting \<Rightarrow> s\<lparr>h_accepting := False, h_launcher_pc := L_Cleanup\<rparr>
   | L_Cleanup \<Rightarrow> s\<lparr>h_total_end_ns := en_now e, h_accepting := False, h_launcher_pc := L_Join\<rparr>
   | L_Join \<Rightarrow>
       if h_worker_pc s = W_Exit
       then s\<lparr>h_result := (if h_worker_result s \<noteq> DOCA_SUCCESS \<and> h_result s = DOCA_SUCCESS
                 then h_worker_result s else h_result s), h_launcher_pc := L_Done\<rparr>
       else s
   | _ \<Rightarrow> s)"

text \<open>W_Finish is the code after a successful wait: it measures, stores, prints and counts the task.\<close>

definition hp_worker_step :: "hp_config \<Rightarrow> kl_env \<Rightarrow> hp_state \<Rightarrow> hp_state" where
  "hp_worker_step cfg e s = (case h_worker_pc s of
     W_Wait \<Rightarrow>
       if h_next_to_wait s = h_next_ready s \<and> h_accepting s then s
       else if h_next_to_wait s = h_next_ready s then s\<lparr>h_worker_pc := W_Exit\<rparr>
       else s\<lparr>h_record_idx := h_next_to_wait s, h_next_to_wait := h_next_to_wait s + 1,
              h_worker_pc := W_Event\<rparr>
   | W_Event \<Rightarrow>
       (case en_wait e of
          None \<Rightarrow> s
        | Some wait_res \<Rightarrow>
            if wait_res \<noteq> DOCA_SUCCESS then s\<lparr>h_worker_pc := W_Fail wait_res\<rparr>
            else s\<lparr>h_worker_pc := W_Finish\<rparr>)
   | W_Fail wait_res \<Rightarrow> s\<lparr>h_worker_result := wait_res, h_accepting := False, h_worker_pc := W_Exit\<rparr>
   | W_Finish \<Rightarrow>
       (let i = unat (h_record_idx s);
            rec = h_records s ! i;
            task_duration_ns = en_now e - hr_start_ns rec
        in s\<lparr>h_records := (h_records s)[i := rec\<lparr>hr_duration_ns := task_duration_ns\<rparr>],
             h_measured := h_measured s @ [task_duration_ns],
             h_printed := h_printed s @
               (if hp_print_task_ms cfg then [(hr_task_id rec, task_duration_ns div 1000000)] else []),
             h_completed := h_completed s + 1, h_worker_pc := W_Wait\<rparr>)
   | W_Exit \<Rightarrow> s)"

definition hp_stop_signal :: "hp_state \<Rightarrow> hp_state" where
  "hp_stop_signal s = s\<lparr>h_stop_requested := True\<rparr>"

inductive hp_reach :: "hp_config \<Rightarrow> hp_state \<Rightarrow> bool" for cfg where
  hp_start: "hp_reach cfg (hp_init cfg total_start_ns)"
| hp_launcher: "hp_reach cfg s \<Longrightarrow> hp_reach cfg (hp_launcher_step cfg e s)"
| hp_worker: "hp_reach cfg s \<Longrightarrow> hp_reach cfg (hp_worker_step cfg e s)"
| hp_signal: "hp_reach cfg s \<Longrightarrow> hp_reach cfg (hp_stop_signal s)"

text \<open>The summary printed after the join, from the records (it is skipped when calloc fails).\<close>

definition hp_summary :: "bool \<Rightarrow> hp_config \<Rightarrow> hp_state \<Rightarrow> run_summary option" where
  "hp_summary calloc_ok cfg s =
     print_summary calloc_ok (hp_m_tasks cfg) (h_completed s) (map hr_duration_ns (h_records s))
       (h_total_start_ns s) (h_total_end_ns s)"

section \<open>Simulation by the low priority machine without gates\<close>

definition hp_low_config :: "hp_config \<Rightarrow> kl_config" where
  "hp_low_config cfg =
     \<lparr>m_tasks = hp_m_tasks cfg, n_iters_in_kernel = hp_n_iters_in_kernel cfg,
      sleep_min_ms = hp_sleep_min_ms cfg, sleep_max_ms = hp_sleep_max_ms cfg,
      max_inflight = hp_max_inflight cfg, gate_batch = 0, gate_hold_ms = 0, gate_idle_ms = 0,
      gate_drain = 0, gate_log_ms = 0, gate_verbose = 0, heartbeat_ms = hp_heartbeat_ms cfg,
      stdout_flush_ms = hp_stdout_flush_ms cfg\<rparr>"

definition record_abs :: "hp_record \<Rightarrow> inflight_record" where
  "record_abs r = \<lparr>ir_task_id = hr_task_id r, ir_comp_val = hr_comp_val r, ir_start_ns = hr_start_ns r\<rparr>"

definition hp_abs :: "hp_state \<Rightarrow> kl_state" where
  "hp_abs s =
     \<lparr>g_stop_requested = h_stop_requested s, records = map record_abs (h_records s),
      next_ready = h_next_ready s, next_to_wait = h_next_to_wait s, completed = h_completed s,
      accepting = h_accepting s, worker_result = h_worker_result s, launcher_pc = h_launcher_pc s,
      task_id = h_task_id s, wait_thresh = h_wait_thresh s, task_start_ns = h_task_start_ns s,
      gate_in_batch = 0, gate_wait_val = 4, target_completed = 0, kl_result = h_result s,
      worker_pc = h_worker_pc s, record_idx = h_record_idx s, wait_event_val = h_wait_event_val s,
      launches = h_launches s\<rparr>"

definition hp_pc :: "launcher_pc \<Rightarrow> bool" where
  "hp_pc pc \<longleftrightarrow> pc \<notin> {L_Batch, L_GateOpen, L_Drain, L_FinalOpen, L_FinalDrain}"

lemma hp_pc_step: "hp_pc (h_launcher_pc s) \<Longrightarrow> hp_pc (h_launcher_pc (hp_launcher_step cfg e s))"
  by (cases "h_launcher_pc s") (simp_all add: hp_launcher_step_def hp_fail_with_def hp_pc_def)

lemma hp_worker_frame [simp]:
  "h_launcher_pc (hp_worker_step cfg e s) = h_launcher_pc s"
  "h_total_start_ns (hp_worker_step cfg e s) = h_total_start_ns s"
  by (cases "h_worker_pc s"; simp add: hp_worker_step_def Let_def split: option.split)+

lemma hp_reach_pc: "hp_reach cfg s \<Longrightarrow> hp_pc (h_launcher_pc s)"
  by (induction rule: hp_reach.induct)
    (simp_all add: hp_pc_step, simp_all add: hp_init_def hp_pc_def hp_stop_signal_def)

lemma hp_abs_init: "hp_abs (hp_init cfg t0) = kl_init (hp_low_config cfg)"
  by (simp add: hp_abs_def hp_init_def kl_init_def hp_low_config_def record_abs_def)

lemma hp_abs_launcher:
  assumes "hp_pc (h_launcher_pc s)"
    and "h_launcher_pc s = L_Record \<Longrightarrow> unat (h_task_id s) < length (h_records s)"
  shows "hp_abs (hp_launcher_step cfg e s) = launcher_step (hp_low_config cfg) e (hp_abs s)"
  using assms
  by (cases "h_launcher_pc s")
    (simp_all add: hp_abs_def hp_launcher_step_def launcher_step_def hp_low_config_def hp_fail_with_def
      fail_with_def next_task_def hp_pc_def map_update record_abs_def)

lemma hp_abs_worker:
  assumes "h_worker_pc s = W_Finish \<Longrightarrow> unat (h_record_idx s) < length (h_records s)"
  shows "hp_abs (hp_worker_step cfg e s) = worker_step e (hp_abs s)"
proof (cases "h_worker_pc s")
  case W_Finish
  let ?i = "unat (h_record_idx s)" and ?rs = "h_records s"
  have "(map record_abs ?rs)[?i := record_abs (?rs ! ?i)] = map record_abs ?rs"
    using assms [OF W_Finish] by (metis list_update_id nth_map)
  then have "map record_abs (?rs[?i := (?rs ! ?i)\<lparr>hr_duration_ns := d\<rparr>]) = map record_abs ?rs" for d
    by (simp add: map_update record_abs_def)
  with W_Finish show ?thesis by (simp add: hp_worker_step_def worker_step_def hp_abs_def Let_def)
qed (simp_all add: hp_worker_step_def worker_step_def hp_abs_def split: option.split)

lemma hp_abs_signal: "hp_abs (hp_stop_signal s) = handle_stop_signal (hp_abs s)"
  by (simp add: hp_abs_def hp_stop_signal_def handle_stop_signal_def)

lemma hp_reach_abs: "hp_reach cfg s \<Longrightarrow> kl_reach (hp_low_config cfg) (hp_abs s)"
proof (induction rule: hp_reach.induct)
  case (hp_start total_start_ns)
  then show ?case by (simp add: hp_abs_init kl_reach.kl_start)
next
  case (hp_launcher s e)
  have "unat (h_task_id s) < length (h_records s)" if "h_launcher_pc s = L_Record"
    using kl_reach_inv [OF hp_launcher.IH] that
    by (simp add: kl_inv_def launcher_inv_def data_inv_def pc_defs) (simp add: hp_abs_def hp_low_config_def)
  then show ?case
    using hp_launcher.IH hp_reach_pc [OF hp_launcher.hyps]
    by (simp add: hp_abs_launcher kl_reach.kl_launcher)
next
  case (hp_worker s e)
  have "unat (h_record_idx s) < length (h_records s)" if "h_worker_pc s = W_Finish"
    using kl_record_bound [OF hp_worker.IH] that by (simp add: hp_abs_def)
  then show ?case using hp_worker.IH by (simp add: hp_abs_worker kl_reach.kl_worker)
next
  case (hp_signal s)
  then show ?case by (simp add: hp_abs_signal kl_reach.kl_signal)
qed

interpretation hp_pipe: pipeline "hp_reach cfg" "\<lambda>s. unat (h_next_ready s)"
    "\<lambda>s. unat (h_completed s)" "unat (hp_max_inflight cfg)" for cfg
proof unfold_locales
  fix s assume "hp_reach cfg s"
  from kl_pipe.bounds [OF hp_reach_abs [OF this]]
  show "windowed (unat (hp_max_inflight cfg)) (unat (h_next_ready s)) (unat (h_completed s))"
    by (simp add: hp_abs_def hp_low_config_def)
qed

section \<open>Durations and the summary\<close>

definition duration_inv :: "hp_state \<Rightarrow> bool" where
  "duration_inv s \<longleftrightarrow> length (h_measured s) = unat (h_completed s) \<and>
     unat (h_completed s) \<le> length (h_records s) \<and>
     (\<forall>i<unat (h_completed s). hr_duration_ns (h_records s ! i) = h_measured s ! i)"

lemma nth_update_any: "xs[i := x] ! j = (if i = j \<and> i < length xs then x else xs ! j)"
  by (cases "i < length xs") (auto simp: nth_list_update list_update_beyond)

lemma duration_inv_launcher: "duration_inv s \<Longrightarrow> duration_inv (hp_launcher_step cfg e s)"
  by (cases "h_launcher_pc s")
    (auto simp: duration_inv_def hp_launcher_step_def hp_fail_with_def nth_update_any)

lemma duration_inv_worker:
  assumes "duration_inv s" "hp_reach cfg s"
  shows "duration_inv (hp_worker_step cfg e s)"
proof (cases "h_worker_pc s")
  case W_Finish
  have wi: "worker_inv (hp_abs s)"
    using kl_reach_inv [OF hp_reach_abs [OF assms(2)]] by (simp add: kl_inv_def)
  have b: "unat (h_record_idx s) < length (h_records s)"
    using kl_record_bound(2) [OF hp_reach_abs [OF assms(2)]] W_Finish by (simp add: hp_abs_def)
  have i: "h_record_idx s = h_completed s" and n: "unat (h_next_to_wait s) = Suc (unat (h_completed s))"
    using wi W_Finish by (simp_all add: worker_inv_def hp_abs_def)
  have "unat (h_completed s + 1) = Suc (unat (h_completed s))"
    by (rule unat_Suc_no_wrap [of _ "h_next_to_wait s"]) (simp add: n)
  then show ?thesis using W_Finish assms(1) b i
    by (auto simp: hp_worker_step_def duration_inv_def Let_def nth_append nth_list_update less_Suc_eq)
qed (use assms(1) in \<open>auto simp: hp_worker_step_def duration_inv_def split: option.splits\<close>)

lemma hp_reach_durations: "hp_reach cfg s \<Longrightarrow> duration_inv s"
  by (induction rule: hp_reach.induct)
    (simp_all add: duration_inv_launcher duration_inv_worker,
      simp_all add: duration_inv_def hp_init_def hp_stop_signal_def)

section \<open>Properties\<close>

definition hp_demo :: hp_config where
  "hp_demo = \<lparr>hp_m_tasks = 2, hp_n_iters_in_kernel = 1, hp_sleep_min_ms = 0, hp_sleep_max_ms = 0,
     hp_max_inflight = 1, hp_heartbeat_ms = 0, hp_stdout_flush_ms = 0, hp_print_task_ms = True\<rparr>"

definition hp_env :: "nat \<Rightarrow> kl_env" where
  "hp_env n = \<lparr>en_err = DOCA_SUCCESS, en_wait = Some DOCA_SUCCESS, en_now = of_nat (100 * n),
     en_signal = False\<rparr>"

primrec hp_run :: "nat \<Rightarrow> hp_state" where
  "hp_run 0 = hp_init hp_demo 0"
| "hp_run (Suc n) = hp_worker_step hp_demo (hp_env n) (hp_launcher_step hp_demo (hp_env n) (hp_run n))"

lemma hp_run_reach: "hp_reach hp_demo (hp_run n)"
  by (induction n) (auto intro: hp_reach.intros)

text \<open>C30. The high priority host behaves, step by step, as the low priority host with its gates turned off:
  its reachable states are reachable states of that machine, and each step of launcher, worker and
  signal handler is the step of the same name there.\<close>

theorem hp_refines_low:
  assumes "hp_reach cfg s"
  shows "kl_reach (hp_low_config cfg) (hp_abs s) \<and>
    hp_abs (hp_launcher_step cfg e s) = launcher_step (hp_low_config cfg) e (hp_abs s) \<and>
    hp_abs (hp_worker_step cfg e s) = worker_step e (hp_abs s) \<and>
    hp_abs (hp_stop_signal s) = handle_stop_signal (hp_abs s)"
proof -
  note r = hp_reach_abs [OF assms]
  have "unat (h_task_id s) < length (h_records s)" if "h_launcher_pc s = L_Record"
    using kl_reach_inv [OF r] that
    by (simp add: kl_inv_def launcher_inv_def data_inv_def pc_defs) (simp add: hp_abs_def hp_low_config_def)
  moreover have "unat (h_record_idx s) < length (h_records s)" if "h_worker_pc s = W_Finish"
    using kl_record_bound(2) [OF r] that by (simp add: hp_abs_def)
  ultimately show ?thesis using r hp_reach_pc [OF assms]
    by (simp add: hp_abs_launcher hp_abs_worker hp_abs_signal)
qed

theorem hp_refines_low_witness:
  "kl_reach (hp_low_config hp_demo) (hp_abs (hp_run 7)) \<and> h_launcher_pc (hp_run 7) = L_Head"
  using hp_refines_low [OF hp_run_reach [of 7]] by (rule conjI [OF conjunct1]) code_simp

text \<open>The summary of the high priority host is about exactly the tasks that completed: its count is their
  number, its sum is the sum of their measured durations, and its minimum and maximum are
  those of the measured durations, whatever the interleaving and whether the run was stopped.\<close>

theorem hp_summary_exact:
  assumes "hp_reach cfg s" "hp_summary ok cfg s = Some r"
  shows "unat (su_completed r) = length (h_measured s) \<and> su_total r = hp_m_tasks cfg \<and>
    su_completed r \<le> su_total r \<and> su_sum_ns r = sum_list (h_measured s) \<and>
    su_min_ns r = Min (set (h_measured s)) \<and> su_max_ns r = Max (set (h_measured s))"
proof -
  let ?n = "unat (h_completed s)" and ?ds = "take (unat (h_completed s)) (map hr_duration_ns (h_records s))"
  have di: "duration_inv s" using assms(1) by (rule hp_reach_durations)
  have ds: "?ds = h_measured s"
    by (rule nth_equalityI) (use di in \<open>auto simp: duration_inv_def\<close>)
  have nz: "h_completed s \<noteq> 0" using assms(2) by (auto simp: hp_summary_def print_summary_def split: if_splits)
  have length_measured: "length (h_measured s) = ?n" using di by (simp add: duration_inv_def)
  with nz have len: "length (sort (h_measured s)) = ?n" "0 < ?n" by (simp_all add: unat_gt_0)
  have r: "su_completed r = h_completed s" "su_total r = hp_m_tasks cfg"
      "su_sum_ns r = sum_list (h_measured s)" "su_min_ns r = sort (h_measured s) ! 0"
      "su_max_ns r = sort (h_measured s) ! (?n - 1)"
    using assms(2) ds by (auto simp: hp_summary_def print_summary_def Let_def unat_pred split: if_splits)
  have ends: "sort (h_measured s) ! 0 = Min (set (h_measured s))"
      "sort (h_measured s) ! (?n - 1) = Max (set (h_measured s))"
    using sorted_ends [of "h_measured s", unfolded length_measured] len(2) by simp_all
  have "unat (h_completed s) \<le> unat (hp_m_tasks cfg)"
    using kl_reach_inv [OF hp_reach_abs [OF assms(1)]]
    by (simp add: kl_inv_def launcher_inv_def) (simp add: hp_abs_def hp_low_config_def)
  with r ends di show ?thesis by (simp add: duration_inv_def word_le_nat_alt)
qed

theorem hp_summary_exact_witness:
  "\<exists>r. hp_summary True hp_demo (hp_run 25) = Some r \<and> unat (su_completed r) = 2 \<and>
     su_sum_ns r = sum_list (h_measured (hp_run 25))"
proof -
  obtain r where r: "hp_summary True hp_demo (hp_run 25) = Some r"
  proof -
    have "hp_summary True hp_demo (hp_run 25) \<noteq> None" by code_simp
    then show thesis using that by blast
  qed
  moreover have "length (h_measured (hp_run 25)) = 2" by code_simp
  ultimately show ?thesis using hp_summary_exact [OF hp_run_reach r] by auto
qed

text \<open>A run of one task whose kernel finishes only after the launch loop has ended.\<close>

definition one_task :: hp_config where
  "one_task = hp_demo\<lparr>hp_m_tasks := 1\<rparr>"

definition late_env :: "nat \<Rightarrow> kl_env" where
  "late_env n = \<lparr>en_err = DOCA_SUCCESS, en_wait = (if n < 15 then None else Some DOCA_SUCCESS),
     en_now = of_nat n, en_signal = False\<rparr>"

primrec late_run :: "nat \<Rightarrow> hp_state" where
  "late_run 0 = hp_init one_task 0"
| "late_run (Suc n) = hp_worker_step one_task (late_env n) (hp_launcher_step one_task (late_env n) (late_run n))"

lemma late_run_reach: "hp_reach one_task (late_run n)"
  by (induction n) (auto intro: hp_reach.intros)

text \<open>The total time of the summary ends when the launch loop ends, not when the last task completes: the
  clock is read before the worker is joined. In a run of one slow task the summary counts the
  task but reports a total time below the duration of that task.\<close>

theorem hp_total_time_too_short:
  "hp_reach one_task (late_run 20) \<and> h_launcher_pc (late_run 20) = L_Done \<and>
   h_result (late_run 20) = DOCA_SUCCESS \<and>
   (case hp_summary True one_task (late_run 20) of
      None \<Rightarrow> False
    | Some r \<Rightarrow> su_completed r = 1 \<and> su_elapsed_ns r < su_min_ns r)"
  by (intro conjI late_run_reach) code_simp+

end
