(* ===== verification/HighSession.thy ===== *)
theory HighSession
  imports LaunchSession
begin

text \<open>
  What kernel\_launch of the high priority host acquires and releases around its launch loop. It
  is the session of the low priority host but for the summary, which is printed at the label
  cleanup whenever the records were allocated.
\<close>

record hp_outcome =
  ho_result :: doca_error
  ho_undefined :: bool
  ho_summary :: bool

definition hp_cleanup :: "sdk \<Rightarrow> kl_locals \<Rightarrow> doca_error \<Rightarrow> trace \<Rightarrow> hp_outcome \<times> trace" where
  "hp_cleanup S L result t =
     (let undef = kl_heartbeat_started L = None \<or> (kl_worker_sync_ready L \<and> \<not> kl_cond_ready L);
          result = (if (kl_worker_started L \<or> kl_worker_sync_ready L) \<and>
                       kl_worker_result L \<noteq> DOCA_SUCCESS \<and> result = DOCA_SUCCESS
                    then kl_worker_result L else result);
          summary = kl_records L;
          t = destroy_sync_event S (kl_comp_event L) t;
          t = destroy_sync_event S (kl_wait_event L) t
      in (\<lparr>ho_result = result, ho_undefined = undef, ho_summary = summary\<rparr>, t))"

definition hp_start_threads :: "host_env \<Rightarrow> kl_locals \<Rightarrow> doca_error \<times> kl_locals" where
  "hp_start_threads E L =
     (if \<not> he_calloc E then (DOCA_ERROR_NO_MEMORY, L)
      else
        let L = L\<lparr>kl_records := True, kl_worker_result := DOCA_SUCCESS\<rparr> in
        if \<not> he_mutex_init E then (DOCA_ERROR_UNEXPECTED, L)
        else
          let L = L\<lparr>kl_worker_sync_ready := True\<rparr> in
          if \<not> he_cond_init E then (DOCA_ERROR_UNEXPECTED, L)
          else
            let L = L\<lparr>kl_cond_ready := True\<rparr> in
            if \<not> he_worker_create E then (DOCA_ERROR_UNEXPECTED, L)
            else
              let L = L\<lparr>kl_worker_started := True, kl_heartbeat_started := Some False\<rparr> in
              if he_tick_ms E \<noteq> 0 \<and> he_heartbeat_create E
              then (DOCA_SUCCESS, L\<lparr>kl_heartbeat_started := Some True\<rparr>)
              else (DOCA_SUCCESS, L))"

definition hp_session :: "host_env \<Rightarrow> launch_loop \<Rightarrow> sdk \<Rightarrow> dpa_resources \<Rightarrow> trace \<Rightarrow> hp_outcome \<times> trace" where
  "hp_session E loop S res t =
     (case create_doca_dpa_wait_sync_event S (doca_dpa res) (doca_device res) None t of (e, ev, t) \<Rightarrow>
        let L = kl_locals_init\<lparr>kl_wait_event := ev\<rparr>
        in if e \<noteq> DOCA_SUCCESS then hp_cleanup S L e t
           else case create_doca_dpa_completion_sync_event S (doca_dpa res) (doca_device res) None False t of
               (e, ev, hnd, t) \<Rightarrow>
             let L = L\<lparr>kl_comp_event := ev\<rparr>
             in if e \<noteq> DOCA_SUCCESS then hp_cleanup S L e t
                else case hp_start_threads E L of (e, L) \<Rightarrow>
                  if e \<noteq> DOCA_SUCCESS then hp_cleanup S L e t
                  else case loop S (kl_wait_event L) (kl_comp_event L) t of (e, worker_result, t) \<Rightarrow>
                    hp_cleanup S (L\<lparr>kl_worker_result := worker_result\<rparr>) e t)"

definition hp_kernel_launch :: "host_env \<Rightarrow> launch_loop \<Rightarrow> kernel_launch_fn" where
  "hp_kernel_launch E loop S res t = (let (r, t) = hp_session E loop S res t in (ho_result r, t))"

lemma hp_cleanup_like:
  "snd (hp_cleanup S L r t) = snd (kl_cleanup S L r t)"
  "ho_result (fst (hp_cleanup S L r t)) = ko_result (fst (kl_cleanup S L r t))"
  "ho_undefined (fst (hp_cleanup S L r t)) = ko_undefined (fst (kl_cleanup S L r t))"
  "ho_summary (fst (hp_cleanup S L r t)) = kl_records L"
  by (simp_all add: hp_cleanup_def kl_cleanup_def Let_def)

lemma hp_start_threads_like: "hp_start_threads E L = kl_start_threads E L"
  unfolding hp_start_threads_def kl_start_threads_def Let_def
  by (cases "he_calloc E"; cases "he_mutex_init E"; cases "he_cond_init E"; cases "he_worker_create E";
      cases "he_tick_ms E = 0"; cases "he_heartbeat_create E") simp_all

section \<open>Properties\<close>

text \<open>Both DPU hosts manage their resources alike: around the same launch loop the high priority host
  makes the SDK calls of the low priority one, returns the same result and has the same
  undefined reads, whatever fails.\<close>

theorem hp_session_like_low:
  "snd (hp_session E loop S res t) = snd (kl_session E loop S res t) \<and>
   ho_result (fst (hp_session E loop S res t)) = ko_result (fst (kl_session E loop S res t)) \<and>
   ho_undefined (fst (hp_session E loop S res t)) = ko_undefined (fst (kl_session E loop S res t))"
proof -
  obtain e1 ev1 t1 where 1: "create_doca_dpa_wait_sync_event S (doca_dpa res) (doca_device res) None t = (e1, ev1, t1)"
    by (rule prod_cases3)
  obtain e2 ev2 h2 t2 where 2: "create_doca_dpa_completion_sync_event S (doca_dpa res) (doca_device res) None False t1 =
      (e2, ev2, h2, t2)" by (rule prod_cases4)
  obtain e3 L3 where 3: "kl_start_threads E (kl_locals_init\<lparr>kl_wait_event := ev1, kl_comp_event := ev2\<rparr>) = (e3, L3)"
    by (rule prod.exhaust)
  obtain e4 w4 t4 where 4: "loop S (kl_wait_event L3) (kl_comp_event L3) t2 = (e4, w4, t4)" by (rule prod_cases3)
  show ?thesis
    by (simp add: hp_session_def kl_session_def hp_start_threads_like 1 2 3 4 Let_def hp_cleanup_like)
qed

end
