(* ===== verification/TimeSlice.thy ===== *)
theory TimeSlice
  imports CString LaunchSession DpaHost Pipeline
begin

text \<open>
  The time-slice DPU host, application/dpu_ts/dpa_kernel_launch/host/dpa_kernel_launch_sample.c:
  a launcher that submits short kernels for a given time (drive_for_duration, once to warm up
  and once to measure), optionally only with a token of the scheduler, and a completion worker.
\<close>

section \<open>Configuration\<close>

record ts_config =
  ts_role :: string
  ts_result_path :: string
  ts_warmup_ms :: u32
  ts_runtime_ms :: u32
  ts_iters :: u32
  ts_max_inflight :: u32
  ts_token_mode :: bool

definition k_runtime_ms_default :: u32 where "k_runtime_ms_default = 8000"
definition k_warmup_ms_default :: u32 where "k_warmup_ms_default = 1000"
definition k_iters_default :: u32 where "k_iters_default = 2000"
definition ts_k_max_inflight_default :: u32 where "ts_k_max_inflight_default = 128"

definition ts_getenv_u32_or_default :: "env \<Rightarrow> string \<Rightarrow> u32 \<Rightarrow> u32" where
  "ts_getenv_u32_or_default getenv name default_value =
     (case getenv name of
        None \<Rightarrow> default_value
      | Some value \<Rightarrow>
          if value = [] then default_value
          else (let r = strtoul value in
            if st_erange r \<or> st_end r = value \<or> st_end r \<noteq> [] \<or> UINT32_MAX < unat (st_value r)
            then default_value
            else ucast (st_value r)))"

definition read_ts_config :: "env \<Rightarrow> ts_config" where
  "read_ts_config getenv =
     (let max_inflight = ts_getenv_u32_or_default getenv ''DPA_TS_MAX_INFLIGHT'' ts_k_max_inflight_default
      in \<lparr>ts_role = getenv_str_or_default getenv ''DPA_TS_ROLE'' ''worker'',
          ts_result_path = getenv_str_or_default getenv ''DPA_TS_OUTPUT_PATH'' [],
          ts_warmup_ms = ts_getenv_u32_or_default getenv ''DPA_TS_WARMUP_MS'' k_warmup_ms_default,
          ts_runtime_ms = ts_getenv_u32_or_default getenv ''DPA_TS_RUNTIME_MS'' k_runtime_ms_default,
          ts_iters = ts_getenv_u32_or_default getenv ''DPA_TS_KERNEL_ITERS'' k_iters_default,
          ts_max_inflight = (if max_inflight = 0 then 1 else max_inflight),
          ts_token_mode = (ts_getenv_u32_or_default getenv ''DPA_TS_TOKEN_MODE'' 0 \<noteq> 0)\<rparr>)"

section \<open>The scheduler queue and the result file\<close>

text \<open>
  discover_xqueue_handle polls the scheduler for at most a second. A poll is the clock read
  before it and what XQueueGetByHwQueue answers (None for a failure); the list holds the polls
  the loop could make.
\<close>

fun discover_poll :: "u64 \<Rightarrow> (u64 \<times> u64 option) list \<Rightarrow> u64 option" where
  "discover_poll deadline_ns [] = None"
| "discover_poll deadline_ns ((now, answer) # polls) =
     (if now < deadline_ns then
        (case answer of
           Some discovered \<Rightarrow> if discovered \<noteq> 0 then Some discovered else discover_poll deadline_ns polls
         | None \<Rightarrow> discover_poll deadline_ns polls)
      else None)"

definition discover_xqueue_handle :: "u64 \<Rightarrow> (u64 \<times> u64 option) list \<Rightarrow> u64 option" where
  "discover_xqueue_handle now polls = discover_poll (now + 1000000000) polls"

definition write_result_if_needed ::
  "string \<Rightarrow> string \<Rightarrow> (string \<Rightarrow> bool) \<Rightarrow> (string \<Rightarrow> string option) \<Rightarrow> (string \<Rightarrow> string option)" where
  "write_result_if_needed path line can_open files =
     (if path = [] \<or> \<not> can_open path then files else files(path \<mapsto> line @ [CHR 0x0A]))"

section \<open>State\<close>

datatype ts_phase = Warmup | Measure

datatype drive_pc = D_Head | D_Slot | D_Token | D_Submit

datatype ts_pc =
  T_Warmup | T_Drive ts_phase drive_pc | T_Drain | T_Base | T_Start | T_Enter | T_End | T_Read
  | T_Report | T_Cleanup | T_Join | T_Done

datatype ts_worker_pc = X_Wait | X_Event | X_Fail doca_error | X_Store | X_Exit

record ts_report =
  rp_completed_in_window :: u64
  rp_submitted_in_window :: u64
  rp_elapsed_ns :: u64
  rp_xq_ready :: bool

record ts_state =
  t_stop :: bool
  t_submitted :: u64
  t_completed :: u64
  t_accepting :: bool
  t_worker_result :: doca_error
  t_waited :: u64
  t_worker_pc :: ts_worker_pc
  t_pc :: ts_pc
  t_deadline_ns :: u64
  t_xqueue :: u64
  t_kernel_id :: u64
  t_target :: u64
  t_base_completed :: u64
  t_base_submitted :: u64
  t_measure_completed :: u64
  t_measure_submitted :: u64
  t_measure_start_ns :: u64
  t_measure_end_ns :: u64
  t_result :: doca_error
  t_report :: "ts_report option"
  t_launches :: "u64 list"

definition ts_init :: "u64 \<Rightarrow> ts_state" where
  "ts_init xqueue_handle =
     \<lparr>t_stop = False, t_submitted = 0, t_completed = 0, t_accepting = True,
      t_worker_result = DOCA_SUCCESS, t_waited = 0, t_worker_pc = X_Wait, t_pc = T_Warmup,
      t_deadline_ns = 0, t_xqueue = xqueue_handle, t_kernel_id = 0, t_target = 0,
      t_base_completed = 0, t_base_submitted = 0, t_measure_completed = 0,
      t_measure_submitted = 0, t_measure_start_ns = 0, t_measure_end_ns = 0,
      t_result = DOCA_SUCCESS, t_report = None, t_launches = []\<rparr>"

text \<open>
  One step's environment: the result of the launch, the outcome of the wait (None while it
  blocks), the clock, whether a token is granted, and what asking for the queue answers.
\<close>

record ts_env =
  te_err :: doca_error
  te_wait :: "doca_error option"
  te_now :: u64
  te_token :: bool
  te_queue :: "u64 option"

section \<open>The launcher\<close>

definition ts_fail_with :: "doca_error \<Rightarrow> ts_state \<Rightarrow> ts_state" where
  "ts_fail_with e s = s\<lparr>t_result := e, t_pc := T_Cleanup\<rparr>"

text \<open>drive_for_duration returns DOCA_SUCCESS: the warm-up is drained, the measurement read.\<close>

definition drive_return :: "ts_phase \<Rightarrow> ts_state \<Rightarrow> ts_state" where
  "drive_return ph s = (case ph of
     Warmup \<Rightarrow> s\<lparr>t_target := t_submitted s, t_pc := T_Drain\<rparr>
   | Measure \<Rightarrow> s\<lparr>t_pc := T_End\<rparr>)"

text \<open>The kernel number is taken and counted before the kernel is launched.\<close>

definition reserve :: "ts_phase \<Rightarrow> ts_state \<Rightarrow> ts_state" where
  "reserve ph s = s\<lparr>t_kernel_id := t_submitted s, t_submitted := t_submitted s + 1,
     t_pc := T_Drive ph D_Submit\<rparr>"

definition drive_step :: "ts_config \<Rightarrow> ts_env \<Rightarrow> ts_phase \<Rightarrow> drive_pc \<Rightarrow> ts_state \<Rightarrow> ts_state" where
  "drive_step cfg e ph pc s = (case pc of
     D_Head \<Rightarrow> if t_stop s then drive_return ph s else s\<lparr>t_pc := T_Drive ph D_Slot\<rparr>
   | D_Slot \<Rightarrow>
       if t_submitted s - t_completed s \<ge> ucast (ts_max_inflight cfg) \<and>
          t_worker_result s = DOCA_SUCCESS \<and> \<not> t_stop s
       then s
       else if t_worker_result s \<noteq> DOCA_SUCCESS then ts_fail_with (t_worker_result s) s
       else if te_now e \<ge> t_deadline_ns s then drive_return ph s
       else if ts_token_mode cfg \<and> t_xqueue s \<noteq> 0 then s\<lparr>t_pc := T_Drive ph D_Token\<rparr>
       else reserve ph s
   | D_Token \<Rightarrow>
       if t_stop s \<or> te_now e \<ge> t_deadline_ns s then drive_return ph s
       else if te_token e then reserve ph s
       else s
   | D_Submit \<Rightarrow>
       if te_err e \<noteq> DOCA_SUCCESS then ts_fail_with (te_err e) s
       else
         let s = s\<lparr>t_launches := t_launches s @ [t_kernel_id s], t_pc := T_Drive ph D_Head\<rparr>
         in (if ts_token_mode cfg \<and> t_xqueue s = 0
             then (case te_queue e of Some discovered \<Rightarrow> s\<lparr>t_xqueue := discovered\<rparr> | None \<Rightarrow> s)
             else s))"

definition ms_to_ns :: "u32 \<Rightarrow> u64" where
  "ms_to_ns ms = ucast ms * 1000000"

text \<open>Waiting for the kernels of the warm-up: one look at the counter.\<close>

definition drain_to_target :: "ts_state \<Rightarrow> ts_state" where
  "drain_to_target s =
     (if t_completed s < t_target s \<and> t_worker_result s = DOCA_SUCCESS \<and> \<not> t_stop s then s
      else if t_worker_result s \<noteq> DOCA_SUCCESS then ts_fail_with (t_worker_result s) s
      else s\<lparr>t_pc := T_Base\<rparr>)"

declare drain_to_target_def [simp]

definition ts_launcher_step :: "ts_config \<Rightarrow> ts_env \<Rightarrow> ts_state \<Rightarrow> ts_state" where
  "ts_launcher_step cfg e s = (case t_pc s of
     T_Warmup \<Rightarrow>
       if ts_warmup_ms cfg \<noteq> 0
       then s\<lparr>t_deadline_ns := te_now e + ms_to_ns (ts_warmup_ms cfg), t_pc := T_Drive Warmup D_Head\<rparr>
       else s\<lparr>t_pc := T_Base\<rparr>
   | T_Drive ph pc \<Rightarrow> drive_step cfg e ph pc s
   | T_Drain \<Rightarrow> drain_to_target s
   | T_Base \<Rightarrow>
       s\<lparr>t_base_completed := t_completed s, t_base_submitted := t_submitted s, t_pc := T_Start\<rparr>
   | T_Start \<Rightarrow> s\<lparr>t_measure_start_ns := te_now e, t_pc := T_Enter\<rparr>
   | T_Enter \<Rightarrow>
       s\<lparr>t_deadline_ns := te_now e + ms_to_ns (ts_runtime_ms cfg), t_pc := T_Drive Measure D_Head\<rparr>
   | T_End \<Rightarrow> s\<lparr>t_measure_end_ns := te_now e, t_pc := T_Read\<rparr>
   | T_Read \<Rightarrow>
       s\<lparr>t_measure_completed := t_completed s, t_measure_submitted := t_submitted s,
         t_pc := T_Report\<rparr>
   | T_Report \<Rightarrow>
       s\<lparr>t_report := Some \<lparr>rp_completed_in_window = t_measure_completed s - t_base_completed s,
           rp_submitted_in_window = t_measure_submitted s - t_base_submitted s,
           rp_elapsed_ns = t_measure_end_ns s - t_measure_start_ns s,
           rp_xq_ready = (t_xqueue s \<noteq> 0)\<rparr>,
         t_pc := T_Cleanup\<rparr>
   | T_Cleanup \<Rightarrow> s\<lparr>t_accepting := False, t_pc := T_Join\<rparr>
   | T_Join \<Rightarrow> if t_worker_pc s = X_Exit then s\<lparr>t_pc := T_Done\<rparr> else s
   | T_Done \<Rightarrow> s)"

section \<open>The completion worker\<close>

text \<open>The launcher keeps the mutex while it waits for a token.\<close>

definition mutex_held :: "ts_state \<Rightarrow> bool" where
  "mutex_held s \<longleftrightarrow> (case t_pc s of T_Drive ph D_Token \<Rightarrow> True | _ \<Rightarrow> False)"

definition ts_worker_step :: "ts_env \<Rightarrow> ts_state \<Rightarrow> ts_state" where
  "ts_worker_step e s = (case t_worker_pc s of
     X_Wait \<Rightarrow>
       if mutex_held s \<or> (t_waited s \<ge> t_submitted s \<and> t_accepting s) then s
       else if t_waited s \<ge> t_submitted s then s\<lparr>t_worker_pc := X_Exit\<rparr>
       else s\<lparr>t_worker_pc := X_Event\<rparr>
   | X_Event \<Rightarrow>
       (case te_wait e of
          None \<Rightarrow> s
        | Some wait_res \<Rightarrow>
            if wait_res \<noteq> DOCA_SUCCESS then s\<lparr>t_worker_pc := X_Fail wait_res\<rparr>
            else s\<lparr>t_waited := t_waited s + 1, t_worker_pc := X_Store\<rparr>)
   | X_Fail wait_res \<Rightarrow>
       if mutex_held s then s
       else s\<lparr>t_worker_result := wait_res, t_accepting := False, t_worker_pc := X_Exit\<rparr>
   | X_Store \<Rightarrow>
       if mutex_held s then s else s\<lparr>t_completed := t_waited s, t_worker_pc := X_Wait\<rparr>
   | X_Exit \<Rightarrow> s)"

definition ts_stop_signal :: "ts_state \<Rightarrow> ts_state" where
  "ts_stop_signal s = s\<lparr>t_stop := True\<rparr>"

inductive ts_reach :: "ts_config \<Rightarrow> ts_state \<Rightarrow> bool" for cfg where
  ts_start: "ts_reach cfg (ts_init xqueue_handle)"
| ts_launcher: "ts_reach cfg s \<Longrightarrow> ts_reach cfg (ts_launcher_step cfg e s)"
| ts_worker: "ts_reach cfg s \<Longrightarrow> ts_reach cfg (ts_worker_step e s)"
| ts_signal: "ts_reach cfg s \<Longrightarrow> ts_reach cfg (ts_stop_signal s)"

section \<open>Invariants\<close>

text \<open>
  The counters are 64 bit and the program never stops by itself at a number of kernels, so the
  invariants are about runs of fewer than 2^64 - 1 launches.
\<close>

definition ts_small :: "ts_state \<Rightarrow> bool" where
  "ts_small s \<longleftrightarrow> length (t_launches s) < UINT64_MAX"

definition ts_winding :: "ts_pc \<Rightarrow> bool" where
  "ts_winding pc \<longleftrightarrow> pc = T_Cleanup \<or> pc = T_Join \<or> pc = T_Done"

definition count_inv :: "ts_state \<Rightarrow> bool" where
  "count_inv s \<longleftrightarrow>
     t_launches s = map of_nat [0..<length (t_launches s)] \<and>
     (if \<exists>ph. t_pc s = T_Drive ph D_Submit
      then unat (t_submitted s) = Suc (length (t_launches s)) \<and>
        t_kernel_id s = of_nat (length (t_launches s))
      else unat (t_submitted s) = length (t_launches s) \<or>
        (ts_winding (t_pc s) \<and> t_result s \<noteq> DOCA_SUCCESS \<and>
         unat (t_submitted s) = Suc (length (t_launches s)))) \<and>
     (\<not> ts_winding (t_pc s) \<longrightarrow> t_result s = DOCA_SUCCESS)"

definition ts_worker_inv :: "ts_state \<Rightarrow> bool" where
  "ts_worker_inv s \<longleftrightarrow>
     unat (t_waited s) \<le> unat (t_submitted s) \<and>
     (case t_worker_pc s of
        X_Wait \<Rightarrow> t_completed s = t_waited s \<and> t_worker_result s = DOCA_SUCCESS
      | X_Event \<Rightarrow> t_completed s = t_waited s \<and> unat (t_waited s) < unat (t_submitted s) \<and>
          t_worker_result s = DOCA_SUCCESS
      | X_Fail e \<Rightarrow> t_completed s = t_waited s \<and> unat (t_waited s) < unat (t_submitted s) \<and>
          t_worker_result s = DOCA_SUCCESS \<and> e \<noteq> DOCA_SUCCESS
      | X_Store \<Rightarrow> unat (t_waited s) = Suc (unat (t_completed s)) \<and> t_worker_result s = DOCA_SUCCESS
      | X_Exit \<Rightarrow> \<not> t_accepting s \<and> t_completed s = t_waited s \<and>
          (t_worker_result s = DOCA_SUCCESS \<longrightarrow> t_waited s = t_submitted s)) \<and>
     (\<not> t_accepting s \<longrightarrow> t_worker_result s \<noteq> DOCA_SUCCESS \<or> t_pc s = T_Join \<or> t_pc s = T_Done) \<and>
     (t_pc s = T_Join \<or> t_pc s = T_Done \<longrightarrow> \<not> t_accepting s) \<and>
     (t_pc s = T_Done \<longrightarrow> t_worker_pc s = X_Exit)"

definition window_inv :: "ts_config \<Rightarrow> ts_state \<Rightarrow> bool" where
  "window_inv cfg s \<longleftrightarrow>
     unat (t_completed s) \<le> unat (t_submitted s) \<and>
     unat (t_submitted s) \<le> unat (t_completed s) + unat (ts_max_inflight cfg) + (if t_stop s then 1 else 0) \<and>
     (\<forall>ph. t_pc s = T_Drive ph D_Slot \<or> t_pc s = T_Drive ph D_Token \<longrightarrow>
        unat (t_submitted s) \<le> unat (t_completed s) + unat (ts_max_inflight cfg)) \<and>
     (\<forall>ph. t_pc s = T_Drive ph D_Token \<and> \<not> t_stop s \<longrightarrow>
        unat (t_submitted s) < unat (t_completed s) + unat (ts_max_inflight cfg))"

lemma inflight_nat:
  assumes "unat c \<le> unat (s :: u64)"
  shows "ucast (m :: u32) \<le> s - c \<longleftrightarrow> unat c + unat m \<le> unat s"
  using unat_sub_no_wrap [OF assms] assms by (auto simp: word_le_nat_alt)

lemma small_Suc:
  "unat (w :: u64) < UINT64_MAX \<Longrightarrow> unat (w + 1) = Suc (unat w)"
  by (simp add: unat_word_ariths)

lemma submitted_small:
  "count_inv s \<Longrightarrow> ts_small s \<Longrightarrow> \<not> (\<exists>ph. t_pc s = T_Drive ph D_Submit) \<Longrightarrow> \<not> ts_winding (t_pc s) \<Longrightarrow>
     unat (t_submitted s) < UINT64_MAX"
  by (auto simp: count_inv_def ts_small_def)

lemma drive_helpers_frame [simp]:
  "t_completed (drive_return ph s) = t_completed s" "t_waited (drive_return ph s) = t_waited s"
  "t_worker_pc (drive_return ph s) = t_worker_pc s" "t_stop (drive_return ph s) = t_stop s"
  "t_worker_result (drive_return ph s) = t_worker_result s"
  "t_submitted (drive_return ph s) = t_submitted s" "t_accepting (drive_return ph s) = t_accepting s"
  "t_launches (drive_return ph s) = t_launches s"
  "t_completed (reserve ph s) = t_completed s" "t_waited (reserve ph s) = t_waited s"
  "t_worker_pc (reserve ph s) = t_worker_pc s" "t_stop (reserve ph s) = t_stop s"
  "t_worker_result (reserve ph s) = t_worker_result s"
  "t_submitted (reserve ph s) = t_submitted s + 1" "t_accepting (reserve ph s) = t_accepting s"
  "t_launches (reserve ph s) = t_launches s"
  "t_completed (ts_fail_with e s) = t_completed s" "t_waited (ts_fail_with e s) = t_waited s"
  "t_worker_pc (ts_fail_with e s) = t_worker_pc s" "t_stop (ts_fail_with e s) = t_stop s"
  "t_worker_result (ts_fail_with e s) = t_worker_result s"
  "t_submitted (ts_fail_with e s) = t_submitted s" "t_accepting (ts_fail_with e s) = t_accepting s"
  "t_launches (ts_fail_with e s) = t_launches s"
  by (cases ph; simp add: drive_return_def reserve_def ts_fail_with_def)+

lemma drive_step_frame [simp]:
  "t_completed (drive_step cfg e ph pc s) = t_completed s"
  "t_waited (drive_step cfg e ph pc s) = t_waited s"
  "t_worker_pc (drive_step cfg e ph pc s) = t_worker_pc s"
  "t_worker_result (drive_step cfg e ph pc s) = t_worker_result s"
  "t_stop (drive_step cfg e ph pc s) = t_stop s"
  "t_accepting (drive_step cfg e ph pc s) = t_accepting s"
  by (cases pc; simp add: drive_step_def Let_def split: option.split)+

lemma drive_step_launches: "length (t_launches s) \<le> length (t_launches (drive_step cfg e ph pc s))"
  by (cases pc) (simp_all add: drive_step_def Let_def split: option.split)

lemma drive_step_submitted:
  "t_submitted (drive_step cfg e ph pc s) = t_submitted s \<or>
     (t_submitted (drive_step cfg e ph pc s) = t_submitted s + 1 \<and> pc \<noteq> D_Submit)"
  by (cases pc) (simp_all add: drive_step_def Let_def split: option.split)

lemma drive_step_pc:
  "t_pc s = T_Drive ph pc \<Longrightarrow> t_pc (drive_step cfg e ph pc s) \<noteq> T_Join \<and> t_pc (drive_step cfg e ph pc s) \<noteq> T_Done"
  by (cases pc; cases ph)
    (simp_all add: drive_step_def Let_def drive_return_def reserve_def ts_fail_with_def split: option.split)

lemma launches_grow:
  "length (t_launches s) \<le> length (t_launches (ts_launcher_step cfg e s))"
  by (cases "t_pc s") (simp_all add: ts_launcher_step_def drive_step_launches)

lemma ts_worker_frame [simp]:
  "t_launches (ts_worker_step e s) = t_launches s"
  "t_pc (ts_worker_step e s) = t_pc s"
  "t_submitted (ts_worker_step e s) = t_submitted s"
  "t_result (ts_worker_step e s) = t_result s"
  "t_kernel_id (ts_worker_step e s) = t_kernel_id s"
  "t_stop (ts_worker_step e s) = t_stop s"
  "t_report (ts_worker_step e s) = t_report s"
  "t_base_completed (ts_worker_step e s) = t_base_completed s"
  "t_base_submitted (ts_worker_step e s) = t_base_submitted s"
  "t_measure_completed (ts_worker_step e s) = t_measure_completed s"
  "t_measure_submitted (ts_worker_step e s) = t_measure_submitted s"
  "t_target (ts_worker_step e s) = t_target s"
  by (cases "t_worker_pc s"; simp add: ts_worker_step_def split: option.split)+

lemma ts_launcher_frame [simp]:
  "t_completed (ts_launcher_step cfg e s) = t_completed s"
  "t_waited (ts_launcher_step cfg e s) = t_waited s"
  "t_worker_pc (ts_launcher_step cfg e s) = t_worker_pc s"
  "t_worker_result (ts_launcher_step cfg e s) = t_worker_result s"
  "t_stop (ts_launcher_step cfg e s) = t_stop s"
  by (cases "t_pc s"; simp add: ts_launcher_step_def)+

lemma count_inv_worker: "count_inv s \<Longrightarrow> count_inv (ts_worker_step e s)"
  by (simp add: count_inv_def)

lemma count_inv_reserve:
  assumes "count_inv s" "ts_small s" "\<not> (\<exists>ph. t_pc s = T_Drive ph D_Submit)" "\<not> ts_winding (t_pc s)"
  shows "count_inv (reserve ph s)"
proof -
  have u: "unat (t_submitted s) = length (t_launches s)" using assms(1,3,4) by (auto simp: count_inv_def)
  have "of_nat (unat (t_submitted s)) = t_submitted s" by simp
  then have k: "t_submitted s = of_nat (length (t_launches s))" using u by simp
  have "unat (t_submitted s + 1) = Suc (length (t_launches s))"
    using small_Suc [OF submitted_small [OF assms]] u by simp
  with k assms(1,4) show ?thesis by (simp add: count_inv_def reserve_def ts_winding_def)
qed

lemma count_inv_return:
  "count_inv s \<Longrightarrow> \<not> (\<exists>ph. t_pc s = T_Drive ph D_Submit) \<Longrightarrow> \<not> ts_winding (t_pc s) \<Longrightarrow>
     count_inv (drive_return ph s)"
  by (cases ph) (simp_all add: count_inv_def drive_return_def ts_winding_def)

lemma count_inv_fail:
  "count_inv s \<Longrightarrow> e \<noteq> DOCA_SUCCESS \<Longrightarrow> count_inv (ts_fail_with e s)"
  by (auto simp: count_inv_def ts_fail_with_def ts_winding_def split: if_splits)

lemma count_inv_pc:
  "count_inv s \<Longrightarrow> \<not> (\<exists>ph. t_pc s = T_Drive ph D_Submit) \<Longrightarrow> \<not> ts_winding (t_pc s) \<Longrightarrow>
     \<not> (\<exists>ph. pc = T_Drive ph D_Submit) \<Longrightarrow> count_inv (s\<lparr>t_pc := pc\<rparr>)"
  by (auto simp: count_inv_def ts_winding_def)

lemma count_inv_launcher:
  assumes "count_inv s" "ts_small s"
  shows "count_inv (ts_launcher_step cfg e s)"
proof (cases "t_pc s")
  case (T_Drive ph pc)
  show ?thesis
  proof (cases "pc = D_Submit")
    case True
    with T_Drive assms(1) show ?thesis
      by (auto simp: ts_launcher_step_def drive_step_def count_inv_def ts_fail_with_def Let_def ts_winding_def
          split: option.split)
  next
    case False
    with T_Drive have n: "\<not> (\<exists>ph. t_pc s = T_Drive ph D_Submit)" "\<not> ts_winding (t_pc s)"
      by (simp_all add: ts_winding_def)
    note r = count_inv_reserve [OF assms n] count_inv_return [OF assms(1) n]
      count_inv_fail [OF assms(1)] count_inv_pc [OF assms(1) n]
    show ?thesis using T_Drive False assms(1) r
      by (cases pc) (simp_all add: ts_launcher_step_def drive_step_def)
  qed
qed (use assms(1) in \<open>auto simp: ts_launcher_step_def count_inv_def ts_fail_with_def ts_winding_def\<close>)

lemma launcher_keeps_submitted:
  "t_submitted (ts_launcher_step cfg e s) = t_submitted s \<or>
     (t_submitted (ts_launcher_step cfg e s) = t_submitted s + 1 \<and>
      \<not> (\<exists>ph. t_pc s = T_Drive ph D_Submit) \<and> \<not> ts_winding (t_pc s))"
proof (cases "t_pc s")
  case (T_Drive ph pc)
  then show ?thesis using drive_step_submitted [of cfg e ph pc s]
    by (auto simp: ts_launcher_step_def ts_winding_def)
qed (simp_all add: ts_launcher_step_def)

lemma launcher_moves_all:
  "t_accepting (ts_launcher_step cfg e s) = (if t_pc s = T_Cleanup then False else t_accepting s) \<and>
   (t_pc (ts_launcher_step cfg e s) = T_Join \<longrightarrow> t_pc s = T_Cleanup \<or> t_pc s = T_Join) \<and>
   (t_pc (ts_launcher_step cfg e s) = T_Done \<longrightarrow> t_pc s = T_Done \<or> t_worker_pc s = X_Exit \<and> t_pc s = T_Join) \<and>
   (t_pc s = T_Join \<or> t_pc s = T_Done \<longrightarrow>
      t_pc (ts_launcher_step cfg e s) = T_Join \<or> t_pc (ts_launcher_step cfg e s) = T_Done) \<and>
   (t_pc s = T_Cleanup \<longrightarrow> t_pc (ts_launcher_step cfg e s) = T_Join)"
proof (cases "t_pc s")
  case (T_Drive ph pc)
  then show ?thesis using drive_step_pc [OF T_Drive, of cfg e] by (simp add: ts_launcher_step_def)
qed (simp_all add: ts_launcher_step_def ts_fail_with_def)

lemma launcher_moves:
  "t_accepting (ts_launcher_step cfg e s) = (if t_pc s = T_Cleanup then False else t_accepting s)"
  "t_pc (ts_launcher_step cfg e s) = T_Join \<Longrightarrow> t_pc s = T_Cleanup \<or> t_pc s = T_Join"
  "t_pc (ts_launcher_step cfg e s) = T_Done \<Longrightarrow> t_pc s = T_Done \<or> t_worker_pc s = X_Exit \<and> t_pc s = T_Join"
  "t_pc s = T_Join \<or> t_pc s = T_Done \<Longrightarrow>
     t_pc (ts_launcher_step cfg e s) = T_Join \<or> t_pc (ts_launcher_step cfg e s) = T_Done"
  "t_pc s = T_Cleanup \<Longrightarrow> t_pc (ts_launcher_step cfg e s) = T_Join"
  using launcher_moves_all [of cfg e s] by blast+

lemma ts_worker_inv_launcher:
  assumes "ts_worker_inv s" "count_inv s" "ts_small s"
  shows "ts_worker_inv (ts_launcher_step cfg e s)"
proof -
  have grow: "t_submitted (ts_launcher_step cfg e s) = t_submitted s \<or>
      unat (t_submitted (ts_launcher_step cfg e s)) = Suc (unat (t_submitted s)) \<and> \<not> ts_winding (t_pc s)"
    using launcher_keeps_submitted [of cfg e s] small_Suc submitted_small [OF assms(2,3)] by auto
  have le: "unat (t_submitted s) \<le> unat (t_submitted (ts_launcher_step cfg e s))"
    using grow by auto
  have ex: "t_worker_pc s = X_Exit \<Longrightarrow> t_worker_result s = DOCA_SUCCESS \<Longrightarrow>
      t_submitted (ts_launcher_step cfg e s) = t_submitted s"
    using assms(1) grow by (auto simp: ts_worker_inv_def ts_winding_def)
  let ?s = "ts_launcher_step cfg e s"
  note mv = launcher_moves [where cfg = cfg and e = e and s = s]
  have old: "unat (t_waited s) \<le> unat (t_submitted s)"
      "\<not> t_accepting s \<longrightarrow> t_worker_result s \<noteq> DOCA_SUCCESS \<or> t_pc s = T_Join \<or> t_pc s = T_Done"
      "t_pc s = T_Join \<or> t_pc s = T_Done \<longrightarrow> \<not> t_accepting s"
      "t_pc s = T_Done \<longrightarrow> t_worker_pc s = X_Exit"
    using assms(1) by (simp_all add: ts_worker_inv_def)
  have 1: "unat (t_waited s) \<le> unat (t_submitted ?s)" using old(1) le by linarith
  have 2: "\<not> t_accepting ?s \<longrightarrow> t_worker_result s \<noteq> DOCA_SUCCESS \<or> t_pc ?s = T_Join \<or> t_pc ?s = T_Done"
    using old(2) mv(1,4,5) by metis
  have 3: "t_pc ?s = T_Join \<or> t_pc ?s = T_Done \<longrightarrow> \<not> t_accepting ?s"
    using old(3) mv(1-3) by metis
  have 4: "t_pc ?s = T_Done \<longrightarrow> t_worker_pc s = X_Exit" using old(4) mv(3) by metis
  have 5: "\<not> t_accepting s \<Longrightarrow> \<not> t_accepting ?s" using mv(1) by simp
  show ?thesis
  proof (cases "t_worker_pc s")
    case X_Exit
    with 1 2 3 4 5 ex assms(1) show ?thesis by (simp add: ts_worker_inv_def)
  next
    case X_Event
    with 1 2 3 4 le assms(1) show ?thesis by (simp add: ts_worker_inv_def)
  next
    case (X_Fail x)
    with 1 2 3 4 le assms(1) show ?thesis by (simp add: ts_worker_inv_def)
  qed (use 1 2 3 4 assms(1) in \<open>simp_all add: ts_worker_inv_def\<close>)
qed

lemma ts_worker_inv_worker:
  assumes "ts_worker_inv s"
  shows "ts_worker_inv (ts_worker_step e s)"
proof (cases "t_worker_pc s")
  case X_Event
  then have "unat (t_waited s + 1) = Suc (unat (t_waited s))"
    using assms by (intro unat_Suc_no_wrap [of _ "t_submitted s"]) (simp add: ts_worker_inv_def)
  with X_Event assms show ?thesis
    by (auto simp: ts_worker_step_def ts_worker_inv_def split: option.split)
next
  case X_Wait
  with assms have "t_submitted s \<le> t_waited s \<Longrightarrow> t_waited s = t_submitted s"
    by (simp add: ts_worker_inv_def word_le_nat_alt word_unat_eq_iff)
  with X_Wait assms show ?thesis
    by (simp add: ts_worker_step_def ts_worker_inv_def not_le word_less_nat_alt) auto
qed (use assms in \<open>auto simp: ts_worker_step_def ts_worker_inv_def\<close>)

lemma completed_le_waited: "ts_worker_inv s \<Longrightarrow> unat (t_completed s) \<le> unat (t_waited s)"
  by (cases "t_worker_pc s") (simp_all add: ts_worker_inv_def)

lemma window_inv_worker:
  assumes "window_inv cfg s" "ts_worker_inv s"
  shows "window_inv cfg (ts_worker_step e s)"
proof -
  have c: "t_completed (ts_worker_step e s) = t_completed s \<or>
      t_completed (ts_worker_step e s) = t_waited s \<and> unat (t_waited s) = Suc (unat (t_completed s)) \<and>
        \<not> mutex_held s"
    using assms(2) by (cases "t_worker_pc s")
      (simp_all add: ts_worker_step_def ts_worker_inv_def split: option.split)
  have w: "unat (t_waited s) \<le> unat (t_submitted s)" using assms(2) by (simp add: ts_worker_inv_def)
  from c show ?thesis
  proof
    assume "t_completed (ts_worker_step e s) = t_completed s"
    with assms(1) show ?thesis by (simp add: window_inv_def)
  next
    assume a: "t_completed (ts_worker_step e s) = t_waited s \<and> unat (t_waited s) = Suc (unat (t_completed s)) \<and>
        \<not> mutex_held s"
    then have "\<And>ph. t_pc s \<noteq> T_Drive ph D_Token" by (auto simp: mutex_held_def)
    with a w assms(1) show ?thesis by (auto simp: window_inv_def)
  qed
qed

lemma window_inv_launcher:
  assumes "window_inv cfg s" "count_inv s" "ts_small s"
  shows "window_inv cfg (ts_launcher_step cfg e s)"
proof (cases "\<exists>ph pc. t_pc s = T_Drive ph pc")
  case False
  then show ?thesis using assms(1)
    by (cases "t_pc s") (auto simp: window_inv_def ts_launcher_step_def ts_fail_with_def)
next
  case True
  then obtain ph pc where p: "t_pc s = T_Drive ph pc" by blast
  have le: "unat (t_completed s) \<le> unat (t_submitted s)" using assms(1) by (simp add: window_inv_def)
  have inc: "pc \<noteq> D_Submit \<Longrightarrow> unat (t_submitted s + 1) = Suc (unat (t_submitted s))"
    by (rule small_Suc [OF submitted_small [OF assms(2,3)]]) (simp_all add: p ts_winding_def)
  show ?thesis
  proof (cases pc)
    case D_Slot
    with p inc assms(1) show ?thesis
      by (cases ph) (auto simp: ts_launcher_step_def drive_step_def window_inv_def drive_return_def
          reserve_def ts_fail_with_def inflight_nat [OF le])
  next
    case D_Token
    with p inc assms(1) show ?thesis
      by (cases ph) (auto simp: ts_launcher_step_def drive_step_def window_inv_def drive_return_def
          reserve_def)
  next
    case D_Head
    with p assms(1) show ?thesis
      by (cases ph) (auto simp: ts_launcher_step_def drive_step_def window_inv_def drive_return_def)
  next
    case D_Submit
    with p assms(1) show ?thesis
      by (auto simp: ts_launcher_step_def drive_step_def window_inv_def ts_fail_with_def Let_def
          split: option.split)
  qed
qed

text \<open>The counts the report is computed from.\<close>

definition after_base :: "ts_pc \<Rightarrow> bool" where
  "after_base pc \<longleftrightarrow> (\<exists>d. pc = T_Drive Measure d) \<or> pc = T_Start \<or> pc = T_Enter \<or> pc = T_End \<or>
     pc = T_Read \<or> pc = T_Report"

definition report_inv :: "ts_config \<Rightarrow> ts_state \<Rightarrow> bool" where
  "report_inv cfg s \<longleftrightarrow>
     (t_pc s = T_Warmup \<longrightarrow> t_submitted s = 0) \<and>
     (t_pc s = T_Drain \<longrightarrow> t_target s = t_submitted s) \<and>
     (t_pc s = T_Base \<and> \<not> t_stop s \<longrightarrow> t_completed s = t_submitted s) \<and>
     (after_base (t_pc s) \<longrightarrow>
        windowed (unat (ts_max_inflight cfg) + 1) (unat (t_base_submitted s)) (unat (t_base_completed s)) \<and>
        unat (t_base_completed s) \<le> unat (t_completed s) \<and>
        unat (t_base_submitted s) \<le> unat (t_submitted s) \<and>
        (\<not> t_stop s \<longrightarrow> t_base_completed s = t_base_submitted s)) \<and>
     (t_pc s = T_Report \<longrightarrow>
        windowed (unat (ts_max_inflight cfg) + 1) (unat (t_measure_submitted s)) (unat (t_measure_completed s)) \<and>
        unat (t_base_completed s) \<le> unat (t_measure_completed s) \<and>
        unat (t_base_submitted s) \<le> unat (t_measure_submitted s)) \<and>
     (\<forall>r. t_report s = Some r \<longrightarrow> ts_winding (t_pc s) \<and>
        \<bar>int (unat (rp_completed_in_window r)) - int (unat (rp_submitted_in_window r))\<bar>
          \<le> int (unat (ts_max_inflight cfg)) + 1 \<and>
        (\<not> t_stop s \<longrightarrow> rp_completed_in_window r \<le> rp_submitted_in_window r))"

lemma window_inv_windowed:
  "window_inv cfg s \<Longrightarrow> windowed (unat (ts_max_inflight cfg) + 1) (unat (t_submitted s)) (unat (t_completed s))"
  by (auto simp: window_inv_def windowed_def split: if_splits)

lemma completed_grows:
  assumes "ts_worker_inv s"
  shows "unat (t_completed s) \<le> unat (t_completed (ts_worker_step e s)) \<and>
    (t_completed s = t_submitted s \<longrightarrow> t_completed (ts_worker_step e s) = t_completed s)"
  using assms by (cases "t_worker_pc s")
    (auto simp: ts_worker_step_def ts_worker_inv_def split: option.split)

lemma report_inv_worker:
  assumes "report_inv cfg s" "ts_worker_inv s"
  shows "report_inv cfg (ts_worker_step e s)"
  using assms(1) completed_grows [OF assms(2), of e] unfolding report_inv_def by auto

lemma report_inv_frame:
  assumes "report_inv cfg s" "t_pc s' = pc" "t_report s' = t_report s" "t_stop s' = t_stop s"
    "t_report s = None"
    "t_base_completed s' = t_base_completed s" "t_base_submitted s' = t_base_submitted s"
    "unat (t_completed s) \<le> unat (t_completed s')" "unat (t_submitted s) \<le> unat (t_submitted s')"
    "after_base pc \<Longrightarrow> after_base (t_pc s)" "pc \<noteq> T_Report" "pc \<noteq> T_Warmup" "pc \<noteq> T_Base"
    "pc = T_Drain \<Longrightarrow> t_target s' = t_submitted s'"
  shows "report_inv cfg s'"
  using assms unfolding report_inv_def by auto

lemma drive_step_base [simp]:
  "t_report (drive_step cfg e ph pc s) = t_report s"
  "t_base_completed (drive_step cfg e ph pc s) = t_base_completed s"
  "t_base_submitted (drive_step cfg e ph pc s) = t_base_submitted s"
  by (cases pc; cases ph; simp add: drive_step_def drive_return_def reserve_def ts_fail_with_def Let_def
      split: option.split)+

lemma drive_step_next:
  assumes "t_pc s = T_Drive ph pc"
  shows "(\<exists>pc'. t_pc (drive_step cfg e ph pc s) = T_Drive ph pc') \<or>
    t_pc (drive_step cfg e ph pc s) = T_Cleanup \<or>
    (ph = Measure \<and> t_pc (drive_step cfg e ph pc s) = T_End) \<or>
    (ph = Warmup \<and> t_pc (drive_step cfg e ph pc s) = T_Drain \<and>
     t_target (drive_step cfg e ph pc s) = t_submitted (drive_step cfg e ph pc s))"
  using assms by (cases pc; cases ph)
    (simp_all add: drive_step_def drive_return_def reserve_def ts_fail_with_def Let_def split: option.split)

lemma report_none: "report_inv cfg s \<Longrightarrow> \<not> ts_winding (t_pc s) \<Longrightarrow> t_report s = None"
  by (cases "t_report s") (auto simp: report_inv_def)

lemma report_inv_drive:
  assumes "report_inv cfg s" "count_inv s" "ts_small s" "t_pc s = T_Drive ph pc"
  shows "report_inv cfg (ts_launcher_step cfg e s)"
proof -
  let ?s = "drive_step cfg e ph pc s"
  have st: "ts_launcher_step cfg e s = ?s" using assms(4) by (simp add: ts_launcher_step_def)
  have none: "t_report s = None" using report_none [OF assms(1)] assms(4) by (simp add: ts_winding_def)
  have grow: "unat (t_submitted s) \<le> unat (t_submitted ?s)"
    using launcher_keeps_submitted [of cfg e s] small_Suc submitted_small [OF assms(2,3)]
    unfolding st by auto
  have ab: "after_base (t_pc s) = (ph = Measure)"
    using assms(4) by (cases ph) (auto simp: after_base_def)
  have fr: "report_inv cfg ?s" if "t_pc ?s = q" "after_base q \<Longrightarrow> after_base (t_pc s)" "q \<noteq> T_Report"
      "q \<noteq> T_Warmup" "q \<noteq> T_Base" "q = T_Drain \<Longrightarrow> t_target ?s = t_submitted ?s" for q
    using that by (intro report_inv_frame [OF assms(1)]) (simp_all add: none grow)
  from drive_step_next [OF assms(4), of cfg e] show ?thesis unfolding st
  proof (elim disjE conjE exE)
    fix pc' assume "t_pc ?s = T_Drive ph pc'"
    then show "report_inv cfg ?s" by (rule fr) (simp_all add: ab, simp add: after_base_def)
  next
    assume "t_pc ?s = T_Cleanup"
    then show "report_inv cfg ?s" by (rule fr) (simp_all add: after_base_def)
  next
    assume "ph = Measure" "t_pc ?s = T_End"
    then show "report_inv cfg ?s" using fr [of T_End] ab by simp
  next
    assume "t_pc ?s = T_Drain" "t_target ?s = t_submitted ?s"
    then show "report_inv cfg ?s" using fr [of T_Drain] by (simp add: after_base_def)
  qed
qed

lemma report_inv_launcher:
  assumes "report_inv cfg s" "count_inv s" "ts_small s" "window_inv cfg s"
  shows "report_inv cfg (ts_launcher_step cfg e s)"
proof (cases "t_pc s")
  case (T_Drive ph pc)
  then show ?thesis by (rule report_inv_drive [OF assms(1-3)])
next
  case T_Warmup
  then have "t_submitted s = 0" "t_report s = None"
    using assms(1) report_none by (auto simp: report_inv_def ts_winding_def)
  moreover from this have "t_completed s = 0" using assms(4)
    by (simp add: window_inv_def unat_eq_0)
  ultimately show ?thesis using T_Warmup
    by (simp add: ts_launcher_step_def report_inv_def after_base_def)
next
  case T_Drain
  have "t_completed s \<le> t_submitted s" using assms(4) by (simp add: window_inv_def word_le_nat_alt)
  with T_Drain assms(1) report_none [OF assms(1)] show ?thesis
    by (auto simp: ts_launcher_step_def report_inv_def after_base_def ts_fail_with_def ts_winding_def)
next
  case T_Base
  with assms(1) report_none [OF assms(1)] window_inv_windowed [OF assms(4)] show ?thesis
    by (simp add: ts_launcher_step_def report_inv_def after_base_def ts_winding_def)
next
  case T_Read
  with assms(1) report_none [OF assms(1)] window_inv_windowed [OF assms(4)] show ?thesis
    by (simp add: ts_launcher_step_def report_inv_def after_base_def ts_winding_def)
next
  case T_Report
  let ?bc = "t_base_completed s" and ?bs = "t_base_submitted s"
  let ?mc = "t_measure_completed s" and ?ms = "t_measure_submitted s"
  have w: "windowed (unat (ts_max_inflight cfg) + 1) (unat ?bs) (unat ?bc)"
      "windowed (unat (ts_max_inflight cfg) + 1) (unat ?ms) (unat ?mc)"
      "unat ?bc \<le> unat ?mc" "unat ?bs \<le> unat ?ms" "\<not> t_stop s \<longrightarrow> ?bc = ?bs"
    using assms(1) T_Report by (simp_all add: report_inv_def after_base_def)
  have d: "unat (?mc - ?bc) = unat ?mc - unat ?bc" "unat (?ms - ?bs) = unat ?ms - unat ?bs"
    using w(3,4) by (simp_all add: unat_sub_no_wrap)
  have gap: "\<bar>int (unat (?mc - ?bc)) - int (unat (?ms - ?bs))\<bar> \<le> int (unat (ts_max_inflight cfg)) + 1"
    using windowed_gap [OF w(1-4)] d by simp
  have le: "\<not> t_stop s \<Longrightarrow> ?mc - ?bc \<le> ?ms - ?bs"
    using w(2,5) d by (auto simp: windowed_def word_le_nat_alt)
  show ?thesis using T_Report gap le
    by (simp add: ts_launcher_step_def report_inv_def after_base_def ts_winding_def)
qed (use assms(1) report_none [OF assms(1)] in
    \<open>auto simp: ts_launcher_step_def report_inv_def after_base_def ts_winding_def\<close>)

definition ts_inv :: "ts_config \<Rightarrow> ts_state \<Rightarrow> bool" where
  "ts_inv cfg s \<longleftrightarrow> count_inv s \<and> ts_worker_inv s \<and> window_inv cfg s \<and> report_inv cfg s"

lemma ts_inv_init: "ts_inv cfg (ts_init q)"
  by (simp add: ts_inv_def count_inv_def ts_worker_inv_def window_inv_def report_inv_def ts_init_def
      ts_winding_def after_base_def)

lemma ts_inv_launcher: "ts_inv cfg s \<Longrightarrow> ts_small s \<Longrightarrow> ts_inv cfg (ts_launcher_step cfg e s)"
  by (simp add: ts_inv_def count_inv_launcher ts_worker_inv_launcher window_inv_launcher report_inv_launcher)

lemma ts_inv_worker: "ts_inv cfg s \<Longrightarrow> ts_inv cfg (ts_worker_step e s)"
  by (simp add: ts_inv_def count_inv_worker ts_worker_inv_worker window_inv_worker report_inv_worker)

lemma ts_signal_fields [simp]:
  "t_launches (ts_stop_signal s) = t_launches s" "t_pc (ts_stop_signal s) = t_pc s"
  "t_submitted (ts_stop_signal s) = t_submitted s" "t_completed (ts_stop_signal s) = t_completed s"
  "t_stop (ts_stop_signal s)"
  by (simp_all add: ts_stop_signal_def)

lemma ts_inv_signal:
  assumes "ts_inv cfg s"
  shows "ts_inv cfg (ts_stop_signal s)"
proof -
  have "count_inv (ts_stop_signal s)"
    using assms by (simp add: ts_inv_def count_inv_def ts_stop_signal_def)
  moreover have "ts_worker_inv (ts_stop_signal s)"
    using assms by (cases "t_worker_pc s") (auto simp: ts_inv_def ts_worker_inv_def ts_stop_signal_def)
  moreover have "window_inv cfg (ts_stop_signal s)"
    using assms by (auto simp: ts_inv_def window_inv_def split: if_splits)
  moreover have "report_inv cfg (ts_stop_signal s)"
    using assms by (simp add: ts_inv_def report_inv_def ts_stop_signal_def)
  ultimately show ?thesis by (simp add: ts_inv_def)
qed

lemma ts_reach_inv: "ts_reach cfg s \<Longrightarrow> ts_small s \<Longrightarrow> ts_inv cfg s"
proof (induction rule: ts_reach.induct)
  case (ts_start q)
  show ?case by (rule ts_inv_init)
next
  case (ts_launcher s e)
  have "ts_small s" using ts_launcher.prems launches_grow [of s cfg e] by (simp add: ts_small_def)
  then show ?case using ts_launcher.IH by (simp add: ts_inv_launcher)
next
  case (ts_worker s e)
  then show ?case by (simp add: ts_inv_worker ts_small_def)
next
  case (ts_signal s)
  then show ?case by (simp add: ts_inv_signal ts_small_def)
qed

interpretation ts_pipe: pipeline "\<lambda>s. ts_reach cfg s \<and> ts_small s" "\<lambda>s. unat (t_submitted s)"
    "\<lambda>s. unat (t_completed s)" "unat (ts_max_inflight cfg) + 1" for cfg
  by unfold_locales (use ts_reach_inv window_inv_windowed in \<open>auto simp: ts_inv_def\<close>)

section \<open>The completion event\<close>

text \<open>
  submit_short_kernel launches with doca_dpa_kernel_launch_update_set: when the kernel ends,
  the completion event is set to kernel_id + 1. The value after kernels ended in some order:
\<close>

definition submit_short_kernel :: "u64 \<Rightarrow> u64 \<Rightarrow> u64" where
  "submit_short_kernel kernel_id event_value = kernel_id + 1"

definition comp_event_after :: "u64 list \<Rightarrow> u64" where
  "comp_event_after order = fold submit_short_kernel order 0"

section \<open>Acquisitions of kernel_launch\<close>

type_synonym ts_loop = "sdk \<Rightarrow> ptr \<Rightarrow> trace \<Rightarrow> doca_error \<times> trace"

definition ts_session :: "host_env \<Rightarrow> ts_loop \<Rightarrow> sdk \<Rightarrow> dpa_resources \<Rightarrow> trace \<Rightarrow> doca_error \<times> trace" where
  "ts_session E loop S res t =
     (let (result, comp_event, hnd, t) =
            create_doca_dpa_completion_sync_event S (doca_dpa res) (doca_device res) None False t;
          (result, t) =
            (if result \<noteq> DOCA_SUCCESS then (result, t)
             else if \<not> he_mutex_init E then (DOCA_ERROR_UNEXPECTED, t)
             else if \<not> he_cond_init E then (DOCA_ERROR_UNEXPECTED, t)
             else if \<not> he_worker_create E then (DOCA_ERROR_UNEXPECTED, t)
             else loop S comp_event t)
      in (result, destroy_sync_event S comp_event t))"

lemma ts_session_objects:
  assumes "sets_up_events S" and loop: "\<And>c u. keeps_objects u (snd (loop S c u))"
  shows "keeps_objects t (snd (ts_session E loop S res t))"
proof -
  let ?calls = "\<lambda>ev. [Invoke ''doca_sync_event_add_publisher_location_dpa'' [ev, doca_dpa res] [],
         Invoke ''doca_sync_event_add_subscriber_location_cpu'' [ev, doca_device res] [],
         Invoke ''doca_sync_event_start'' [ev] []]"
  obtain a ev t1 where c: "create_sync_event S ?calls None t = (a, ev, t1)"
    by (cases "create_sync_event S ?calls None t" rule: prod_cases3)
  have o: "if a_err a = DOCA_SUCCESS then \<exists>h. ev = Some h \<and> adds_object t t1 (KSyncEvent, h)
      else ev = None \<and> keeps_objects t t1"
    by (rule create_sync_event_set_up [OF c assms(1)]) simp
  have w: "create_doca_dpa_completion_sync_event S (doca_dpa res) (doca_device res) None False t =
      (a_err a, ev, None, t1)"
    by (simp add: create_doca_dpa_completion_sync_event_def c)
  show ?thesis
  proof (cases "a_err a = DOCA_SUCCESS")
    case False
    with o show ?thesis by (simp add: ts_session_def w destroy_sync_event_def)
  next
    case True
    with o obtain h where h: "ev = Some h" "adds_object t t1 (KSyncEvent, h)" by auto
    obtain r t2 where l: "loop S (Some h) t1 = (r, t2)" by fastforce
    have l2: "keeps_objects t1 t2" using loop [where c = "Some h" and u = t1] l by simp
    have d: "keeps_objects t (destroy_sync_event S (Some h) u)" if "keeps_objects t1 u" for u
      using adds_object_destroy [OF adds_object_keeps [OF h(2) that]]
      by (simp add: destroy_sync_event_def call_trace)
    show ?thesis using True h(1) d l2
      by (simp add: ts_session_def w l)
  qed
qed

section \<open>Properties\<close>

definition ts_demo :: ts_config where
  "ts_demo = \<lparr>ts_role = ''worker'', ts_result_path = [], ts_warmup_ms = 1, ts_runtime_ms = 1, ts_iters = 1,
     ts_max_inflight = 1, ts_token_mode = False\<rparr>"

text \<open>A run is a list of who moves and with which environment: the launcher, the worker or a signal.\<close>

datatype ts_move = TL ts_env | TW ts_env | TS

fun ts_move_step :: "ts_config \<Rightarrow> ts_move \<Rightarrow> ts_state \<Rightarrow> ts_state" where
  "ts_move_step cfg (TL e) s = ts_launcher_step cfg e s"
| "ts_move_step cfg (TW e) s = ts_worker_step e s"
| "ts_move_step cfg TS s = ts_stop_signal s"

definition ts_exec :: "ts_config \<Rightarrow> ts_move list \<Rightarrow> ts_state" where
  "ts_exec cfg ms = fold (ts_move_step cfg) ms (ts_init 0)"

lemma ts_exec_reach: "ts_reach cfg (ts_exec cfg ms)"
proof -
  have "ts_reach cfg s \<Longrightarrow> ts_reach cfg (fold (ts_move_step cfg) ms s)" for s
  proof (induction ms arbitrary: s)
    case (Cons m ms)
    then show ?case by (cases m) (auto intro: ts_reach.intros)
  qed simp
  then show ?thesis unfolding ts_exec_def by (simp add: ts_reach.ts_start)
qed

definition ts_ok :: "u64 \<Rightarrow> ts_env" where
  "ts_ok now = \<lparr>te_err = DOCA_SUCCESS, te_wait = Some DOCA_SUCCESS, te_now = now, te_token = True,
     te_queue = None\<rparr>"

definition ts_measured_run :: "ts_move list" where
  "ts_measured_run =
     replicate 4 (TL (ts_ok 0)) @ replicate 3 (TW (ts_ok 0)) @ replicate 9 (TL (ts_ok 2000000)) @
     replicate 3 (TW (ts_ok 2000000)) @ replicate 6 (TL (ts_ok 9000000)) @ [TW (ts_ok 0), TL (ts_ok 0)]"

text \<open>C35. In the time-slice host no more kernels are in flight than DPA_TS_MAX_INFLIGHT, plus one once a stop
  was requested; the kernels are launched once each in the order of their numbers; and the
  worker waits only for a kernel whose number was handed out. This holds for every run of fewer
  than 2^64 - 1 launches.\<close>

theorem ts_window:
  assumes "ts_reach cfg s" "length (t_launches s) < UINT64_MAX"
  shows "t_completed s \<le> t_submitted s \<and>
    unat (t_submitted s - t_completed s) \<le> unat (ts_max_inflight cfg) + (if t_stop s then 1 else 0) \<and>
    t_launches s = map of_nat [0..<length (t_launches s)] \<and>
    (t_worker_pc s = X_Event \<longrightarrow> t_waited s < t_submitted s)"
proof -
  have "ts_inv cfg s" using ts_reach_inv [OF assms(1)] assms(2) by (simp add: ts_small_def)
  then have c: "t_launches s = map of_nat [0..<length (t_launches s)]"
      "t_worker_pc s = X_Event \<longrightarrow> unat (t_waited s) < unat (t_submitted s)"
      "unat (t_completed s) \<le> unat (t_submitted s)"
      "unat (t_submitted s) \<le> unat (t_completed s) + unat (ts_max_inflight cfg) + (if t_stop s then 1 else 0)"
    by (simp add: ts_inv_def count_inv_def, auto simp: ts_inv_def ts_worker_inv_def,
        auto simp: ts_inv_def window_inv_def)
  then show ?thesis using unat_sub_no_wrap [OF c(3)]
    by (simp add: word_le_nat_alt word_less_nat_alt split: if_splits)
qed

theorem ts_window_witness:
  "t_completed (ts_exec ts_demo ts_measured_run) \<le> t_submitted (ts_exec ts_demo ts_measured_run) \<and>
   t_launches (ts_exec ts_demo ts_measured_run) = [0, 1]"
proof -
  have l: "t_launches (ts_exec ts_demo ts_measured_run) = [0, 1]" by code_simp
  then show ?thesis using ts_window [OF ts_exec_reach [of ts_demo ts_measured_run]] by simp
qed

text \<open>The measured throughput is accurate to the window: in the RESULT line the kernels completed in the
  window differ from those submitted in it by at most max_inflight + 1, and unless a stop was
  requested (the warm-up is drained before the measurement) they are no more than those.\<close>

theorem ts_report_accurate:
  assumes "ts_reach cfg s" "length (t_launches s) < UINT64_MAX" "t_report s = Some r"
  shows "\<bar>int (unat (rp_completed_in_window r)) - int (unat (rp_submitted_in_window r))\<bar>
      \<le> int (unat (ts_max_inflight cfg)) + 1 \<and>
    (\<not> t_stop s \<longrightarrow> rp_completed_in_window r \<le> rp_submitted_in_window r)"
  using ts_reach_inv [OF assms(1)] assms(2,3) by (simp add: ts_small_def ts_inv_def report_inv_def)

theorem ts_report_accurate_witness:
  "\<exists>r. t_report (ts_exec ts_demo ts_measured_run) = Some r \<and> rp_completed_in_window r = 1 \<and>
     rp_completed_in_window r \<le> rp_submitted_in_window r"
proof -
  have "t_launches (ts_exec ts_demo ts_measured_run) = [0, 1]" "\<not> t_stop (ts_exec ts_demo ts_measured_run)"
    by code_simp+
  moreover obtain r where r: "t_report (ts_exec ts_demo ts_measured_run) = Some r"
      "rp_completed_in_window r = 1"
  proof -
    have "(case t_report (ts_exec ts_demo ts_measured_run) of None \<Rightarrow> False
        | Some r \<Rightarrow> rp_completed_in_window r = 1)" by code_simp
    then show thesis using that by (auto split: option.splits)
  qed
  ultimately show ?thesis
    using ts_report_accurate [OF ts_exec_reach [of ts_demo ts_measured_run] _ r(1)] by simp
qed

text \<open>A stop signal lets the time-slice host exceed its window: after the wait for a slot it checks the
  deadline but not the stop, so a stop that ends the wait is followed by one more launch. With
  a window of one, two kernels are in flight.\<close>

theorem ts_stop_exceeds_window:
  "\<exists>s. ts_reach ts_demo s \<and> t_stop s \<and> t_submitted s - t_completed s = 2 \<and> length (t_launches s) = 2"
proof -
  let ?s = "ts_exec ts_demo (replicate 5 (TL (ts_ok 0)) @ [TS] @ replicate 2 (TL (ts_ok 0)))"
  have "t_stop ?s" "t_submitted ?s - t_completed ?s = 2" "length (t_launches ?s) = 2" by code_simp+
  then show ?thesis using ts_exec_reach by blast
qed

text \<open>A refused launch hangs the time-slice host: the kernel is counted before it is launched, so after
  the launch failed the worker waits for a kernel that does not exist, and the launcher waits
  for the worker, whatever the clock and the scheduler do.\<close>

theorem ts_refused_launch_hangs:
  "\<exists>s. ts_reach ts_demo s \<and> t_pc s = T_Join \<and> t_worker_pc s = X_Event \<and> t_launches s = [] \<and>
     t_result s = DOCA_ERROR_UNEXPECTED \<and>
     (\<forall>e. ts_launcher_step ts_demo e s = s \<and> ts_worker_step (e\<lparr>te_wait := None\<rparr>) s = s)"
proof -
  let ?s = "ts_exec ts_demo (replicate 3 (TL (ts_ok 0)) @
    [TL ((ts_ok 0)\<lparr>te_err := DOCA_ERROR_UNEXPECTED\<rparr>), TW (ts_ok 0), TL (ts_ok 0)])"
  have s: "t_pc ?s = T_Join" "t_worker_pc ?s = X_Event" "t_launches ?s = []"
      "t_result ?s = DOCA_ERROR_UNEXPECTED"
    by code_simp+
  then have "\<forall>e. ts_launcher_step ts_demo e ?s = ?s \<and> ts_worker_step (e\<lparr>te_wait := None\<rparr>) ?s = ?s"
    by (simp add: ts_launcher_step_def ts_worker_step_def)
  with s show ?thesis using ts_exec_reach by blast
qed

text \<open>The time-slice host can return success although its worker failed: the clean-up does not look at the
  worker's result (as the clean-up of the other hosts does), so a wait that fails after the
  measurement is lost.\<close>

theorem ts_worker_error_lost:
  "\<exists>s. ts_reach (ts_demo\<lparr>ts_max_inflight := 2\<rparr>) s \<and> t_pc s = T_Done \<and> t_result s = DOCA_SUCCESS \<and>
     t_worker_result s = DOCA_ERROR_UNEXPECTED"
proof -
  let ?bad = "(ts_ok 0)\<lparr>te_wait := Some DOCA_ERROR_UNEXPECTED\<rparr>"
  let ?s = "ts_exec (ts_demo\<lparr>ts_max_inflight := 2\<rparr>) (replicate 4 (TL (ts_ok 0)) @ replicate 3 (TW (ts_ok 0)) @
    replicate 9 (TL (ts_ok 2000000)) @ replicate 6 (TL (ts_ok 9000000)) @ replicate 3 (TW ?bad) @ [TL (ts_ok 0)])"
  have "t_pc ?s = T_Done" "t_result ?s = DOCA_SUCCESS" "t_worker_result ?s = DOCA_ERROR_UNEXPECTED"
    by code_simp+
  then show ?thesis using ts_exec_reach by blast
qed

lemma comp_event_after_snoc: "comp_event_after (ks @ [k]) = k + 1"
  by (simp add: comp_event_after_def submit_short_kernel_def)

text \<open>The completion event counts the finished kernels only when they end in the order of their numbers.
  Because the launch sets the event (instead of adding to it, as the README of the program
  says), two kernels that end in the other order leave the event at one, and a wait for the
  second of them does not return.\<close>

theorem ts_event_order:
  "comp_event_after (map of_nat [0..<n]) = of_nat n \<and>
   comp_event_after [1, 0] = 1 \<and> \<not> 1 < comp_event_after [1, 0]"
proof -
  have "comp_event_after (map of_nat [0..<n]) = of_nat n"
    by (cases n) (simp add: comp_event_after_def, simp add: comp_event_after_snoc)
  then show ?thesis by (simp add: comp_event_after_def submit_short_kernel_def)
qed

text \<open>The acquisitions of the time-slice host leave no sync event behind and destroy none twice, provided
  setting up a created event does not fail.\<close>

theorem ts_session_balanced:
  assumes "sets_up_events S" "\<And>c u. keeps_objects u (snd (loop S c u))"
  shows "keeps_objects t (snd (ts_session E loop S res t))"
  using ts_session_objects [where loop = loop, OF assms] .

theorem ts_session_balanced_witness:
  "keeps_objects [] (snd (ts_session demo_host (\<lambda>S c u. (DOCA_SUCCESS, u)) (sample_sdk (\<lambda>t c. False))
     demo_res []))"
  by (rule ts_session_balanced) (simp_all add: sets_up_events_def)

end
