(* ===== verification/FsPath.thy ===== *)
theory FsPath
  imports Prelude
begin

text \<open>
  The paths of std::filesystem as the server uses them (POSIX format, no root names), by the
  elements the class iterates over: a root directory, the file names between the separators,
  and an empty last element when the path ends with a separator. From
  server/remote_service_implement.cc: IsSubPath and LexicallyNormalized.
\<close>

record path =
  root :: bool
  names :: "string list"
  trail :: bool

definition empty_path :: path where
  "empty_path = \<lparr>root = False, names = [], trail = False\<rparr>"

text \<open>The elements of iteration, and the text of a path.\<close>

definition elems :: "path \<Rightarrow> string list" where
  "elems p = (if root p then [''/''] else []) @ names p @ (if trail p then [[]] else [])"

fun join_names :: "string list \<Rightarrow> string" where
  "join_names [] = []"
| "join_names [n] = n"
| "join_names (n # m # ns) = n @ CHR 0x2F # join_names (m # ns)"

definition path_string :: "path \<Rightarrow> string" where
  "path_string p = (if root p then ''/'' else []) @ join_names (names p) @ (if trail p then ''/'' else [])"

text \<open>Construction from a string: separators may repeat.\<close>

fun split_names :: "string \<Rightarrow> string \<Rightarrow> string list" where
  "split_names cur [] = (if cur = [] then [] else [cur])"
| "split_names cur (c # cs) =
     (if c = CHR 0x2F then (if cur = [] then split_names [] cs else cur # split_names [] cs)
      else split_names (cur @ [c]) cs)"

definition parse_path :: "string \<Rightarrow> path" where
  "parse_path s =
     (let ns = split_names [] s
      in \<lparr>root = (s \<noteq> [] \<and> hd s = CHR 0x2F), names = ns,
          trail = (ns \<noteq> [] \<and> last s = CHR 0x2F)\<rparr>)"

text \<open>The operator /, and parent_path.\<close>

definition path_append :: "path \<Rightarrow> path \<Rightarrow> path" where
  "path_append p q =
     (if root q then q
      else if names q = [] then p\<lparr>trail := (names p \<noteq> [])\<rparr>
      else \<lparr>root = root p, names = names p @ names q, trail = trail q\<rparr>)"

definition parent_path :: "path \<Rightarrow> path" where
  "parent_path p =
     (if trail p then p\<lparr>trail := False\<rparr>
      else p\<lparr>names := butlast (names p)\<rparr>)"

section \<open>lexically_normal\<close>

definition norm_step :: "path \<Rightarrow> string \<Rightarrow> path" where
  "norm_step ret p =
     (if p = ''..'' then
        if names ret = [] then (if root ret then ret else ret\<lparr>names := [''..''], trail := False\<rparr>)
        else if last (names ret) \<noteq> ''..''
        then ret\<lparr>names := butlast (names ret), trail := (butlast (names ret) \<noteq> [])\<rparr>
        else ret\<lparr>names := names ret @ [''..''], trail := False\<rparr>
      else if p = ''.'' \<or> p = [] then ret\<lparr>trail := (names ret \<noteq> [])\<rparr>
      else ret\<lparr>names := names ret @ [p], trail := False\<rparr>)"

definition norm_finish :: "path \<Rightarrow> path" where
  "norm_finish ret =
     (if trail ret \<and> names ret \<noteq> [] \<and> last (names ret) = ''..'' then ret\<lparr>trail := False\<rparr>
      else if \<not> root ret \<and> names ret = [] then ret\<lparr>names := [''.''], trail := False\<rparr>
      else ret)"

definition lexically_normal :: "path \<Rightarrow> path" where
  "lexically_normal p =
     (if elems p = [] then p
      else norm_finish (foldl norm_step \<lparr>root = root p, names = [], trail = False\<rparr>
             (names p @ (if trail p then [[]] else []))))"

definition LexicallyNormalized :: "path \<Rightarrow> path \<Rightarrow> path" where
  "LexicallyNormalized base suffix = lexically_normal (path_append base suffix)"

fun is_prefix_elems :: "string list \<Rightarrow> string list \<Rightarrow> bool" where
  "is_prefix_elems [] candidate = True"
| "is_prefix_elems (b # base) candidate =
     (case candidate of [] \<Rightarrow> False | c # cs \<Rightarrow> if b \<noteq> c then False else is_prefix_elems base cs)"

definition IsSubPath :: "path \<Rightarrow> path \<Rightarrow> bool" where
  "IsSubPath base candidate = is_prefix_elems (elems base) (elems candidate)"

section \<open>Relative paths\<close>

text \<open>
  lexically_relative: the elements after the common prefix, preceded by one dot-dot for every
  further element of the base. None is the empty path of the standard.
\<close>

fun strip_common :: "string list \<Rightarrow> string list \<Rightarrow> string list \<times> string list" where
  "strip_common (a # as) (b # bs) = (if a = b then strip_common as bs else (a # as, b # bs))"
| "strip_common as bs = (as, bs)"

fun count_up :: "string list \<Rightarrow> int" where
  "count_up [] = 0"
| "count_up (b # bs) =
     (if b = ''..'' then - 1 else if b = [] \<or> b = ''.'' then 0 else 1) + count_up bs"

definition of_elems :: "string list \<Rightarrow> path" where
  "of_elems es =
     (let r = (es \<noteq> [] \<and> hd es = ''/''); body = (if r then tl es else es)
      in \<lparr>root = r, names = filter (\<lambda>n. n \<noteq> []) body, trail = (body \<noteq> [] \<and> last body = [] \<and> filter (\<lambda>n. n \<noteq> []) body \<noteq> [])\<rparr>)"

definition dot_path :: path where
  "dot_path = \<lparr>root = False, names = [''.''], trail = False\<rparr>"

definition lexically_relative :: "path \<Rightarrow> path \<Rightarrow> path" where
  "lexically_relative p base =
     (if root p \<noteq> root base then empty_path
      else
        let (a, b) = strip_common (elems p) (elems base);
            n = count_up b
        in if a = [] \<and> b = [] then dot_path
           else if n = 0 \<and> (a = [] \<or> hd a = []) then dot_path
           else if n < 0 then empty_path
           else of_elems (replicate (nat n) ''..'' @ a))"

text \<open>
  weakly_canonical and relative look at the file system: whether a path exists, and the
  canonical form of an existing one, are parameters.
\<close>

record fs_view =
  fs_exists :: "path \<Rightarrow> bool"
  fs_canonical :: "path \<Rightarrow> path"

fun existing_prefix :: "fs_view \<Rightarrow> path \<Rightarrow> string list \<Rightarrow> path \<times> string list" where
  "existing_prefix V result [] = (result, [])"
| "existing_prefix V result (e # es) =
     (let tmp = path_append result (of_elems [e])
      in if fs_exists V tmp then existing_prefix V tmp es else (result, e # es))"

definition weakly_canonical :: "fs_view \<Rightarrow> path \<Rightarrow> path" where
  "weakly_canonical V p =
     (if fs_exists V p then fs_canonical V p
      else
        let (result, rest) = existing_prefix V empty_path (elems p);
            result = (if elems result = [] then result else fs_canonical V result)
        in lexically_normal (foldl (\<lambda>r e. path_append r (of_elems [e])) result rest))"

definition fs_relative :: "fs_view \<Rightarrow> path \<Rightarrow> path \<Rightarrow> path" where
  "fs_relative V p base = lexically_relative (weakly_canonical V p) (weakly_canonical V base)"

section \<open>Facts about normal paths\<close>

definition plain :: "string \<Rightarrow> bool" where
  "plain n \<longleftrightarrow> n \<noteq> [] \<and> n \<noteq> ''.'' \<and> n \<noteq> ''..'' \<and> CHR 0x2F \<notin> set n"

definition wf_path :: "path \<Rightarrow> bool" where
  "wf_path p \<longleftrightarrow> (\<forall>n\<in>set (names p). n \<noteq> [] \<and> CHR 0x2F \<notin> set n) \<and> (trail p \<longrightarrow> names p \<noteq> [])"

text \<open>An absolute normal path without a trailing separator, such as the workspace root.\<close>

definition abs_dir :: "path \<Rightarrow> bool" where
  "abs_dir p \<longleftrightarrow> root p \<and> \<not> trail p \<and> (\<forall>n\<in>set (names p). plain n)"

lemma norm_step_root [simp]: "root (norm_step r e) = root r"
  by (simp add: norm_step_def)

lemma foldl_norm_root [simp]: "root (foldl norm_step r es) = root r"
  by (induction es arbitrary: r) auto

lemma norm_step_plain:
  assumes "\<forall>n\<in>set (names r). plain n" "root r" "CHR 0x2F \<notin> set e"
  shows "\<forall>n\<in>set (names (norm_step r e)). plain n"
  using assms by (auto simp: norm_step_def plain_def dest: in_set_butlastD)

lemma foldl_norm_plain:
  assumes "\<forall>n\<in>set (names r). plain n" "root r" "\<forall>e\<in>set es. CHR 0x2F \<notin> set e"
  shows "\<forall>n\<in>set (names (foldl norm_step r es)). plain n"
  using assms
proof (induction es arbitrary: r)
  case (Cons e es)
  have "\<forall>n\<in>set (names (norm_step r e)). plain n"
    by (rule norm_step_plain) (use Cons.prems in simp_all)
  then show ?case using Cons by simp
qed simp

lemma foldl_norm_trail:
  "\<not> trail r \<or> names r \<noteq> [] \<Longrightarrow> \<not> trail (foldl norm_step r es) \<or> names (foldl norm_step r es) \<noteq> []"
proof (induction es arbitrary: r)
  case (Cons e es)
  have "\<not> trail (norm_step r e) \<or> names (norm_step r e) \<noteq> []"
    using Cons.prems by (auto simp: norm_step_def split: if_splits)
  then show ?case using Cons.IH by simp
qed simp

lemma abs_normal:
  assumes "wf_path p" "root p"
  shows "root (lexically_normal p)" "\<forall>n\<in>set (names (lexically_normal p)). plain n"
    "trail (lexically_normal p) \<longrightarrow> names (lexically_normal p) \<noteq> []"
proof -
  define f where "f = foldl norm_step \<lparr>root = root p, names = [], trail = False\<rparr>
    (names p @ (if trail p then [[]] else []))"
  have ne: "elems p \<noteq> []" using assms(2) by (simp add: elems_def)
  have "\<forall>e\<in>set (names p @ (if trail p then [[]] else [])). CHR 0x2F \<notin> set e"
    using assms(1) by (auto simp: wf_path_def)
  then have pl: "\<forall>n\<in>set (names f). plain n"
    unfolding f_def using assms(2) by (intro foldl_norm_plain) simp_all
  have tr: "\<not> trail f \<or> names f \<noteq> []" unfolding f_def by (rule foldl_norm_trail) simp
  have rf: "root f" unfolding f_def foldl_norm_root using assms(2) by simp
  have "names f \<noteq> [] \<Longrightarrow> last (names f) \<noteq> ''..''" using pl last_in_set by (fastforce simp: plain_def)
  then have "norm_finish f = f" using rf by (auto simp: norm_finish_def)
  then have nf: "lexically_normal p = f"
    using ne unfolding lexically_normal_def f_def by simp
  show "root (lexically_normal p)" "\<forall>n\<in>set (names (lexically_normal p)). plain n"
    "trail (lexically_normal p) \<longrightarrow> names (lexically_normal p) \<noteq> []"
    unfolding nf using pl tr rf by simp_all
qed

lemma is_prefix_elems_prefix: "is_prefix_elems bs cs \<longleftrightarrow> (\<exists>zs. cs = bs @ zs)"
  by (induction bs cs rule: is_prefix_elems.induct) (auto split: list.split)

text \<open>Names inside an absolute directory: IsSubPath compares names, and nothing but names.\<close>

lemma sub_path_names:
  assumes "abs_dir base" "root p" "IsSubPath base p"
  shows "\<exists>rest. names p = names base @ rest"
proof -
  obtain zs where zs: "''/'' # names p @ (if trail p then [[]] else []) = ''/'' # names base @ zs"
    using assms by (auto simp: IsSubPath_def is_prefix_elems_prefix elems_def abs_dir_def)
  then have e: "names p @ (if trail p then [[]] else []) = names base @ zs" by simp
  show ?thesis
  proof (cases "trail p")
    case False
    with e show ?thesis by auto
  next
    case True
    with e have e': "names p @ [[]] = names base @ zs" by simp
    have ne: "names base \<noteq> names p @ [[]]"
    proof
      assume "names base = names p @ [[]]"
      then have "[] \<in> set (names base)" by simp
      with assms(1) show False by (auto simp: abs_dir_def plain_def)
    qed
    show ?thesis
    proof (cases zs rule: rev_cases)
      case Nil
      with e' ne show ?thesis by simp
    next
      case (snoc zs' z)
      with e' show ?thesis by simp
    qed
  qed
qed

lemma abs_dir_wf: "abs_dir p \<Longrightarrow> wf_path p"
  by (auto simp: abs_dir_def wf_path_def plain_def)

lemma path_append_wf: "wf_path p \<Longrightarrow> wf_path q \<Longrightarrow> wf_path (path_append p q)"
  by (auto simp: wf_path_def path_append_def)

lemma path_append_root [simp]: "root p \<Longrightarrow> root (path_append p q)"
  by (simp add: path_append_def)

lemma foldl_norm_names:
  "\<forall>n\<in>set ns. plain n \<Longrightarrow>
     foldl norm_step r ns = (if ns = [] then r else r\<lparr>names := names r @ ns, trail := False\<rparr>)"
proof (induction ns arbitrary: r)
  case (Cons n ns)
  then show ?case by (simp add: norm_step_def plain_def)
qed simp

lemma sub_path_self_append:
  "root p \<Longrightarrow> root base \<Longrightarrow> \<not> trail base \<Longrightarrow> names p = names base @ rest \<Longrightarrow> IsSubPath base p"
  by (auto simp: IsSubPath_def is_prefix_elems_prefix elems_def)

text \<open>Text and elements.\<close>

lemma split_names_run:
  "CHR 0x2F \<notin> set n \<Longrightarrow> split_names cur (n @ cs) = split_names (cur @ n) cs"
  by (induction n arbitrary: cur) auto

lemma split_join:
  assumes "\<forall>n\<in>set ns. n \<noteq> [] \<and> CHR 0x2F \<notin> set n" "ns \<noteq> []"
  shows "split_names [] (join_names ns @ (if t then ''/'' else [])) = ns"
  using assms
proof (induction ns rule: join_names.induct)
  case (2 n)
  then show ?case using split_names_run [of n "[]" "''/''"] split_names_run [of n "[]" "[]"] by simp
next
  case (3 n m ns)
  then show ?case by (simp add: split_names_run)
qed simp

lemma ends_not_in: "n \<noteq> [] \<Longrightarrow> c \<notin> set n \<Longrightarrow> hd n \<noteq> c \<and> last n \<noteq> c"
  using hd_in_set last_in_set by metis

lemma join_hd:
  "\<forall>n\<in>set ns. n \<noteq> [] \<and> CHR 0x2F \<notin> set n \<Longrightarrow> ns \<noteq> [] \<Longrightarrow> join_names ns \<noteq> [] \<and> hd (join_names ns) \<noteq> CHR 0x2F"
  by (induction ns rule: join_names.induct) (auto simp: hd_append ends_not_in)

lemma join_last:
  "\<forall>n\<in>set ns. n \<noteq> [] \<and> CHR 0x2F \<notin> set n \<Longrightarrow> ns \<noteq> [] \<Longrightarrow> last (join_names ns) \<noteq> CHR 0x2F"
proof (induction ns rule: join_names.induct)
  case (2 n)
  then show ?case by (simp add: ends_not_in)
next
  case (3 n m ns)
  then show ?case using join_hd [of "m # ns"] by auto
qed simp

lemma split_names_wf:
  "CHR 0x2F \<notin> set cur \<Longrightarrow> \<forall>n\<in>set (split_names cur s). n \<noteq> [] \<and> CHR 0x2F \<notin> set n"
proof (induction s arbitrary: cur)
  case (Cons c s)
  show ?case
  proof (cases "c = CHR 0x2F")
    case True
    then show ?thesis using Cons.prems Cons.IH [of "[]"] by simp
  next
    case False
    then show ?thesis using Cons.prems Cons.IH [of "cur @ [c]"] by simp
  qed
qed simp

lemma parse_path_wf: "wf_path (parse_path s)"
  using split_names_wf [of "[]" s] by (auto simp: wf_path_def parse_path_def Let_def)

section \<open>Properties\<close>

text \<open>A path of the server is read back from its text: for every path whose names are names, parsing
  what generic_string prints gives the same elements.\<close>

theorem parse_path_string:
  assumes "wf_path p"
  shows "parse_path (path_string p) = p"
proof (cases "names p = []")
  case True
  with assms show ?thesis by (cases p) (auto simp: wf_path_def path_string_def parse_path_def)
next
  case False
  have w: "\<forall>n\<in>set (names p). n \<noteq> [] \<and> CHR 0x2F \<notin> set n" using assms by (simp add: wf_path_def)
  note j = join_hd [OF w False] join_last [OF w False] split_join [OF w False]
  have sp: "split_names [] (join_names (names p)) = names p"
      "split_names [] (join_names (names p) @ ''/'') = names p"
    using j(3) [of False] j(3) [of True] by simp_all
  show ?thesis using False j(1,2) sp
    by (cases p; cases "root p"; cases "trail p")
      (simp_all add: path_string_def parse_path_def Let_def hd_append)
qed

text \<open>Path confinement: whatever text a client sends, a path that passes the server's check (normalise
  against the base directory, then IsSubPath) names something inside the base directory: its
  names are those of the base followed by names that are neither empty nor a dot nor dot-dot.\<close>

theorem path_confined:
  assumes "abs_dir base" "IsSubPath base (LexicallyNormalized base (parse_path s))"
  shows "root (LexicallyNormalized base (parse_path s)) \<and>
    (\<exists>rest. names (LexicallyNormalized base (parse_path s)) = names base @ rest \<and> list_all plain rest)"
proof -
  let ?p = "path_append base (parse_path s)"
  have "wf_path ?p" by (rule path_append_wf [OF abs_dir_wf [OF assms(1)] parse_path_wf])
  moreover have "root ?p" using assms(1) by (simp add: abs_dir_def)
  ultimately have n: "root (lexically_normal ?p)" "\<forall>n\<in>set (names (lexically_normal ?p)). plain n"
    using abs_normal by blast+
  obtain rest where "names (lexically_normal ?p) = names base @ rest"
    using sub_path_names [OF assms(1) n(1)] assms(2) by (auto simp: LexicallyNormalized_def)
  with n show ?thesis by (auto simp: LexicallyNormalized_def list_all_iff)
qed

definition demo_root :: path where
  "demo_root = parse_path ''/srv/workspace''"

lemma demo_root_abs: "abs_dir demo_root"
  by (simp add: abs_dir_def demo_root_def parse_path_def plain_def)

theorem path_confined_witness:
  "names (LexicallyNormalized demo_root (parse_path ''job/../job2/./out/'')) = [''srv'', ''workspace'', ''job2'', ''out''] \<and>
   (\<exists>rest. names (LexicallyNormalized demo_root (parse_path ''job/../job2/./out/'')) = names demo_root @ rest \<and>
      list_all plain rest)"
proof -
  have "IsSubPath demo_root (LexicallyNormalized demo_root (parse_path ''job/../job2/./out/''))" by code_simp
  moreover have "names (LexicallyNormalized demo_root (parse_path ''job/../job2/./out/'')) =
      [''srv'', ''workspace'', ''job2'', ''out'']" by code_simp
  ultimately show ?thesis using path_confined [OF demo_root_abs] by blast
qed

text \<open>The check rejects no honest path: a relative path of ordinary names is normalised to the base
  directory followed by those names, and passes.\<close>

theorem path_accepted:
  assumes "abs_dir base" "\<not> root q" "names q \<noteq> []" "list_all plain (names q)" "\<not> trail q"
  shows "LexicallyNormalized base q = base\<lparr>names := names base @ names q\<rparr> \<and>
    IsSubPath base (LexicallyNormalized base q)"
proof -
  have pl: "\<forall>n\<in>set (names base @ names q). plain n" "root base" "\<not> trail base"
    using assms(1,4) by (auto simp: abs_dir_def list_all_iff)
  have l: "last (names base @ names q) \<noteq> ''..''"
    using pl(1) assms(3) last_in_set [of "names base @ names q"] by (fastforce simp: plain_def)
  have e: "LexicallyNormalized base q = base\<lparr>names := names base @ names q\<rparr>"
    using foldl_norm_names [OF pl(1), of "\<lparr>root = True, names = [], trail = False\<rparr>"] pl(2,3) assms(2,3,5) l
    by (cases base) (simp add: LexicallyNormalized_def path_append_def lexically_normal_def elems_def norm_finish_def)
  moreover have "IsSubPath base (base\<lparr>names := names base @ names q\<rparr>)"
    by (rule sub_path_self_append) (use pl in simp_all)
  ultimately show ?thesis by simp
qed

theorem path_accepted_witness:
  "LexicallyNormalized demo_root (parse_path ''job/out'') = demo_root\<lparr>names := [''srv'', ''workspace'', ''job'', ''out'']\<rparr>"
proof -
  let ?q = "parse_path ''job/out''"
  have "\<not> root ?q" "names ?q = [''job'', ''out'']" "\<not> trail ?q" "names demo_root = [''srv'', ''workspace'']"
    by code_simp+
  then show ?thesis using path_accepted [OF demo_root_abs, of ?q] by (simp add: plain_def)
qed

end
