(* ===== verification/HostFs.thy ===== *)
theory HostFs
  imports FsPath
begin

text \<open>
  The file system calls the server makes through std::filesystem and std::ofstream, on an
  explicit file system: what is at a list of names from the root directory. There are no
  symbolic links; failures of the host that do not follow from the file system (no permission,
  a full disk) are predicates of a parameter.
\<close>

datatype node = Dir | File string

type_synonym files = "string list \<Rightarrow> node option"

record host =
  mkdir_fails :: "path \<Rightarrow> bool"
  open_fails :: "path \<Rightarrow> bool"
  write_fails :: "path \<Rightarrow> string \<Rightarrow> bool"

definition quiet_host :: host where
  "quiet_host = \<lparr>mkdir_fails = \<lambda>_. False, open_fails = \<lambda>_. False, write_fails = \<lambda>_ _. False\<rparr>"

fun has_prefix :: "string list \<Rightarrow> string list \<Rightarrow> bool" where
  "has_prefix [] ns = True"
| "has_prefix (m # ms) ns = (case ns of [] \<Rightarrow> False | n # ns' \<Rightarrow> m = n \<and> has_prefix ms ns')"

fun is_file :: "node option \<Rightarrow> bool" where
  "is_file (Some (File _)) = True"
| "is_file _ = False"

text \<open>A file on the way makes create_directories fail; otherwise all missing directories appear.\<close>

definition create_directories :: "host \<Rightarrow> path \<Rightarrow> files \<Rightarrow> files option" where
  "create_directories H p fs =
     (if mkdir_fails H p \<or> list_ex (\<lambda>n. is_file (fs (take n (names p)))) [0..<Suc (length (names p))] then None
      else Some (\<lambda>ns. if has_prefix ns (names p) \<and> fs ns = None then Some Dir else fs ns))"

text \<open>
  Opening for writing with truncation: a path that ends with a separator, a directory, and a
  path whose parent is no directory cannot be opened.
\<close>

definition open_trunc :: "host \<Rightarrow> path \<Rightarrow> files \<Rightarrow> files option" where
  "open_trunc H p fs =
     (if open_fails H p \<or> trail p \<or> names p = [] \<or> fs (names p) = Some Dir \<or> fs (butlast (names p)) \<noteq> Some Dir
      then None else Some (fs(names p \<mapsto> File [])))"

text \<open>Appending to an open stream; a file that is gone keeps its bytes out of the file system.\<close>

definition write_stream :: "host \<Rightarrow> path \<Rightarrow> string \<Rightarrow> files \<Rightarrow> files option" where
  "write_stream H p bytes fs =
     (if write_fails H p bytes then None
      else case fs (names p) of
        Some (File s) \<Rightarrow> Some (fs(names p \<mapsto> File (s @ bytes)))
      | _ \<Rightarrow> Some fs)"

definition remove_all :: "path \<Rightarrow> files \<Rightarrow> files" where
  "remove_all p fs = (\<lambda>ns. if has_prefix (names p) ns then None else fs ns)"

section \<open>Facts\<close>

lemma has_prefix_append: "has_prefix ms ns \<longleftrightarrow> (\<exists>zs. ns = ms @ zs)"
  by (induction ms ns rule: has_prefix.induct) (auto split: list.split)

lemma has_prefix_take: "has_prefix ms ns \<longleftrightarrow> ms = take (length ms) ns"
  by (auto simp: has_prefix_append) (metis append_take_drop_id)

lemma has_prefix_refl [simp]: "has_prefix ms ms"
  by (simp add: has_prefix_append)

lemma has_prefix_app [simp]: "has_prefix ms (ms @ ns)"
  by (auto simp: has_prefix_append)

lemma has_prefix_trans: "has_prefix ls ms \<Longrightarrow> has_prefix ms ns \<Longrightarrow> has_prefix ls ns"
  by (auto simp: has_prefix_append)

lemma create_directories_some:
  assumes "create_directories H p fs = Some fs'"
  shows "fs' ns = (if has_prefix ns (names p) \<and> fs ns = None then Some Dir else fs ns)"
  using assms by (auto simp: create_directories_def split: if_splits)

lemma create_directories_dirs:
  assumes "create_directories H p fs = Some fs'" "has_prefix ns (names p)"
  shows "fs' ns = Some Dir"
proof -
  have "\<not> is_file (fs (take n (names p)))" if "n \<le> length (names p)" for n
    using assms(1) that by (auto simp: create_directories_def list_ex_iff simp del: upt_Suc split: if_splits)
  moreover have "ns = take (length ns) (names p)" "length ns \<le> length (names p)"
    using assms(2) by (auto simp: has_prefix_append)
  ultimately have "\<not> is_file (fs ns)" by metis
  then show ?thesis using create_directories_some [OF assms(1), of ns] assms(2)
    by (cases "fs ns" rule: is_file.cases) auto
qed

lemma create_directories_files:
  "create_directories H p fs = Some fs' \<Longrightarrow> fs' ns = Some (File s) \<longleftrightarrow> fs ns = Some (File s)"
  by (auto simp: create_directories_some)

lemma create_directories_ok:
  assumes "\<not> mkdir_fails H p" "\<And>ns. has_prefix ns (names p) \<Longrightarrow> \<not> is_file (fs ns)"
  shows "\<exists>fs'. create_directories H p fs = Some fs'"
proof -
  have "has_prefix (take n (names p)) (names p)" for n
    by (metis append_take_drop_id has_prefix_app)
  then show ?thesis using assms by (auto simp: create_directories_def list_ex_iff simp del: upt_Suc)
qed

lemma remove_all_scope: "\<not> has_prefix (names p) ns \<Longrightarrow> remove_all p fs ns = fs ns"
  by (simp add: remove_all_def)

lemma remove_all_gone: "has_prefix (names p) ns \<Longrightarrow> remove_all p fs ns = None"
  by (simp add: remove_all_def)

end
