(* ===== verification/Workspace.thy ===== *)
theory Workspace
  imports HostFs
begin

text \<open>
  How the server of remote_service_implement.cc assigns directories to submissions: resolving
  the directories a client asks for (ResolveTaskPaths), the locks on them (WorkspaceLockGuard
  and g_locked_subdirs), and the removal of a submission's files when it ends.
\<close>

section \<open>Messages, statuses and files\<close>

datatype status_code =
  CANCELLED | INVALID_ARGUMENT | FAILED_PRECONDITION | PERMISSION_DENIED | RESOURCE_EXHAUSTED
  | INTERNAL | ABORTED | DEADLINE_EXCEEDED

type_synonym grpc_error = "status_code \<times> string"

record TaskConfig =
  workspace_subdir :: string
  command :: string
  output_subdir :: string
  enable_pty :: bool
  xsched_enabled :: bool
  xsched_policy :: string
  xsched_utilization :: int
  xsched_timeslice_us :: int

section \<open>ResolveTaskPaths\<close>

definition DefaultIfEmpty :: "string \<Rightarrow> string \<Rightarrow> string" where
  "DefaultIfEmpty value fallback = (if value = [] then fallback else value)"

record ResolvedTaskPaths =
  rp_workspace_subdir :: string
  rp_output_subdir :: string
  rp_workspace_path :: path
  rp_output_path :: path

definition ResolveTaskPaths :: "fs_view \<Rightarrow> path \<Rightarrow> TaskConfig \<Rightarrow> grpc_error + ResolvedTaskPaths" where
  "ResolveTaskPaths V workspace_root config =
     (let ws = DefaultIfEmpty (workspace_subdir config) ''uploaded_task'';
          default_output = path_string (path_append (parse_path ws) (parse_path ''output''));
          out = DefaultIfEmpty (output_subdir config) default_output;
          workspace_path = LexicallyNormalized workspace_root (parse_path ws);
          output_path = LexicallyNormalized workspace_root (parse_path out)
      in if \<not> IsSubPath workspace_root workspace_path \<or> \<not> IsSubPath workspace_root output_path
         then Inl (PERMISSION_DENIED, ''Workspace or output directory escapes server workspace!'')
         else Inr \<lparr>rp_workspace_subdir = path_string (fs_relative V workspace_path workspace_root),
                rp_output_subdir = path_string (fs_relative V output_path workspace_root),
                rp_workspace_path = workspace_path, rp_output_path = output_path\<rparr>)"

section \<open>WorkspaceLockGuard\<close>

record guard =
  g_workspace_root :: path
  g_key :: string
  g_workspace_subdir :: string
  g_output_subdir :: string
  g_locked :: bool
  g_cleanup_registered :: bool

definition new_guard :: "path \<Rightarrow> guard" where
  "new_guard workspace_root =
     \<lparr>g_workspace_root = workspace_root, g_key = [], g_workspace_subdir = [], g_output_subdir = [],
      g_locked = False, g_cleanup_registered = False\<rparr>"

text \<open>The table g_locked_subdirs of all submissions is passed along.\<close>

definition Acquire :: "string \<Rightarrow> guard \<Rightarrow> string set \<Rightarrow> grpc_error option \<times> guard \<times> string set" where
  "Acquire subdir_key g locked_subdirs =
     (if g_locked g then
        (if subdir_key = g_key g then (None, g, locked_subdirs)
         else (Some (FAILED_PRECONDITION, ''Workspace lock already acquired.''), g, locked_subdirs))
      else if subdir_key = [] then
        (Some (INVALID_ARGUMENT, ''workspace_subdir must not be empty.''), g, locked_subdirs)
      else if subdir_key \<in> locked_subdirs then
        (Some (RESOURCE_EXHAUSTED,
           ''workspace_subdir is currently occupied, choose a unique subdirectory.''), g, locked_subdirs)
      else (None, g\<lparr>g_key := subdir_key, g_locked := True\<rparr>, insert subdir_key locked_subdirs))"

definition RegisterCleanupTargets :: "string \<Rightarrow> string \<Rightarrow> guard \<Rightarrow> guard" where
  "RegisterCleanupTargets ws out g =
     g\<lparr>g_workspace_subdir := ws, g_output_subdir := out, g_cleanup_registered := True\<rparr>"

definition Release :: "guard \<Rightarrow> string set \<Rightarrow> guard \<times> string set" where
  "Release g locked_subdirs =
     (if \<not> g_locked g then (g, locked_subdirs)
      else (g\<lparr>g_key := [], g_locked := False\<rparr>, locked_subdirs - {g_key g}))"

definition remove_path :: "path \<Rightarrow> string \<Rightarrow> files \<Rightarrow> files" where
  "remove_path workspace_root relative fs =
     (if relative = [] then fs
      else remove_all (lexically_normal (path_append workspace_root (parse_path relative))) fs)"

definition Cleanup :: "guard \<Rightarrow> files \<Rightarrow> guard \<times> files" where
  "Cleanup g fs =
     (if \<not> g_cleanup_registered g then (g, fs)
      else
        let fs = remove_path (g_workspace_root g) (g_workspace_subdir g) fs;
            fs = (if g_output_subdir g \<noteq> g_workspace_subdir g
                  then remove_path (g_workspace_root g) (g_output_subdir g) fs else fs)
        in (g\<lparr>g_cleanup_registered := False\<rparr>, fs))"

text \<open>The destructor.\<close>

definition destroy_guard :: "guard \<Rightarrow> string set \<Rightarrow> files \<Rightarrow> string set \<times> files" where
  "destroy_guard g locked_subdirs fs =
     (let (g, fs) = Cleanup g fs; (g, locked_subdirs) = Release g locked_subdirs in (locked_subdirs, fs))"

section \<open>The contract of a lock table\<close>

text \<open>
  What a submission relies on: a key that is granted was free and is held afterwards, a refused
  key was held, and giving a key back frees that key alone.
\<close>

locale lock_table =
  fixes valid :: "'k \<Rightarrow> bool"
    and try_lock :: "'k \<Rightarrow> 't \<Rightarrow> 't option"
    and unlock :: "'k \<Rightarrow> 't \<Rightarrow> 't"
    and held :: "'t \<Rightarrow> 'k set"
  assumes lock_free: "try_lock k t = Some t' \<Longrightarrow> k \<notin> held t \<and> held t' = insert k (held t)"
    and lock_taken: "valid k \<Longrightarrow> try_lock k t = None \<Longrightarrow> k \<in> held t"
    and unlock_held: "held (unlock k t) = held t - {k}"
begin

text \<open>Owners of keys: the table holds their keys and no others, no two owners the same key.\<close>

definition owned :: "('i \<Rightarrow> 'k option) \<Rightarrow> 't \<Rightarrow> bool" where
  "owned own t \<longleftrightarrow> held t = ran own \<and> (\<forall>i j k. own i = Some k \<longrightarrow> own j = Some k \<longrightarrow> i = j)"

lemma owned_lock:
  assumes "owned own t" "try_lock k t = Some t'" "own i = None"
  shows "owned (own(i \<mapsto> k)) t'"
proof -
  have "k \<notin> ran own" "held t' = insert k (ran own)"
    using lock_free [OF assms(2)] assms(1) by (auto simp: owned_def)
  then show ?thesis using assms(1,3) by (auto simp: owned_def ran_map_upd ranI)
qed

lemma owned_unlock:
  assumes "owned own t" "own i = Some k"
  shows "owned (own(i := None)) (unlock k t)"
proof -
  have "x \<in> ran (own(i := None)) \<longleftrightarrow> x \<in> ran own - {k}" for x
    using assms by (auto simp: owned_def ran_def split: if_splits) (metis option.inject)
  then have "ran (own(i := None)) = ran own - {k}" by blast
  then show ?thesis using assms unlock_held [of k t] by (auto simp: owned_def split: if_splits)
qed

lemma owned_exclusive: "owned own t \<Longrightarrow> own i = Some k \<Longrightarrow> own j = Some k \<Longrightarrow> i = j"
  by (auto simp: owned_def)

lemma owned_empty: "owned own t \<Longrightarrow> \<forall>i. own i = None \<Longrightarrow> held t = {}"
  by (auto simp: owned_def ran_def)

lemma refused_owned:
  "owned own t \<Longrightarrow> valid k \<Longrightarrow> try_lock k t = None \<Longrightarrow> \<exists>i. own i = Some k"
  using lock_taken [of k t] by (auto simp: owned_def ran_def)

lemma relock: "valid k \<Longrightarrow> try_lock k (unlock k t) \<noteq> None"
  using lock_taken [of k "unlock k t"] unlock_held [of k t] by auto

end

text \<open>The table of the server: a new guard acquires a key, the guard that has it gives it back.\<close>

definition try_lock_subdir :: "string \<Rightarrow> string set \<Rightarrow> string set option" where
  "try_lock_subdir k locked_subdirs =
     (case Acquire k (new_guard empty_path) locked_subdirs of (e, g, t) \<Rightarrow> if e = None then Some t else None)"

definition unlock_subdir :: "string \<Rightarrow> string set \<Rightarrow> string set" where
  "unlock_subdir k locked_subdirs =
     snd (Release ((new_guard empty_path)\<lparr>g_key := k, g_locked := True\<rparr>) locked_subdirs)"

lemma new_guard_unlocked [simp]: "\<not> g_locked (new_guard r)"
  by (simp add: new_guard_def)

interpretation subdirs: lock_table "\<lambda>k. k \<noteq> []" try_lock_subdir unlock_subdir "\<lambda>t. t"
  by unfold_locales
    (auto simp: try_lock_subdir_def unlock_subdir_def Acquire_def Release_def new_guard_def split: if_splits)

lemma Acquire_granted:
  "\<not> g_locked g \<Longrightarrow> Acquire k g t = (None, g', t') \<Longrightarrow>
     try_lock_subdir k t = Some t' \<and> g' = g\<lparr>g_key := k, g_locked := True\<rparr>"
  by (auto simp: Acquire_def try_lock_subdir_def split: if_splits)

lemma Acquire_refused: "\<not> g_locked g \<Longrightarrow> Acquire k g t = (Some e, g', t') \<Longrightarrow> g' = g \<and> t' = t"
  by (auto simp: Acquire_def split: if_splits)

lemma Release_unlock: "g_locked g \<Longrightarrow> snd (Release g t) = unlock_subdir (g_key g) t"
  by (simp add: Release_def unlock_subdir_def)

section \<open>What a submission removes\<close>

text \<open>
  A file system without symbolic links: what exists has existing parents, and the canonical
  form of an existing normal path drops at most its last separator.
\<close>

definition no_links :: "fs_view \<Rightarrow> bool" where
  "no_links V \<longleftrightarrow> (\<forall>p. root p \<longrightarrow> (\<forall>n\<in>set (names p). plain n) \<longrightarrow> fs_canonical V p = p\<lparr>trail := False\<rparr>)"

text \<open>Normal absolute paths.\<close>

definition abs_norm :: "path \<Rightarrow> bool" where
  "abs_norm p \<longleftrightarrow> root p \<and> (\<forall>n\<in>set (names p). plain n) \<and> (trail p \<longrightarrow> names p \<noteq> [])"

lemma abs_dir_norm: "abs_dir p \<Longrightarrow> abs_norm p"
  by (simp add: abs_dir_def abs_norm_def)

text \<open>Elements of a normal path: ordinary names, and the empty one of a last separator.\<close>

definition elem_ok :: "string \<Rightarrow> bool" where
  "elem_ok e \<longleftrightarrow> plain e \<or> e = []"

definition append_elem :: "path \<Rightarrow> string \<Rightarrow> path" where
  "append_elem r e = path_append r (of_elems [e])"

lemma append_elem_norm:
  assumes "abs_norm r" "elem_ok e"
  shows "abs_norm (append_elem r e) \<and>
    names (append_elem r e) = names r @ filter (\<lambda>n. n \<noteq> []) [e]"
proof (cases "e = []")
  case True
  then show ?thesis using assms(1) by (simp add: append_elem_def of_elems_def path_append_def abs_norm_def)
next
  case False
  then have e: "plain e" "e \<noteq> ''/''" using assms(2) by (auto simp: elem_ok_def plain_def)
  then show ?thesis using assms(1) False
    by (auto simp: append_elem_def of_elems_def path_append_def abs_norm_def)
qed

lemma foldl_append_elem:
  "abs_norm r \<Longrightarrow> \<forall>e\<in>set es. elem_ok e \<Longrightarrow>
     abs_norm (foldl append_elem r es) \<and> names (foldl append_elem r es) = names r @ filter (\<lambda>n. n \<noteq> []) es"
proof (induction es arbitrary: r)
  case (Cons e es)
  then show ?case using append_elem_norm [of r e] by simp
qed simp

lemma existing_prefix_norm:
  "abs_norm r \<Longrightarrow> \<forall>e\<in>set es. elem_ok e \<Longrightarrow> existing_prefix V r es = (r', rest) \<Longrightarrow>
     abs_norm r' \<and> (\<forall>e\<in>set rest. elem_ok e) \<and>
     names r' @ filter (\<lambda>n. n \<noteq> []) rest = names r @ filter (\<lambda>n. n \<noteq> []) es"
proof (induction es arbitrary: r)
  case (Cons e es)
  have e: "abs_norm (append_elem r e)"
      "names (append_elem r e) = names r @ filter (\<lambda>n. n \<noteq> []) [e]"
    using append_elem_norm [of r e] Cons.prems(1,2) by simp_all
  show ?case
  proof (cases "fs_exists V (append_elem r e)")
    case True
    then have "existing_prefix V (append_elem r e) es = (r', rest)"
      using Cons.prems(3) by (simp add: append_elem_def)
    then show ?thesis using Cons.IH [OF e(1)] Cons.prems(2) e(2) by simp
  next
    case False
    then have "r' = r" "rest = e # es" using Cons.prems(3) by (simp_all add: append_elem_def)
    then show ?thesis using Cons.prems(1,2) by simp
  qed
qed simp

lemma normal_norm:
  assumes "abs_norm p"
  shows "names (lexically_normal p) = names p \<and> abs_norm (lexically_normal p)"
proof -
  have pl: "\<forall>n\<in>set (names p). plain n" "root p" using assms by (simp_all add: abs_norm_def)
  let ?r = "\<lparr>root = True, names = [], trail = False\<rparr>"
  let ?g = "foldl norm_step ?r (names p)"
  let ?f = "foldl norm_step ?r (names p @ (if trail p then [[]] else []))"
  have g: "names ?g = names p" using foldl_norm_names [OF pl(1), of ?r] by simp
  have e: "norm_step r [] = r\<lparr>trail := (names r \<noteq> [])\<rparr>" for r by (simp add: norm_step_def)
  have f: "names ?f = names p" using g e [of ?g] by (cases "trail p") simp_all
  have r: "root ?f" by (cases "trail p") simp_all
  have l: "names p \<noteq> [] \<Longrightarrow> last (names p) \<noteq> ''..''" using pl(1) last_in_set by (fastforce simp: plain_def)
  have nf: "names q = names p \<Longrightarrow> root q \<Longrightarrow> norm_finish q = q" for q
    using l by (auto simp: norm_finish_def)
  have "norm_finish ?f = ?f" by (rule nf [OF f r])
  then have n: "names (lexically_normal p) = names p"
    using f pl(2) by (simp add: lexically_normal_def elems_def)
  have "wf_path p" using assms by (auto simp: wf_path_def abs_norm_def plain_def)
  then show ?thesis using n abs_normal [of p] pl(2) by (simp add: abs_norm_def)
qed

lemma canonical_norm: "no_links V \<Longrightarrow> abs_norm p \<Longrightarrow>
    abs_norm (fs_canonical V p) \<and> names (fs_canonical V p) = names p"
  by (simp add: no_links_def abs_norm_def)

lemma elems_norm: "abs_norm p \<Longrightarrow> elems p = ''/'' # names p @ (if trail p then [[]] else [])"
  by (simp add: elems_def abs_norm_def)

definition slash :: path where
  "slash = \<lparr>root = True, names = [], trail = False\<rparr>"

lemma append_slash: "path_append empty_path (of_elems [''/'']) = slash"
  by (simp add: path_append_def of_elems_def slash_def)

lemma elems_empty [simp]: "elems empty_path = []"
  by (simp add: elems_def empty_path_def)

lemma slash_norm: "abs_norm slash" "names slash = []" "elems slash = [''/'']"
  by (simp_all add: slash_def abs_norm_def elems_def)

lemma weakly_canonical_norm:
  assumes "no_links V" "abs_norm p"
  shows "abs_norm (weakly_canonical V p) \<and> names (weakly_canonical V p) = names p"
proof -
  define es where "es = names p @ (if trail p then [[]] else [])"
  have ok: "\<forall>e\<in>set es. elem_ok e" using assms(2) by (auto simp: es_def abs_norm_def elem_ok_def)
  have ne: "\<forall>n\<in>set (names p). n \<noteq> []" using assms(2) by (auto simp: abs_norm_def plain_def)
  then have es: "filter (\<lambda>n. n \<noteq> []) es = names p" by (auto simp: es_def)
  have el: "elems p = ''/'' # es" using elems_norm [OF assms(2)] by (simp add: es_def)
  consider "fs_exists V p" | "\<not> fs_exists V p" "\<not> fs_exists V slash"
    | "\<not> fs_exists V p" "fs_exists V slash" by blast
  then show ?thesis
  proof cases
    case 1
    then show ?thesis using canonical_norm [OF assms] by (simp add: weakly_canonical_def)
  next
    case 2
    have "weakly_canonical V p = lexically_normal (foldl append_elem slash es)"
      using 2 by (simp add: weakly_canonical_def el append_slash append_elem_def [abs_def] Let_def)
    then show ?thesis using foldl_append_elem [OF slash_norm(1) ok] normal_norm es slash_norm(2) by simp
  next
    case 3
    obtain r rest where r: "existing_prefix V slash es = (r, rest)" by force
    note x = existing_prefix_norm [OF slash_norm(1) ok r]
    have c: "abs_norm (fs_canonical V r)" "names (fs_canonical V r) = names r"
      using canonical_norm [OF assms(1)] x by blast+
    have "elems r \<noteq> []" using x elems_norm by simp
    then have "weakly_canonical V p = lexically_normal (foldl append_elem (fs_canonical V r) rest)"
      using 3 r by (simp add: weakly_canonical_def el append_slash append_elem_def [abs_def] Let_def)
    then show ?thesis using foldl_append_elem [OF c(1), of rest] normal_norm c(2) x es slash_norm(2) by simp
  qed
qed

lemma strip_common_append: "strip_common (as @ bs) (as @ cs) = strip_common bs cs"
  by (induction as) auto

lemma relative_inside:
  assumes "no_links V" "abs_norm p" "abs_norm base" "names p = names base @ rest"
  shows "fs_relative V p base = (if rest = [] then dot_path
     else \<lparr>root = False, names = rest, trail = trail (weakly_canonical V p)\<rparr>)"
proof -
  let ?p = "weakly_canonical V p" and ?b = "weakly_canonical V base"
  have p: "abs_norm ?p" "names ?p = names base @ rest"
    using weakly_canonical_norm [OF assms(1,2)] assms(4) by simp_all
  have b: "abs_norm ?b" "names ?b = names base"
    using weakly_canonical_norm [OF assms(1,3)] by simp_all
  have r: "root ?p" "root ?b" using p(1) b(1) by (simp_all add: abs_norm_def)
  have sc: "strip_common (elems ?p) (elems ?b) =
      strip_common (rest @ (if trail ?p then [[]] else [])) (if trail ?b then [[]] else [])"
    using elems_norm [OF p(1)] elems_norm [OF b(1)] p(2) b(2) by (simp add: strip_common_append)
  show ?thesis
  proof (cases rest)
    case Nil
    then show ?thesis using r sc
      by (cases "trail ?p"; cases "trail ?b") (simp_all add: fs_relative_def lexically_relative_def)
  next
    case (Cons n ns)
    have "\<forall>m\<in>set (names ?p). plain m" using p(1) by (simp add: abs_norm_def)
    then have pl: "\<forall>m\<in>set rest. plain m" unfolding p(2) by simp
    have "plain n" using pl Cons by simp
    then have n: "n \<noteq> []" "n \<noteq> ''/''" by (auto simp: plain_def)
    have ne: "\<forall>m\<in>set rest. m \<noteq> []" using pl by (simp add: plain_def)
    then have f: "filter (\<lambda>m. m \<noteq> []) rest = rest" by (simp add: filter_id_conv)
    have o: "of_elems (rest @ (if trail ?p then [[]] else [])) =
        \<lparr>root = False, names = rest, trail = trail ?p\<rparr>"
      using f n Cons ne by (auto simp: of_elems_def)
    have "strip_common (elems ?p) (elems ?b) =
        (rest @ (if trail ?p then [[]] else []), if trail ?b then [[]] else [])"
      using sc n Cons by (cases "trail ?b") simp_all
    then show ?thesis using r o n Cons by (cases "trail ?b") (simp_all add: fs_relative_def lexically_relative_def)
  qed
qed

lemma dot_text: "parse_path (path_string dot_path) = dot_path"
  by code_simp

lemma wf_plain: "\<forall>n\<in>set ns. plain n \<Longrightarrow> ns \<noteq> [] \<Longrightarrow> wf_path \<lparr>root = r, names = ns, trail = t\<rparr>"
  by (auto simp: wf_path_def plain_def)

text \<open>The text the server keeps for a directory leads back to it.\<close>

lemma relative_text_back:
  assumes "no_links V" "abs_dir base" "abs_norm p" "names p = names base @ rest"
  shows "names (lexically_normal (path_append base (parse_path (path_string (fs_relative V p base))))) = names p"
proof (cases "rest = []")
  case True
  have pl: "\<forall>n\<in>set (names base). plain n" "root base" using assms(2) by (simp_all add: abs_dir_def)
  let ?r = "\<lparr>root = True, names = [], trail = False\<rparr>"
  have l: "names base \<noteq> [] \<Longrightarrow> last (names base) \<noteq> ''..''" using pl(1) last_in_set by (fastforce simp: plain_def)
  have e: "path_append base dot_path = \<lparr>root = True, names = names base @ [''.''], trail = False\<rparr>"
    using pl(2) by (simp add: path_append_def dot_path_def)
  have "foldl norm_step ?r (names base @ [''.'']) = \<lparr>root = True, names = names base, trail = (names base \<noteq> [])\<rparr>"
    using foldl_norm_names [OF pl(1), of ?r] by (simp add: norm_step_def)
  then have "names (lexically_normal (path_append base dot_path)) = names base"
    using l unfolding e by (simp add: lexically_normal_def elems_def norm_finish_def)
  then show ?thesis
    using True relative_inside [OF assms(1,3) abs_dir_norm [OF assms(2)] assms(4)] assms(4) by (simp add: dot_text)
next
  case False
  have pl: "\<forall>n\<in>set rest. plain n" using assms(3,4) by (auto simp: abs_norm_def)
  let ?q = "\<lparr>root = False, names = rest, trail = trail (weakly_canonical V p)\<rparr>"
  have a: "abs_norm (path_append base ?q)" using pl False assms(2) by (auto simp: abs_norm_def path_append_def abs_dir_def)
  have n: "names (path_append base ?q) = names p" using False assms(4) by (simp add: path_append_def)
  show ?thesis
    using False relative_inside [OF assms(1,3) abs_dir_norm [OF assms(2)] assms(4)]
      parse_path_string [OF wf_plain [OF pl False]] normal_norm [OF a] n by simp
qed

lemma relative_text_nonempty:
  assumes "no_links V" "abs_norm p" "abs_norm base" "names p = names base @ rest"
  shows "path_string (fs_relative V p base) \<noteq> []"
proof (cases "rest = []")
  case True
  then show ?thesis using relative_inside [OF assms] by (simp add: path_string_def dot_path_def)
next
  case False
  have "\<forall>m\<in>set (names p). plain m" using assms(2) by (simp add: abs_norm_def)
  then have "\<forall>m\<in>set rest. m \<noteq> [] \<and> CHR 0x2F \<notin> set m" unfolding assms(4) by (simp add: plain_def)
  then show ?thesis using relative_inside [OF assms] False join_hd [of rest] by (simp add: path_string_def)
qed

lemma remove_relative:
  assumes "no_links V" "abs_dir base" "abs_norm p" "names p = names base @ rest"
  shows "remove_path base (path_string (fs_relative V p base)) fs = remove_all p fs"
  using relative_text_nonempty [OF assms(1,3) abs_dir_norm [OF assms(2)] assms(4)]
    relative_text_back [OF assms]
  by (simp add: remove_path_def remove_all_def)

lemma normalized_inside:
  assumes "abs_dir base" "IsSubPath base (LexicallyNormalized base (parse_path s))"
  shows "abs_norm (LexicallyNormalized base (parse_path s)) \<and>
    (\<exists>rest. names (LexicallyNormalized base (parse_path s)) = names base @ rest)"
proof -
  let ?p = "path_append base (parse_path s)"
  have "wf_path ?p" by (rule path_append_wf [OF abs_dir_wf [OF assms(1)] parse_path_wf])
  moreover have "root ?p" using assms(1) by (simp add: abs_dir_def)
  ultimately have n: "abs_norm (lexically_normal ?p)" unfolding abs_norm_def using abs_normal by blast
  then show ?thesis
    using sub_path_names [OF assms(1), of "lexically_normal ?p"] assms(2)
    by (simp add: LexicallyNormalized_def abs_norm_def)
qed

text \<open>The success of ResolveTaskPaths.\<close>

lemma resolve_ok:
  assumes "ResolveTaskPaths V base config = Inr rp" "abs_dir base"
  shows "abs_norm (rp_workspace_path rp) \<and> abs_norm (rp_output_path rp) \<and>
    (\<exists>w. names (rp_workspace_path rp) = names base @ w) \<and>
    (\<exists>v. names (rp_output_path rp) = names base @ v) \<and>
    rp_workspace_subdir rp = path_string (fs_relative V (rp_workspace_path rp) base) \<and>
    rp_output_subdir rp = path_string (fs_relative V (rp_output_path rp) base)"
proof -
  obtain ws out where
    o: "IsSubPath base (LexicallyNormalized base (parse_path ws))"
       "IsSubPath base (LexicallyNormalized base (parse_path out))" and
    r: "rp_workspace_path rp = LexicallyNormalized base (parse_path ws)"
       "rp_output_path rp = LexicallyNormalized base (parse_path out)"
       "rp_workspace_subdir rp = path_string (fs_relative V (rp_workspace_path rp) base)"
       "rp_output_subdir rp = path_string (fs_relative V (rp_output_path rp) base)"
    using assms(1) by (auto simp: ResolveTaskPaths_def Let_def split: if_splits)
  show ?thesis using normalized_inside [OF assms(2) o(1)] normalized_inside [OF assms(2) o(2)] r by simp
qed

text \<open>The guard of a submission that was accepted with these paths.\<close>

definition registered :: "ResolvedTaskPaths \<Rightarrow> guard \<Rightarrow> guard" where
  "registered rp g = RegisterCleanupTargets (rp_workspace_subdir rp) (rp_output_subdir rp) g"

lemma cleanup_scope:
  assumes "abs_dir base" "no_links V" "ResolveTaskPaths V base config = Inr rp"
    "g_workspace_root g = base"
  shows "has_prefix (names base) (names (rp_workspace_path rp)) \<and>
    has_prefix (names base) (names (rp_output_path rp)) \<and>
    snd (Cleanup (registered rp g) fs) ns =
      (if has_prefix (names (rp_workspace_path rp)) ns \<or> has_prefix (names (rp_output_path rp)) ns
       then None else fs ns)"
proof -
  note r = resolve_ok [OF assms(3,1)]
  obtain w v where n: "names (rp_workspace_path rp) = names base @ w" "names (rp_output_path rp) = names base @ v"
    using r by blast
  have rem: "remove_path base (rp_workspace_subdir rp) fs' = remove_all (rp_workspace_path rp) fs'"
      "remove_path base (rp_output_subdir rp) fs' = remove_all (rp_output_path rp) fs'" for fs'
    using remove_relative [OF assms(2,1) _ n(1)] remove_relative [OF assms(2,1) _ n(2)] r by simp_all
  have same: "rp_output_subdir rp = rp_workspace_subdir rp \<Longrightarrow> names (rp_output_path rp) = names (rp_workspace_path rp)"
    using relative_text_back [OF assms(2,1) _ n(1)] relative_text_back [OF assms(2,1) _ n(2)] r by simp
  have "snd (Cleanup (registered rp g) fs) =
      (let fs = remove_all (rp_workspace_path rp) fs
       in if rp_output_subdir rp \<noteq> rp_workspace_subdir rp then remove_all (rp_output_path rp) fs else fs)"
    using assms(4) rem by (simp add: Cleanup_def registered_def RegisterCleanupTargets_def Let_def)
  then show ?thesis using n same by (auto simp: remove_all_def Let_def)
qed

section \<open>Properties\<close>


text \<open>Inputs of the examples: an empty file system, and a submission of a client.\<close>

definition empty_view :: fs_view where
  "empty_view = \<lparr>fs_exists = \<lambda>p. names p = [], fs_canonical = \<lambda>p. p\<lparr>trail := False\<rparr>\<rparr>"

definition task_in :: "string \<Rightarrow> string \<Rightarrow> TaskConfig" where
  "task_in ws out = \<lparr>workspace_subdir = ws, command = ''make'', output_subdir = out, enable_pty = False,
     xsched_enabled = False, xsched_policy = [], xsched_utilization = 0, xsched_timeslice_us = 0\<rparr>"

definition accepted_paths :: "string \<Rightarrow> string \<Rightarrow> ResolvedTaskPaths option" where
  "accepted_paths ws out =
     (case ResolveTaskPaths empty_view demo_root (task_in ws out) of Inl e \<Rightarrow> None | Inr rp \<Rightarrow> Some rp)"

lemma empty_view_no_links: "no_links empty_view"
  by (simp add: no_links_def empty_view_def)

lemma accepted_paths_resolve:
  "accepted_paths ws out = Some rp \<Longrightarrow> ResolveTaskPaths empty_view demo_root (task_in ws out) = Inr rp"
  by (simp add: accepted_paths_def split: sum.splits)


text \<open>C38. The comment in Cleanup says that each submission owns a private subtree. A workspace directory
  of a dot is accepted, with the workspace of the server itself as the directory: when that
  submission ends, everything of every other submission is removed, the workspace included.\<close>

theorem dot_removes_workspace:
  "\<exists>rp. accepted_paths ''.'' [] = Some rp \<and>
     fst (Acquire (rp_workspace_subdir rp) (new_guard demo_root) {''job''}) = None \<and>
     snd (Cleanup (registered rp (new_guard demo_root)) fs) (names demo_root @ rest) = None"
proof -
  have "map_option (\<lambda>rp. (rp_workspace_subdir rp, rp_output_subdir rp)) (accepted_paths ''.'' []) =
      Some (''.'', ''output'')"
    by code_simp
  then obtain rp where rp: "accepted_paths ''.'' [] = Some rp"
      "rp_workspace_subdir rp = ''.''" "rp_output_subdir rp = ''output''" by auto
  have n: "names (lexically_normal (path_append demo_root (parse_path ''.''))) = names demo_root"
    by code_simp
  have "fst (Acquire ''.'' (new_guard demo_root) {''job''}) = None"
    by (simp add: Acquire_def new_guard_def)
  then show ?thesis using rp n
    by (simp add: Cleanup_def registered_def RegisterCleanupTargets_def new_guard_def remove_path_def
        remove_all_def Let_def)
qed

text \<open>Two submissions with different directories can hold their locks at the same time and still share
  files: with the directories a and a/b the keys differ, so both are granted, and the end of the
  first removes everything the second has uploaded.\<close>

theorem nested_workspaces_not_private:
  "\<exists>outer inner. accepted_paths ''a'' [] = Some outer \<and> accepted_paths ''a/b'' [] = Some inner \<and>
     (\<exists>t. try_lock_subdir (rp_workspace_subdir outer) {} = Some t \<and>
        try_lock_subdir (rp_workspace_subdir inner) t \<noteq> None) \<and>
     snd (Cleanup (registered outer (new_guard demo_root)) fs) (names (rp_workspace_path inner) @ rest) = None"
proof -
  have "map_option (\<lambda>rp. (rp_workspace_subdir rp, rp_output_subdir rp)) (accepted_paths ''a'' []) =
      Some (''a'', ''a/output'')" by code_simp
  then obtain outer where a: "accepted_paths ''a'' [] = Some outer"
      "rp_workspace_subdir outer = ''a''" "rp_output_subdir outer = ''a/output''" by auto
  have "map_option (\<lambda>rp. (rp_workspace_subdir rp, names (rp_workspace_path rp))) (accepted_paths ''a/b'' []) =
      Some (''a/b'', names demo_root @ [''a'', ''b''])" by code_simp
  then obtain inner where b: "accepted_paths ''a/b'' [] = Some inner"
      "rp_workspace_subdir inner = ''a/b''" "names (rp_workspace_path inner) = names demo_root @ [''a'', ''b'']"
    by auto
  have n: "names (lexically_normal (path_append demo_root (parse_path ''a''))) = names demo_root @ [''a'']"
    by code_simp
  have l: "\<exists>t. try_lock_subdir ''a'' {} = Some t \<and> try_lock_subdir ''a/b'' t \<noteq> None"
    by (simp add: try_lock_subdir_def Acquire_def new_guard_def)
  have h: "has_prefix (names demo_root @ [''a'']) ((names demo_root @ [''a'', ''b'']) @ rest)"
    by (simp add: has_prefix_append)
  show ?thesis using a b n l h
    by (auto simp: Cleanup_def registered_def RegisterCleanupTargets_def new_guard_def remove_path_def
        remove_all_def Let_def)
qed

text \<open>One directory can have two keys: before it exists, the names a and a/ are kept apart by
  fs::relative, so two submissions for the same directory are both granted their lock.\<close>

theorem same_directory_two_keys:
  "\<exists>p q. accepted_paths ''a'' [] = Some p \<and> accepted_paths ''a/'' [] = Some q \<and>
     names (rp_workspace_path p) = names (rp_workspace_path q) \<and>
     rp_workspace_subdir p \<noteq> rp_workspace_subdir q \<and>
     try_lock_subdir (rp_workspace_subdir q) {rp_workspace_subdir p} \<noteq> None"
proof -
  have "map_option (\<lambda>rp. (rp_workspace_subdir rp, names (rp_workspace_path rp))) (accepted_paths ''a'' []) =
      Some (''a'', names demo_root @ [''a''])" by code_simp
  then obtain p where p: "accepted_paths ''a'' [] = Some p" "rp_workspace_subdir p = ''a''"
      "names (rp_workspace_path p) = names demo_root @ [''a'']" by auto
  have "map_option (\<lambda>rp. (rp_workspace_subdir rp, names (rp_workspace_path rp))) (accepted_paths ''a/'' []) =
      Some (''a/'', names demo_root @ [''a''])" by code_simp
  then obtain q where q: "accepted_paths ''a/'' [] = Some q" "rp_workspace_subdir q = ''a/''"
      "names (rp_workspace_path q) = names demo_root @ [''a'']" by auto
  have "try_lock_subdir ''a/'' {''a''} \<noteq> None"
    by (simp add: try_lock_subdir_def Acquire_def new_guard_def)
  then show ?thesis using p q by simp
qed

end
