(* ===== verification/Upload.thy ===== *)
theory Upload
  imports Workspace
begin

text \<open>
  The upload half of a submission, class WorkspaceDownloadSession of
  server/remote_service_implement.cc: the requests of the client's stream one after the other,
  the configuration, the chunks of files, and the one open output stream.
\<close>

section \<open>Requests\<close>

record TaskFileChunk =
  fc_data :: string
  relative_path :: string
  file_start :: bool
  file_end :: bool
  file_size :: int

datatype TaskRequest = Config TaskConfig | FileChunk TaskFileChunk | NoPayload

section \<open>The session\<close>

text \<open>What std::filesystem tells of the file system: there are no links, so a normal path is canonical.\<close>

definition view_of :: "files \<Rightarrow> fs_view" where
  "view_of fs = \<lparr>fs_exists = \<lambda>p. (case fs (names p) of None \<Rightarrow> False | Some Dir \<Rightarrow> True | Some (File s) \<Rightarrow> \<not> trail p),
     fs_canonical = \<lambda>p. p\<lparr>trail := False\<rparr>\<rparr>"

record server_state =
  sv_locked :: "string set"
  sv_files :: files

record session =
  ss_root :: path
  ss_guard :: guard
  ss_config :: TaskConfig
  ss_paths :: ResolvedTaskPaths
  ss_outfile :: "path option"
  ss_current :: path
  ss_received :: bool

definition empty_config :: TaskConfig where
  "empty_config = \<lparr>workspace_subdir = [], command = [], output_subdir = [], enable_pty = False,
     xsched_enabled = False, xsched_policy = [], xsched_utilization = 0, xsched_timeslice_us = 0\<rparr>"

definition empty_paths :: ResolvedTaskPaths where
  "empty_paths = \<lparr>rp_workspace_subdir = [], rp_output_subdir = [], rp_workspace_path = empty_path,
     rp_output_path = empty_path\<rparr>"

definition new_session :: "path \<Rightarrow> session" where
  "new_session workspace_root =
     \<lparr>ss_root = workspace_root, ss_guard = new_guard workspace_root, ss_config = empty_config,
      ss_paths = empty_paths, ss_outfile = None, ss_current = empty_path, ss_received = False\<rparr>"

type_synonym outcome = "grpc_error option \<times> session \<times> server_state"

definition CloseCurrentFile :: "session \<Rightarrow> session" where
  "CloseCurrentFile s = s\<lparr>ss_outfile := None, ss_current := empty_path\<rparr>"

definition HandleConfig :: "TaskConfig \<Rightarrow> session \<Rightarrow> server_state \<Rightarrow> outcome" where
  "HandleConfig config s S =
     (if ss_received s then (Some (INVALID_ARGUMENT, ''Duplicate TaskConfig payload!''), s, S)
      else
        let s = s\<lparr>ss_config := config\<rparr>
        in case ResolveTaskPaths (view_of (sv_files S)) (ss_root s) config of
             Inl e \<Rightarrow> (Some e, s, S)
           | Inr paths \<Rightarrow>
               let s = s\<lparr>ss_paths := paths,
                     ss_config := config\<lparr>workspace_subdir := rp_workspace_subdir paths,
                                        output_subdir := rp_output_subdir paths\<rparr>\<rparr>
               in case Acquire (workspace_subdir (ss_config s)) (ss_guard s) (sv_locked S) of
                    (Some e, g, locked) \<Rightarrow> (Some e, s\<lparr>ss_guard := g\<rparr>, S\<lparr>sv_locked := locked\<rparr>)
                  | (None, g, locked) \<Rightarrow>
                      (None,
                       s\<lparr>ss_guard := RegisterCleanupTargets (workspace_subdir (ss_config s))
                                     (output_subdir (ss_config s)) g, ss_received := True\<rparr>,
                       S\<lparr>sv_locked := locked\<rparr>))"

definition EnsureOutputFile :: "host \<Rightarrow> path \<Rightarrow> bool \<Rightarrow> session \<Rightarrow> server_state \<Rightarrow> outcome" where
  "EnsureOutputFile H target_path start s S =
     (if \<not> (ss_outfile s = None \<or> start \<or> target_path \<noteq> ss_current s) then (None, s, S)
      else
        let s = CloseCurrentFile s
        in case create_directories H (parent_path target_path) (sv_files S) of
             None \<Rightarrow> (Some (INTERNAL, ''Failed to prepare workspace directory!''), s, S)
           | Some fs \<Rightarrow>
               (case open_trunc H target_path fs of
                  None \<Rightarrow> (Some (INTERNAL, ''Failed to open file for writing!''), s, S\<lparr>sv_files := fs\<rparr>)
                | Some fs \<Rightarrow> (None, s\<lparr>ss_outfile := Some target_path, ss_current := target_path\<rparr>,
                            S\<lparr>sv_files := fs\<rparr>)))"

definition write_chunk :: "host \<Rightarrow> string \<Rightarrow> session \<Rightarrow> server_state \<Rightarrow> grpc_error option \<times> server_state" where
  "write_chunk H bytes s S =
     (if bytes = [] then (None, S)
      else case ss_outfile s of
        None \<Rightarrow> (Some (INTERNAL, ''Failed to write file chunk!''), S)
      | Some p \<Rightarrow>
          (case write_stream H p bytes (sv_files S) of
             None \<Rightarrow> (Some (INTERNAL, ''Failed to write file chunk!''), S)
           | Some fs \<Rightarrow> (None, S\<lparr>sv_files := fs\<rparr>)))"

definition HandleFileChunk :: "host \<Rightarrow> TaskFileChunk \<Rightarrow> session \<Rightarrow> server_state \<Rightarrow> outcome" where
  "HandleFileChunk H chunk s S =
     (if \<not> ss_received s then
        (Some (FAILED_PRECONDITION, ''TaskConfig must be sent before file chunks!''), s, S)
      else if relative_path chunk = [] then
        (Some (INVALID_ARGUMENT, ''File chunk missing relative path!''), s, S)
      else
        let target_path = LexicallyNormalized (rp_workspace_path (ss_paths s)) (parse_path (relative_path chunk))
        in if \<not> IsSubPath (rp_workspace_path (ss_paths s)) target_path then
             (Some (PERMISSION_DENIED, ''File path escapes uploaded workspace!''), s, S)
           else case EnsureOutputFile H target_path (file_start chunk) s S of
             (Some e, s, S) \<Rightarrow> (Some e, s, S)
           | (None, s, S) \<Rightarrow>
               (case write_chunk H (fc_data chunk) s S of
                  (Some e, S) \<Rightarrow> (Some e, s, S)
                | (None, S) \<Rightarrow> (None, if file_end chunk then CloseCurrentFile s else s, S)))"

definition handle_request :: "host \<Rightarrow> TaskRequest \<Rightarrow> session \<Rightarrow> server_state \<Rightarrow> outcome" where
  "handle_request H incoming s S =
     (case incoming of
        Config config \<Rightarrow> HandleConfig config s S
      | NoPayload \<Rightarrow> (Some (INVALID_ARGUMENT, ''TaskRequest payload is missing!''), s, S)
      | FileChunk chunk \<Rightarrow> HandleFileChunk H chunk s S)"

text \<open>The loop over the stream: each request with the answer IsCancelled gives after it is read.\<close>

fun read_loop :: "host \<Rightarrow> (bool \<times> TaskRequest) list \<Rightarrow> session \<Rightarrow> server_state \<Rightarrow> outcome" where
  "read_loop H [] s S = (None, s, S)"
| "read_loop H ((cancelled, incoming) # rest) s S =
     (if cancelled then (Some (CANCELLED, ''Client cancelled request.''), s, S)
      else case handle_request H incoming s S of
        (Some e, s, S) \<Rightarrow> (Some e, s, S)
      | (None, s, S) \<Rightarrow> read_loop H rest s S)"

definition Run :: "host \<Rightarrow> (bool \<times> TaskRequest) list \<Rightarrow> bool \<Rightarrow> session \<Rightarrow> server_state \<Rightarrow>
    (grpc_error + TaskConfig) \<times> session \<times> server_state" where
  "Run H incoming cancelled s S =
     (case read_loop H incoming s S of
        (Some e, s, S) \<Rightarrow> (Inl e, s, S)
      | (None, s, S) \<Rightarrow>
          if cancelled then (Inl (CANCELLED, ''Client cancelled request.''), s, S)
          else if \<not> ss_received s then (Inl (INVALID_ARGUMENT, ''TaskConfig payload is missing!''), s, S)
          else (Inr (ss_config s), CloseCurrentFile s, S))"

definition DownloadWorkspace :: "host \<Rightarrow> (bool \<times> TaskRequest) list \<Rightarrow> bool \<Rightarrow> path \<Rightarrow> server_state \<Rightarrow>
    (grpc_error + TaskConfig) \<times> session \<times> server_state" where
  "DownloadWorkspace H incoming cancelled workspace_root S = Run H incoming cancelled (new_session workspace_root) S"

section \<open>What an upload may change\<close>

lemma view_of_no_links: "no_links (view_of fs)"
  by (simp add: no_links_def view_of_def)

text \<open>The invariant of a session.\<close>

definition session_ok :: "session \<Rightarrow> bool" where
  "session_ok s \<longleftrightarrow> abs_dir (ss_root s) \<and>
     (ss_received s \<longrightarrow> abs_norm (rp_workspace_path (ss_paths s)) \<and>
        has_prefix (names (ss_root s)) (names (rp_workspace_path (ss_paths s)))) \<and>
     (\<forall>p. ss_outfile s = Some p \<longrightarrow> ss_received s \<and> ss_current s = p \<and> \<not> trail p \<and>
        has_prefix (names (rp_workspace_path (ss_paths s))) (names p))"

text \<open>From one file system to another only what is below a directory changes, and directories above it appear.\<close>

definition changed_below :: "string list \<Rightarrow> files \<Rightarrow> files \<Rightarrow> bool" where
  "changed_below ws fs fs' \<longleftrightarrow> (\<forall>ns. fs' ns = fs ns \<or> has_prefix ws ns \<or>
     (has_prefix ns ws \<and> fs ns = None \<and> fs' ns = Some Dir))"

lemma changed_below_refl [simp]: "changed_below ws fs fs"
  by (simp add: changed_below_def)

lemma changed_belowD:
  "changed_below ws fs fs' \<Longrightarrow> \<not> has_prefix ws ns \<Longrightarrow> \<not> has_prefix ns ws \<Longrightarrow> fs' ns = fs ns"
  by (auto simp: changed_below_def)

lemma changed_below_trans:
  "changed_below ws fs fs' \<Longrightarrow> changed_below ws fs' fs'' \<Longrightarrow> changed_below ws fs fs''"
  by (auto simp: changed_below_def) metis+

lemma prefix_linear: "has_prefix ls ns \<Longrightarrow> has_prefix ms ns \<Longrightarrow> has_prefix ls ms \<or> has_prefix ms ls"
  by (auto simp: has_prefix_append append_eq_append_conv2)

lemma parent_prefix: "has_prefix (names (parent_path p)) (names p)"
proof (cases "trail p \<or> names p = []")
  case False
  then have "names p = butlast (names p) @ [last (names p)]" by simp
  then show ?thesis using False has_prefix_app [of "butlast (names p)" "[last (names p)]"]
    by (simp add: parent_path_def)
qed (auto simp: parent_path_def)

lemma create_changed:
  assumes "create_directories H (parent_path p) fs = Some fs'" "has_prefix ws (names p)"
  shows "changed_below ws fs fs'"
  using create_directories_some [OF assms(1)] prefix_linear [OF _ assms(2)]
    has_prefix_trans [OF _ parent_prefix, of _ p]
  by (auto simp: changed_below_def)

lemma open_changed: "open_trunc H p fs = Some fs' \<Longrightarrow> has_prefix ws (names p) \<Longrightarrow> changed_below ws fs fs'"
  by (auto simp: changed_below_def open_trunc_def split: if_splits)

lemma write_changed: "write_stream H p b fs = Some fs' \<Longrightarrow> has_prefix ws (names p) \<Longrightarrow> changed_below ws fs fs'"
  by (auto simp: changed_below_def write_stream_def split: if_splits option.splits node.splits)

lemma HandleConfig_facts:
  assumes "HandleConfig c s S = (e, s', S')" "session_ok s"
  shows "session_ok s' \<and> ss_root s' = ss_root s \<and> sv_files S' = sv_files S \<and>
    (ss_received s \<longrightarrow> ss_received s' \<and> ss_paths s' = ss_paths s)"
proof (cases "ss_received s")
  case True
  then show ?thesis using assms by (auto simp: HandleConfig_def)
next
  case False
  note F = this
  have out: "ss_outfile s = None" using assms(2) False by (auto simp: session_ok_def)
  show ?thesis
  proof (cases "ResolveTaskPaths (view_of (sv_files S)) (ss_root s) c")
    case (Inl x)
    then show ?thesis using assms F out by (auto simp: HandleConfig_def session_ok_def)
  next
    case (Inr rp)
    have d: "abs_dir (ss_root s)" using assms(2) by (simp add: session_ok_def)
    note r = resolve_ok [OF Inr d]
    obtain e1 g l where a: "Acquire (rp_workspace_subdir rp) (ss_guard s) (sv_locked S) = (e1, g, l)"
      by (rule prod_cases3)
    show ?thesis
      using assms(1) F out Inr r d a
      by (cases e1) (auto simp: HandleConfig_def session_ok_def has_prefix_append)
  qed
qed

lemma EnsureOutputFile_facts:
  assumes "EnsureOutputFile H p start s S = (e, s', S')" "session_ok s" "ss_received s"
    "has_prefix (names (rp_workspace_path (ss_paths s))) (names p)"
  shows "session_ok s' \<and> ss_root s' = ss_root s \<and> ss_received s' \<and> ss_paths s' = ss_paths s \<and>
    changed_below (names (rp_workspace_path (ss_paths s))) (sv_files S) (sv_files S')"
proof (cases "ss_outfile s = None \<or> start \<or> p \<noteq> ss_current s")
  case False
  then show ?thesis using assms by (simp add: EnsureOutputFile_def)
next
  case True
  then have e: "EnsureOutputFile H p start s S =
      (let s = CloseCurrentFile s
        in case create_directories H (parent_path p) (sv_files S) of
             None \<Rightarrow> (Some (INTERNAL, ''Failed to prepare workspace directory!''), s, S)
           | Some fs \<Rightarrow>
               (case open_trunc H p fs of
                  None \<Rightarrow> (Some (INTERNAL, ''Failed to open file for writing!''), s, S\<lparr>sv_files := fs\<rparr>)
                | Some fs \<Rightarrow> (None, s\<lparr>ss_outfile := Some p, ss_current := p\<rparr>, S\<lparr>sv_files := fs\<rparr>)))"
    by (simp add: EnsureOutputFile_def)
  show ?thesis
  proof (cases "create_directories H (parent_path p) (sv_files S)")
    case None
    then show ?thesis using assms unfolding e by (auto simp: CloseCurrentFile_def session_ok_def)
  next
    case (Some fs)
    note c = create_changed [OF Some assms(4)]
    show ?thesis
    proof (cases "open_trunc H p fs")
      case None
      then show ?thesis using assms Some c unfolding e by (auto simp: CloseCurrentFile_def session_ok_def)
    next
      case (Some fs')
      moreover have "\<not> trail p" using Some by (simp add: open_trunc_def split: if_splits)
      ultimately show ?thesis
        using assms \<open>create_directories H (parent_path p) (sv_files S) = Some fs\<close>
          changed_below_trans [OF c open_changed [OF Some assms(4)]]
        unfolding e by (auto simp: CloseCurrentFile_def session_ok_def)
    qed
  qed
qed

lemma write_chunk_facts:
  assumes "write_chunk H b s S = (e, S')" "session_ok s"
  shows "changed_below (names (rp_workspace_path (ss_paths s))) (sv_files S) (sv_files S')"
  using assms write_changed
  by (auto simp: write_chunk_def session_ok_def split: if_splits option.splits)

text \<open>IsSubPath against a normal directory, with or without a last separator.\<close>

lemma sub_path_prefix:
  assumes "abs_norm base" "root p" "IsSubPath base p"
  shows "has_prefix (names base) (names p)"
proof -
  obtain zs where e: "names p @ (if trail p then [[]] else []) = names base @ zs"
    using assms(3) elems_norm [OF assms(1)] assms(2)
    by (auto simp: IsSubPath_def is_prefix_elems_prefix elems_def)
  have ne: "[] \<notin> set (names base)" using assms(1) by (auto simp: abs_norm_def plain_def)
  show ?thesis
  proof (cases "trail p")
    case False
    then show ?thesis using e by (auto simp: has_prefix_append)
  next
    case True
    then have e': "names p @ [[]] = names base @ zs" using e by simp
    show ?thesis
    proof (cases zs rule: rev_cases)
      case Nil
      then have "[] \<in> set (names base)" using e' by (metis append_Nil2 in_set_conv_decomp)
      then show ?thesis using ne by simp
    next
      case (snoc zs' z)
      then show ?thesis using e' by (auto simp: has_prefix_append)
    qed
  qed
qed

lemma normalized_root: "root base \<Longrightarrow> root (LexicallyNormalized base q)"
proof -
  assume "root base"
  then have "root (path_append base q)" by simp
  then show ?thesis
    by (simp add: LexicallyNormalized_def lexically_normal_def norm_finish_def)
qed

lemma normalized_norm: "abs_norm base \<Longrightarrow> abs_norm (LexicallyNormalized base (parse_path s))"
proof -
  assume b: "abs_norm base"
  then have "wf_path base" by (auto simp: abs_norm_def wf_path_def plain_def)
  then have w: "wf_path (path_append base (parse_path s))" by (rule path_append_wf [OF _ parse_path_wf])
  have r: "root (path_append base (parse_path s))" using b by (simp add: abs_norm_def)
  show ?thesis unfolding LexicallyNormalized_def abs_norm_def using abs_normal [OF w r] by simp
qed

lemma HandleFileChunk_facts:
  assumes "HandleFileChunk H c s S = (e, s', S')" "session_ok s"
  shows "session_ok s' \<and> ss_root s' = ss_root s \<and> ss_received s' = ss_received s \<and> ss_paths s' = ss_paths s \<and>
    changed_below (names (rp_workspace_path (ss_paths s))) (sv_files S) (sv_files S') \<and>
    (\<not> ss_received s \<longrightarrow> S' = S)"
proof -
  let ?W = "rp_workspace_path (ss_paths s)"
  let ?t = "LexicallyNormalized ?W (parse_path (relative_path c))"
  show ?thesis
  proof (cases "ss_received s \<and> relative_path c \<noteq> [] \<and> IsSubPath ?W ?t")
    case False
    then show ?thesis using assms by (auto simp: HandleFileChunk_def Let_def split: if_splits)
  next
    case True
    obtain e1 s1 S1 where o: "EnsureOutputFile H ?t (file_start c) s S = (e1, s1, S1)" by (rule prod_cases3)
    have W: "abs_norm ?W" using assms(2) True by (simp add: session_ok_def)
    then have "root ?W" by (simp add: abs_norm_def)
    then have px: "has_prefix (names ?W) (names ?t)"
      by (intro sub_path_prefix [OF W]) (use True normalized_root in auto)
    note f = EnsureOutputFile_facts [OF o assms(2) _ px]
    obtain e2 S2 where w: "write_chunk H (fc_data c) s1 S1 = (e2, S2)" by (rule prod.exhaust)
    have g: "changed_below (names ?W) (sv_files S1) (sv_files S2)"
      using write_chunk_facts [OF w] f True by simp
    have x: "HandleFileChunk H c s S =
       (if e1 \<noteq> None then (e1, s1, S1) else (e2, if e2 = None \<and> file_end c then CloseCurrentFile s1 else s1, S2))"
      using True o w by (cases e1; cases e2) (simp_all add: HandleFileChunk_def)
    have cl: "session_ok s1 \<Longrightarrow> session_ok (CloseCurrentFile s1)"
      by (simp add: session_ok_def CloseCurrentFile_def)
    have "s' = s1 \<or> s' = CloseCurrentFile s1" "S' = S1 \<or> S' = S2"
      using x assms(1) by (auto split: if_splits)
    then show ?thesis using f g cl True changed_below_trans [OF _ g]
      by (auto simp: CloseCurrentFile_def)
  qed
qed

definition upload_frame :: "session \<Rightarrow> server_state \<Rightarrow> session \<Rightarrow> server_state \<Rightarrow> bool" where
  "upload_frame s S s' S' \<longleftrightarrow> session_ok s' \<and> ss_root s' = ss_root s \<and>
     (ss_received s \<longrightarrow> ss_received s' \<and> ss_paths s' = ss_paths s) \<and>
     (if ss_received s' then changed_below (names (rp_workspace_path (ss_paths s'))) (sv_files S) (sv_files S')
      else sv_files S' = sv_files S)"

lemma upload_frame_refl: "session_ok s \<Longrightarrow> upload_frame s S s S"
  by (simp add: upload_frame_def)

lemma upload_frame_trans:
  "upload_frame s S s1 S1 \<Longrightarrow> upload_frame s1 S1 s2 S2 \<Longrightarrow> upload_frame s S s2 S2"
  by (auto simp: upload_frame_def split: if_splits intro: changed_below_trans)

lemma handle_request_frame:
  "handle_request H r s S = (e, s', S') \<Longrightarrow> session_ok s \<Longrightarrow> upload_frame s S s' S'"
  using HandleConfig_facts [of _ s S e s' S'] HandleFileChunk_facts [of H _ s S e s' S']
  by (cases r) (auto simp: handle_request_def upload_frame_def)

lemma read_loop_frame:
  "read_loop H rs s S = (e, s', S') \<Longrightarrow> session_ok s \<Longrightarrow> upload_frame s S s' S'"
proof (induction rs arbitrary: s S)
  case (Cons r rs)
  obtain c q where r: "r = (c, q)" by (rule prod.exhaust)
  obtain e1 s1 S1 where h: "handle_request H q s S = (e1, s1, S1)" by (rule prod_cases3)
  have f: "upload_frame s S s1 S1" by (rule handle_request_frame [OF h Cons.prems(2)])
  show ?case
  proof (cases "c \<or> e1 \<noteq> None")
    case True
    then show ?thesis using Cons.prems f r h upload_frame_refl by (cases c) auto
  next
    case False
    then have "\<not> c" "e1 = None" by (cases e1; simp)+
    then have l: "read_loop H rs s1 S1 = (e, s', S')" using Cons.prems(1) r h by simp
    have "session_ok s1" using f by (simp add: upload_frame_def)
    then show ?thesis by (rule upload_frame_trans [OF f Cons.IH [OF l]])
  qed
qed (simp add: upload_frame_refl)

lemma new_session_ok: "abs_dir r \<Longrightarrow> session_ok (new_session r)"
  by (simp add: session_ok_def new_session_def)

section \<open>Properties\<close>

text \<open>C9. Uploads are confined, whatever a client sends: a stream of any requests, in any order, changes
  nothing in the file system unless its configuration was accepted, and then only what is at or
  below its workspace directory, inside the server's workspace; above it only missing
  directories appear.\<close>

theorem upload_confined:
  assumes "abs_dir base" "DownloadWorkspace H incoming cancelled base S = (res, s', S')"
  shows "(\<not> ss_received s' \<and> sv_files S' = sv_files S) \<or>
    (ss_received s' \<and> has_prefix (names base) (names (rp_workspace_path (ss_paths s'))) \<and>
     changed_below (names (rp_workspace_path (ss_paths s'))) (sv_files S) (sv_files S'))"
proof -
  obtain e s1 S1 where l: "read_loop H incoming (new_session base) S = (e, s1, S1)" by (rule prod_cases3)
  have f: "upload_frame (new_session base) S s1 S1" by (rule read_loop_frame [OF l new_session_ok [OF assms(1)]])
  have "ss_received s' = ss_received s1 \<and> ss_paths s' = ss_paths s1 \<and> S' = S1"
    using assms(2) l
    by (cases e) (auto simp: DownloadWorkspace_def Run_def CloseCurrentFile_def split: if_splits)
  then show ?thesis using f by (auto simp: upload_frame_def session_ok_def new_session_def)
qed

text \<open>A request of the examples, and a file system with the server's workspace.\<close>

definition chunk_of :: "string \<Rightarrow> string \<Rightarrow> bool \<Rightarrow> bool \<Rightarrow> TaskRequest" where
  "chunk_of path bytes start final =
     FileChunk \<lparr>fc_data = bytes, relative_path = path, file_start = start, file_end = final, file_size = 0\<rparr>"

definition demo_server :: server_state where
  "demo_server = \<lparr>sv_locked = {}, sv_files = (\<lambda>ns. if has_prefix ns (names demo_root) then Some Dir else None)\<rparr>"

theorem upload_confined_witness:
  "fst (DownloadWorkspace quiet_host [(False, Config (task_in ''job'' [])), (False, chunk_of ''../x'' ''hi'' True True)]
     False demo_root demo_server) = Inl (PERMISSION_DENIED, ''File path escapes uploaded workspace!'') \<and>
   sv_files (snd (snd (DownloadWorkspace quiet_host
     [(False, Config (task_in ''job'' [])), (False, chunk_of ''../x'' ''hi'' True True)]
     False demo_root demo_server))) [''srv'', ''x''] = None"
proof -
  let ?in = "[(False, Config (task_in ''job'' [])), (False, chunk_of ''../x'' ''hi'' True True)]"
  obtain res s' S' where d: "DownloadWorkspace quiet_host ?in False demo_root demo_server = (res, s', S')"
    by (rule prod_cases3)
  have "case DownloadWorkspace quiet_host ?in False demo_root demo_server of (r, s, S) \<Rightarrow>
      r = Inl (PERMISSION_DENIED, ''File path escapes uploaded workspace!'') \<and>
      names (rp_workspace_path (ss_paths s)) = [''srv'', ''workspace'', ''job'']"
    by code_simp
  then have f: "res = Inl (PERMISSION_DENIED, ''File path escapes uploaded workspace!'')"
      "names (rp_workspace_path (ss_paths s')) = [''srv'', ''workspace'', ''job'']"
    using d by simp_all
  have "sv_files demo_server [''srv'', ''x''] = None" by code_simp
  moreover have "sv_files S' [''srv'', ''x''] = sv_files demo_server [''srv'', ''x'']"
    using upload_confined [OF demo_root_abs d] f(2)
      changed_belowD [of "[''srv'', ''workspace'', ''job'']" _ _ "[''srv'', ''x'']"] by auto
  ultimately show ?thesis using f d by simp
qed

text \<open>A workspace directory given with a last slash is accepted, locked and then refuses every file: the
  elements of its path end with an empty one, which no file path below it has, so that every
  chunk is answered with an error.\<close>

theorem trailing_slash_refuses_files:
  assumes "session_ok s" "ss_received s" "trail (rp_workspace_path (ss_paths s))"
  shows "fst (HandleFileChunk H chunk s S) \<noteq> None"
proof -
  let ?W = "rp_workspace_path (ss_paths s)"
  let ?t = "LexicallyNormalized ?W (parse_path (relative_path chunk))"
  have W: "abs_norm ?W" using assms(1,2) by (simp add: session_ok_def)
  have t: "abs_norm ?t" by (rule normalized_norm [OF W])
  show ?thesis
  proof (cases "IsSubPath ?W ?t")
    case False
    then show ?thesis using assms(2) by (simp add: HandleFileChunk_def Let_def)
  next
    case True
    then obtain zs where "names ?t @ (if trail ?t then [[]] else []) = names ?W @ [[]] @ zs"
      using elems_norm [OF W] elems_norm [OF t] assms(3) by (auto simp: IsSubPath_def is_prefix_elems_prefix)
    moreover have "[] \<notin> set (names ?t)" using t by (auto simp: abs_norm_def plain_def)
    ultimately have tr: "trail ?t" by (cases "trail ?t") simp_all
    then have "ss_outfile s = None \<or> ?t \<noteq> ss_current s"
      using assms(1) by (auto simp: session_ok_def)
    moreover have "open_trunc H ?t fs = None" for fs using tr by (simp add: open_trunc_def)
    ultimately obtain e s' S' where "EnsureOutputFile H ?t (file_start chunk) s S = (Some e, s', S')"
      by (cases "create_directories H (parent_path ?t) (sv_files S)") (auto simp: EnsureOutputFile_def Let_def)
    then show ?thesis using True assms(2) by (simp add: HandleFileChunk_def Let_def)
  qed
qed

theorem trailing_slash_refuses_files_witness:
  "\<exists>s S. fst (snd (DownloadWorkspace quiet_host [(False, Config (task_in ''job/'' []))] False demo_root demo_server)) = s \<and>
     ss_received s \<and> fst (HandleFileChunk quiet_host \<lparr>fc_data = ''hi'', relative_path = ''f'', file_start = True,
       file_end = True, file_size = 2\<rparr> s S) \<noteq> None"
proof -
  let ?in = "[(False, Config (task_in ''job/'' []))]"
  obtain res s' S' where d: "DownloadWorkspace quiet_host ?in False demo_root demo_server = (res, s', S')"
    by (rule prod_cases3)
  have f: "case DownloadWorkspace quiet_host ?in False demo_root demo_server of (r, s, S) \<Rightarrow>
      ss_received s \<and> trail (rp_workspace_path (ss_paths s)) \<and> ss_outfile s = None \<and>
      ss_root s = demo_root \<and> names (rp_workspace_path (ss_paths s)) = [''srv'', ''workspace'', ''job''] \<and>
      root (rp_workspace_path (ss_paths s)) \<and> names demo_root = [''srv'', ''workspace'']"
    by code_simp
  then have "session_ok s'" using d demo_root_abs by (simp add: session_ok_def abs_norm_def plain_def)
  then show ?thesis using trailing_slash_refuses_files [of s'] f d by auto
qed

end
