(* ===== verification/ClientStream.thy ===== *)
theory ClientStream
  imports Upload
begin

text \<open>
  The sending half of a submission, client/client_api.cc: the files of a directory cut into
  chunks (StreamWorkspaceFiles), the progress lines (UploadProgress) and the configuration
  message (SendTaskConfig). The stream to the server accepts a number of messages and then
  breaks, as Write does when the call has ended.
\<close>

definition kChunkSize :: nat where
  "kChunkSize = 1024 * 1024"

text \<open>A number this large is left as it is when a run is evaluated.\<close>

declare kChunkSize_def [code del]

record UploadFileSpec =
  local_path :: string
  spec_relative_path :: string

record task_stream =
  sent :: "TaskRequest list"
  capacity :: nat

definition Write :: "TaskRequest \<Rightarrow> task_stream \<Rightarrow> bool \<times> task_stream" where
  "Write r st = (if length (sent st) < capacity st then (True, st\<lparr>sent := sent st @ [r]\<rparr>) else (False, st))"

section \<open>UploadProgress\<close>

record UploadProgress =
  bytes_sent :: int
  total_bytes :: int
  next_percent :: int
  reports :: "(int \<times> int \<times> int) list"

definition new_progress :: "int \<Rightarrow> UploadProgress" where
  "new_progress n_total = \<lparr>bytes_sent = 0, total_bytes = n_total, next_percent = 10, reports = []\<rparr>"

function next_step :: "int \<Rightarrow> int \<Rightarrow> int" where
  "next_step percent next = (if percent \<ge> next then next_step percent (next + 10) else next)"
  by pat_completeness auto
termination by (relation "measure (\<lambda>(p, n). nat (p - n + 10))") auto

declare next_step.simps [simp del]

definition Report :: "bool \<Rightarrow> UploadProgress \<Rightarrow> UploadProgress" where
  "Report force p =
     (if total_bytes p < 0 \<or> total_bytes p \<le> 0 then p
      else
        let percent = (bytes_sent p * 100) div total_bytes p
        in if \<not> force \<and> percent < next_percent p \<and> bytes_sent p \<noteq> total_bytes p then p
           else p\<lparr>reports := reports p @ [(bytes_sent p, total_bytes p, percent)],
                  next_percent := next_step percent (next_percent p)\<rparr>)"

section \<open>StreamWorkspaceFiles\<close>

record XSchedConfig =
  xs_enabled :: bool
  xs_utilization :: int

definition SendTaskConfig :: "string \<Rightarrow> string \<Rightarrow> string \<Rightarrow> bool \<Rightarrow> XSchedConfig option \<Rightarrow> task_stream \<Rightarrow>
    bool \<times> task_stream" where
  "SendTaskConfig ws cmd out pty xsched st =
     (let config = \<lparr>workspace_subdir = ws, command = cmd, output_subdir = out, enable_pty = pty,
           xsched_enabled = False, xsched_policy = [], xsched_utilization = 0, xsched_timeslice_us = 0\<rparr>;
          config = (case xsched of
             Some x \<Rightarrow> if xs_enabled x then
                 (let config = config\<lparr>xsched_enabled := True\<rparr>
                  in if xs_utilization x \<ge> 0 then config\<lparr>xsched_utilization := xs_utilization x\<rparr> else config)
               else config
           | None \<Rightarrow> config)
      in Write (Config config) st)"

definition make_chunk :: "string \<Rightarrow> int \<Rightarrow> string \<Rightarrow> bool \<Rightarrow> bool \<Rightarrow> TaskRequest" where
  "make_chunk rel declared bytes first eof =
     FileChunk \<lparr>fc_data = bytes, relative_path = rel, file_start = first, file_end = eof,
       file_size = (if first \<and> declared \<ge> 0 then declared else 0)\<rparr>"

text \<open>
  The reads of one file, by what is left of it: a read that reaches the end sets eof; a read of
  a last full chunk does not, and the next one returns nothing.
\<close>

function stream_file :: "nat \<Rightarrow> string \<Rightarrow> int \<Rightarrow> string \<Rightarrow> bool \<Rightarrow> task_stream \<Rightarrow> UploadProgress \<Rightarrow>
    bool \<times> task_stream \<times> UploadProgress" where
  "stream_file n rel declared rest first st p =
     (if take n rest = [] then (True, st, p)
      else
        let bytes = take n rest; eof = length rest < n;
            p = Report False (p\<lparr>bytes_sent := bytes_sent p + int (length bytes)\<rparr>);
            (ok, st) = Write (make_chunk rel declared bytes first eof) st
        in if \<not> ok then (False, st, p)
           else if eof then (True, st, p)
           else stream_file n rel declared (drop n rest) False st p)"
  by pat_completeness auto
termination
  by (relation "measure (\<lambda>(n, rel, declared, rest, first, st, p). length rest)") auto

declare stream_file.simps [simp del]

record local_files =
  lf_open :: "string \<Rightarrow> string option"
  lf_size :: "string \<Rightarrow> nat option"

fun StreamWorkspaceFiles :: "nat \<Rightarrow> local_files \<Rightarrow> UploadFileSpec list \<Rightarrow> task_stream \<Rightarrow> UploadProgress \<Rightarrow>
    grpc_error option \<times> task_stream \<times> UploadProgress" where
  "StreamWorkspaceFiles n L [] st p = (None, st, Report True p)"
| "StreamWorkspaceFiles n L (file # files) st p =
     (case lf_open L (local_path file) of
        None \<Rightarrow> (Some (INVALID_ARGUMENT, ''Cannot open file: '' @ local_path file), st, p)
      | Some content \<Rightarrow>
          (let declared = (case lf_size L (local_path file) of None \<Rightarrow> - 1 | Some k \<Rightarrow> int k)
           in case stream_file n (spec_relative_path file) declared content True st p of
                (False, st, p) \<Rightarrow> (Some (ABORTED, ''Failed to stream file contents to the server.''), st, p)
              | (True, st, p) \<Rightarrow> StreamWorkspaceFiles n L files st p))"

section \<open>The messages of a file\<close>

text \<open>What is sent for a file when the stream does not break.\<close>

function read_chunks :: "nat \<Rightarrow> string \<Rightarrow> int \<Rightarrow> string \<Rightarrow> bool \<Rightarrow> TaskRequest list" where
  "read_chunks n rel declared rest first =
     (if take n rest = [] then []
      else make_chunk rel declared (take n rest) first (length rest < n) #
        (if length rest < n then [] else read_chunks n rel declared (drop n rest) False))"
  by pat_completeness auto
termination by (relation "measure (\<lambda>(n, rel, declared, rest, first). length rest)") auto

declare read_chunks.simps [simp del]

definition declared_size :: "local_files \<Rightarrow> UploadFileSpec \<Rightarrow> int" where
  "declared_size L file = (case lf_size L (local_path file) of None \<Rightarrow> - 1 | Some k \<Rightarrow> int k)"

definition content_of :: "local_files \<Rightarrow> UploadFileSpec \<Rightarrow> string" where
  "content_of L file = (case lf_open L (local_path file) of None \<Rightarrow> [] | Some c \<Rightarrow> c)"

definition file_messages :: "nat \<Rightarrow> local_files \<Rightarrow> UploadFileSpec \<Rightarrow> TaskRequest list" where
  "file_messages n L file =
     read_chunks n (spec_relative_path file) (declared_size L file) (content_of L file) True"

lemma bytes_sent_Report [simp]: "bytes_sent (Report b p) = bytes_sent p"
  by (simp add: Report_def Let_def)

lemma total_bytes_Report [simp]: "total_bytes (Report b p) = total_bytes p"
  by (simp add: Report_def Let_def)

lemma stream_file_sends:
  assumes "0 < n" "length (sent st) + length (read_chunks n rel d rest first) \<le> capacity st"
  shows "\<exists>p'. stream_file n rel d rest first st p =
      (True, st\<lparr>sent := sent st @ read_chunks n rel d rest first\<rparr>, p') \<and>
    bytes_sent p' = bytes_sent p + int (length rest)"
  using assms
proof (induction n rel d rest first st p rule: stream_file.induct)
  case (1 n rel d rest first st p)
  show ?case
  proof (cases "take n rest = []")
    case True
    then have "rest = []" using "1.prems"(1) by simp
    then show ?thesis by (simp add: stream_file.simps [of n] read_chunks.simps [of n])
  next
    case False
    let ?c = "make_chunk rel d (take n rest) first (length rest < n)"
    let ?p = "Report False (p\<lparr>bytes_sent := bytes_sent p + int (length (take n rest))\<rparr>)"
    let ?st = "st\<lparr>sent := sent st @ [?c]\<rparr>"
    have r: "read_chunks n rel d rest first =
        ?c # (if length rest < n then [] else read_chunks n rel d (drop n rest) False)"
      using False by (subst read_chunks.simps) simp
    then have w: "Write ?c st = (True, ?st)" using "1.prems"(2) by (simp add: Write_def)
    have e: "stream_file n rel d rest first st p =
        (if length rest < n then (True, ?st, ?p) else stream_file n rel d (drop n rest) False ?st ?p)"
      using False w by (subst stream_file.simps) (simp add: Let_def)
    show ?thesis
    proof (cases "length rest < n")
      case True
      then show ?thesis using e r by (simp add: min_def)
    next
      case long: False
      have "length (sent ?st) + length (read_chunks n rel d (drop n rest) False) \<le> capacity ?st"
        using "1.prems"(2) r long by simp
      then obtain p' where p': "stream_file n rel d (drop n rest) False ?st ?p =
          (True, ?st\<lparr>sent := sent ?st @ read_chunks n rel d (drop n rest) False\<rparr>, p')"
          "bytes_sent p' = bytes_sent ?p + int (length (drop n rest))"
        using "1.IH" [OF False refl refl refl w [symmetric] refl] long "1.prems"(1) by auto
      then show ?thesis using e r long by (simp add: min_def)
    qed
  qed
qed

lemma StreamWorkspaceFiles_sends:
  assumes "0 < n" "\<forall>f\<in>set files. lf_open L (local_path f) \<noteq> None"
    "length (sent st) + length (concat (map (file_messages n L) files)) \<le> capacity st"
  shows "\<exists>p'. StreamWorkspaceFiles n L files st p =
      (None, st\<lparr>sent := sent st @ concat (map (file_messages n L) files)\<rparr>, p') \<and>
    bytes_sent p' = bytes_sent p + int (sum_list (map (\<lambda>f. length (content_of L f)) files))"
  using assms(2,3)
proof (induction files arbitrary: st p)
  case (Cons f files)
  obtain c where c: "lf_open L (local_path f) = Some c" using Cons.prems(1) by auto
  have m: "file_messages n L f = read_chunks n (spec_relative_path f) (declared_size L f) c True"
    using c by (simp add: file_messages_def content_of_def)
  have "length (sent st) + length (read_chunks n (spec_relative_path f) (declared_size L f) c True) \<le> capacity st"
    using Cons.prems(2) m by simp
  from stream_file_sends [OF assms(1) this] obtain p1 where s:
    "stream_file n (spec_relative_path f) (declared_size L f) c True st p =
       (True, st\<lparr>sent := sent st @ file_messages n L f\<rparr>, p1)" "bytes_sent p1 = bytes_sent p + int (length c)"
    unfolding m by blast
  let ?st = "st\<lparr>sent := sent st @ file_messages n L f\<rparr>"
  have "length (sent ?st) + length (concat (map (file_messages n L) files)) \<le> capacity ?st"
    using Cons.prems(2) by simp
  then obtain p' where "StreamWorkspaceFiles n L files ?st p1 =
      (None, ?st\<lparr>sent := sent ?st @ concat (map (file_messages n L) files)\<rparr>, p')"
      "bytes_sent p' = bytes_sent p1 + int (sum_list (map (\<lambda>f. length (content_of L f)) files))"
    using Cons.IH Cons.prems(1) by (metis list.set_intros(2))
  moreover have "content_of L f = c" using c by (simp add: content_of_def)
  ultimately show ?case using s c by (simp add: declared_size_def)
qed simp

section \<open>Properties\<close>

text \<open>Empty files are lost: the loop of StreamWorkspaceFiles sends nothing for a file without content,
  so no request names it and the server never creates it, while the client reports success.\<close>

theorem empty_files_not_sent:
  "StreamWorkspaceFiles n \<lparr>lf_open = \<lambda>_. Some [], lf_size = \<lambda>_. Some 0\<rparr> files st p = (None, st, Report True p)"
  by (induction files) (simp_all add: stream_file.simps)

text \<open>The end of a file is not always marked: when its size is a multiple of the chunk size, the last
  chunk is sent with file_end unset, although the comment says that every chunk carries its
  boundary flags.\<close>

theorem exact_multiple_has_no_end:
  "read_chunks 4 rel d ''abcdefgh'' True =
     [make_chunk rel d ''abcd'' True False, make_chunk rel d ''efgh'' False False]"
  by (simp add: read_chunks.simps)

end
