(* ===== verification/UploadTransfer.thy ===== *)
theory UploadTransfer
  imports ClientStream
begin

text \<open>
  The two halves of an upload together: what StreamWorkspaceFiles of the client sends, the
  download session of the server turns back into the same files.
\<close>

section \<open>One chunk after another\<close>

text \<open>Two sessions that differ in the output stream only.\<close>

definition same_session :: "session \<Rightarrow> session \<Rightarrow> bool" where
  "same_session s s' \<longleftrightarrow> s' = s\<lparr>ss_outfile := ss_outfile s', ss_current := ss_current s'\<rparr>"

lemma same_session_refl [simp]: "same_session s s"
  by (simp add: same_session_def)

lemma same_session_close [simp]: "same_session s (CloseCurrentFile s)"
  by (simp add: same_session_def CloseCurrentFile_def)

lemma same_session_trans: "same_session a b \<Longrightarrow> same_session b c \<Longrightarrow> same_session a c"
  by (cases a; cases b; cases c) (simp add: same_session_def)

lemma same_session_fields:
  "same_session s s' \<Longrightarrow> ss_paths s' = ss_paths s \<and> ss_received s' = ss_received s \<and> ss_config s' = ss_config s"
  by (cases s; cases s') (simp add: same_session_def)

text \<open>The path of an uploaded file, as the check of HandleFileChunk accepts it.\<close>

definition target_ok :: "session \<Rightarrow> string \<Rightarrow> path \<Rightarrow> bool" where
  "target_ok s rel t \<longleftrightarrow> ss_received s \<and> rel \<noteq> [] \<and>
     LexicallyNormalized (rp_workspace_path (ss_paths s)) (parse_path rel) = t \<and>
     IsSubPath (rp_workspace_path (ss_paths s)) t"

lemma target_ok_same: "same_session s s' \<Longrightarrow> target_ok s rel t \<Longrightarrow> target_ok s' rel t"
  using same_session_fields [of s s'] by (simp add: target_ok_def)

lemma quiet_write:
  "fs (names t) = Some (File d) \<Longrightarrow> write_stream quiet_host t b fs = Some (fs(names t \<mapsto> File (d @ b)))"
  by (simp add: write_stream_def quiet_host_def)

lemma append_chunk:
  assumes "target_ok s rel t" "ss_outfile s = Some t" "ss_current s = t"
    "sv_files S (names t) = Some (File d)" "b \<noteq> []"
  shows "handle_request quiet_host (make_chunk rel k b False eof) s S =
    (None, if eof then CloseCurrentFile s else s, S\<lparr>sv_files := (sv_files S)(names t \<mapsto> File (d @ b))\<rparr>)"
  using assms quiet_write [of "sv_files S" t d b]
  by (simp add: handle_request_def make_chunk_def HandleFileChunk_def target_ok_def EnsureOutputFile_def
      write_chunk_def)

lemma append_chunks:
  assumes "0 < n" "target_ok s rel t" "ss_outfile s = Some t" "ss_current s = t"
    "sv_files S (names t) = Some (File d)"
  shows "\<exists>s'. same_session s s' \<and>
    read_loop quiet_host (map (Pair False) (read_chunks n rel k rest False) @ later) s S =
    read_loop quiet_host later s' (S\<lparr>sv_files := (sv_files S)(names t \<mapsto> File (d @ rest))\<rparr>)"
  using assms
proof (induction "length rest" arbitrary: rest s S d rule: less_induct)
  case less
  show ?case
  proof (cases "rest = []")
    case True
    have "(sv_files S)(names t \<mapsto> File d) = sv_files S" using less.prems(5) by auto
    then have "S\<lparr>sv_files := (sv_files S)(names t \<mapsto> File d)\<rparr> = S" by simp
    then show ?thesis using True by (intro exI [of _ s]) (simp add: read_chunks.simps)
  next
    case False
    then have b: "take n rest \<noteq> []" using less.prems(1) by simp
    let ?S = "S\<lparr>sv_files := (sv_files S)(names t \<mapsto> File (d @ take n rest))\<rparr>"
    have h: "handle_request quiet_host (make_chunk rel k (take n rest) False eof) s S =
        (None, if eof then CloseCurrentFile s else s, ?S)" for eof
      by (rule append_chunk [OF less.prems(2-5) b])
    show ?thesis
    proof (cases "length rest < n")
      case True
      then have "read_loop quiet_host (map (Pair False) (read_chunks n rel k rest False) @ later) s S =
          read_loop quiet_host later (CloseCurrentFile s) ?S"
        using b h by (subst read_chunks.simps) simp
      then show ?thesis using True by (intro exI [of _ "CloseCurrentFile s"]) simp
    next
      case long: False
      have r: "read_loop quiet_host (map (Pair False) (read_chunks n rel k rest False) @ later) s S =
          read_loop quiet_host (map (Pair False) (read_chunks n rel k (drop n rest) False) @ later) s ?S"
        using b h long by (subst read_chunks.simps) simp
      have "sv_files ?S (names t) = Some (File (d @ take n rest))" by simp
      from less.hyps [OF _ less.prems(1-4) this, of "drop n rest"]
      obtain s' where "same_session s s'"
        "read_loop quiet_host (map (Pair False) (read_chunks n rel k (drop n rest) False) @ later) s ?S =
         read_loop quiet_host later s' (?S\<lparr>sv_files := (sv_files ?S)(names t \<mapsto> File ((d @ take n rest) @ drop n rest))\<rparr>)"
        using False less.prems(1) by auto
      then show ?thesis using r by (intro exI [of _ s']) simp
    qed
  qed
qed

text \<open>The first chunk opens the file, whatever was open before.\<close>

lemma start_chunk:
  assumes "target_ok s rel t" "create_directories quiet_host (parent_path t) (sv_files S) = Some fs1"
    "open_trunc quiet_host t fs1 = Some fs2" "b \<noteq> []"
  shows "handle_request quiet_host (make_chunk rel k b True eof) s S =
    (None, if eof then CloseCurrentFile s else s\<lparr>ss_outfile := Some t, ss_current := t\<rparr>,
     S\<lparr>sv_files := fs1(names t \<mapsto> File b)\<rparr>)"
proof -
  have f: "fs2 = fs1(names t \<mapsto> File [])" using assms(3) by (simp add: open_trunc_def split: if_splits)
  then have "write_stream quiet_host t b fs2 = Some (fs1(names t \<mapsto> File b))"
    using quiet_write [of fs2 t "[]" b] by simp
  then show ?thesis using assms
    by (simp add: handle_request_def make_chunk_def HandleFileChunk_def target_ok_def EnsureOutputFile_def
        write_chunk_def CloseCurrentFile_def)
qed

lemma file_chunks:
  assumes "0 < n" "c \<noteq> []" "target_ok s rel t"
    "create_directories quiet_host (parent_path t) (sv_files S) = Some fs1"
    "open_trunc quiet_host t fs1 = Some fs2"
  shows "\<exists>s'. same_session s s' \<and>
    read_loop quiet_host (map (Pair False) (read_chunks n rel k c True) @ later) s S =
    read_loop quiet_host later s' (S\<lparr>sv_files := fs1(names t \<mapsto> File c)\<rparr>)"
proof -
  have b: "take n c \<noteq> []" using assms(1,2) by simp
  let ?s = "s\<lparr>ss_outfile := Some t, ss_current := t\<rparr>"
  let ?S = "S\<lparr>sv_files := fs1(names t \<mapsto> File (take n c))\<rparr>"
  note h = start_chunk [OF assms(3-5) b]
  show ?thesis
  proof (cases "length c < n")
    case True
    then have "read_loop quiet_host (map (Pair False) (read_chunks n rel k c True) @ later) s S =
        read_loop quiet_host later (CloseCurrentFile s) ?S"
      using b h by (subst read_chunks.simps) simp
    then show ?thesis using True by (intro exI [of _ "CloseCurrentFile s"]) simp
  next
    case False
    then have r: "read_loop quiet_host (map (Pair False) (read_chunks n rel k c True) @ later) s S =
        read_loop quiet_host (map (Pair False) (read_chunks n rel k (drop n c) False) @ later) ?s ?S"
      using b h by (subst read_chunks.simps) simp
    have ss: "same_session s ?s" by (simp add: same_session_def)
    have f: "sv_files ?S (names t) = Some (File (take n c))" by simp
    obtain s' where "same_session ?s s'"
      "read_loop quiet_host (map (Pair False) (read_chunks n rel k (drop n c) False) @ later) ?s ?S =
       read_loop quiet_host later s' (?S\<lparr>sv_files := (sv_files ?S)(names t \<mapsto> File (take n c @ drop n c))\<rparr>)"
      using append_chunks [OF assms(1) target_ok_same [OF ss assms(3)] _ _ f, of k "drop n c" later] by auto
    then show ?thesis using r same_session_trans [OF ss] by (intro exI [of _ s']) simp
  qed
qed

section \<open>The files below a directory\<close>

text \<open>
  Below the directory W are exactly the files of a list, by relative names, and only the
  directories they need; no file is in the way of W.
\<close>

definition holds :: "string list \<Rightarrow> (string list \<times> string) list \<Rightarrow> files \<Rightarrow> bool" where
  "holds W fls fs \<longleftrightarrow>
     (\<forall>ns c. fs (W @ ns) = Some (File c) \<longleftrightarrow> (ns, c) \<in> set fls) \<and>
     (\<forall>ns. fs (W @ ns) = Some Dir \<longrightarrow> ns = [] \<or> (\<exists>r c. (r, c) \<in> set fls \<and> has_prefix ns (butlast r))) \<and>
     (\<forall>ns. has_prefix ns W \<longrightarrow> \<not> is_file (fs ns))"

text \<open>Relative names that can stand beside others: none leads through another.\<close>

definition apart :: "string list \<Rightarrow> (string list \<times> string) list \<Rightarrow> bool" where
  "apart r fls \<longleftrightarrow> (\<forall>r' c'. (r', c') \<in> set fls \<longrightarrow> \<not> has_prefix r r' \<and> \<not> has_prefix r' r)"

lemma is_file_iff: "is_file x \<longleftrightarrow> (\<exists>c. x = Some (File c))"
  by (cases x rule: is_file.cases) auto

lemma butlast_prefix: "has_prefix (butlast r) r"
  by (cases r rule: rev_cases) auto

lemma holds_new_file:
  assumes h: "holds W fls fs" and r: "r \<noteq> []" "apart r fls" and t: "names t = W @ r" "\<not> trail t"
  shows "\<exists>fs1 fs2. create_directories quiet_host (parent_path t) fs = Some fs1 \<and>
    open_trunc quiet_host t fs1 = Some fs2 \<and> holds W (fls @ [(r, c)]) (fs1(names t \<mapsto> File c))"
proof -
  have p: "names (parent_path t) = W @ butlast r" using t r by (simp add: parent_path_def butlast_append)
  have no: "\<not> is_file (fs ns)" if "has_prefix ns (W @ butlast r)" for ns
  proof -
    from prefix_linear [OF that, of W] have "has_prefix ns W \<or> has_prefix W ns" by simp
    then show ?thesis
    proof
      assume "has_prefix ns W"
      then show ?thesis using h by (simp add: holds_def)
    next
      assume "has_prefix W ns"
      then obtain m where 2: "ns = W @ m" by (auto simp: has_prefix_append)
      then have "has_prefix m (butlast r)" using that by (simp add: has_prefix_append)
      then have "has_prefix m r" using has_prefix_trans butlast_prefix by blast
      then have "(m, c') \<notin> set fls" for c' using r(2) by (auto simp: apart_def)
      then show ?thesis using h 2 by (simp add: holds_def is_file_iff)
    qed
  qed
  obtain fs1 where c: "create_directories quiet_host (parent_path t) fs = Some fs1"
    using create_directories_ok [of quiet_host "parent_path t" fs] no p by (auto simp: quiet_host_def)
  have nb: "\<not> has_prefix r (butlast r)" using r(1) by (cases r rule: rev_cases) (auto simp: has_prefix_append)
  have "fs (W @ r) \<noteq> Some Dir"
  proof
    assume "fs (W @ r) = Some Dir"
    then obtain r' c' where "(r', c') \<in> set fls" "has_prefix r (butlast r')" using h r(1) by (auto simp: holds_def)
    then show False using r(2) has_prefix_trans [OF _ butlast_prefix] by (auto simp: apart_def)
  qed
  moreover have "\<not> has_prefix (W @ r) (W @ butlast r)" using nb by (auto simp: has_prefix_append)
  ultimately have "fs1 (names t) \<noteq> Some Dir" using create_directories_some [OF c, of "W @ r"] p t by simp
  moreover have "fs1 (butlast (names t)) = Some Dir"
    using create_directories_dirs [OF c, of "W @ butlast r"] p t r(1) by (simp add: butlast_append)
  ultimately obtain fs2 where o: "open_trunc quiet_host t fs1 = Some fs2"
    using t r(1) by (simp add: open_trunc_def quiet_host_def)
  let ?fs = "fs1(names t \<mapsto> File c)"
  have "(r, c') \<notin> set fls" for c' using r(2) by (auto simp: apart_def)
  then have "?fs (W @ ns) = Some (File d) \<longleftrightarrow> (ns, d) \<in> set (fls @ [(r, c)])" for ns d
    using h create_directories_files [OF c, of "W @ ns" d] t by (auto simp: holds_def)
  moreover have "ns = [] \<or> (\<exists>r' c'. (r', c') \<in> set (fls @ [(r, c)]) \<and> has_prefix ns (butlast r'))"
    if "?fs (W @ ns) = Some Dir" for ns
  proof -
    have "fs1 (W @ ns) = Some Dir" using that t by (auto split: if_splits)
    then have "fs (W @ ns) = Some Dir \<or> has_prefix (W @ ns) (W @ butlast r)"
      using create_directories_some [OF c, of "W @ ns"] p by (auto split: if_splits)
    moreover have "has_prefix (W @ ns) (W @ butlast r) \<Longrightarrow> has_prefix ns (butlast r)"
      by (simp add: has_prefix_append)
    moreover have "fs (W @ ns) = Some Dir \<Longrightarrow>
        ns = [] \<or> (\<exists>r' c'. (r', c') \<in> set fls \<and> has_prefix ns (butlast r'))"
      using h by (simp add: holds_def)
    ultimately show ?thesis by auto
  qed
  moreover have "\<not> is_file (?fs ns)" if "has_prefix ns W" for ns
  proof -
    have "ns \<noteq> names t" using that t r(1) by (auto simp: has_prefix_append)
    then show ?thesis using h that create_directories_files [OF c, of ns] by (simp add: holds_def is_file_iff)
  qed
  ultimately have "holds W (fls @ [(r, c)]) ?fs" by (simp add: holds_def)
  then show ?thesis using c o by blast
qed

section \<open>All files of a directory\<close>

text \<open>What CollectDirectoryFiles gives for a regular file: a relative path of ordinary names.\<close>

definition rel_names :: "UploadFileSpec \<Rightarrow> string list" where
  "rel_names f = names (parse_path (spec_relative_path f))"

definition good_spec :: "UploadFileSpec \<Rightarrow> bool" where
  "good_spec f \<longleftrightarrow> (let q = parse_path (spec_relative_path f)
     in \<not> root q \<and> names q \<noteq> [] \<and> list_all plain (names q) \<and> \<not> trail q)"

definition uploaded :: "local_files \<Rightarrow> UploadFileSpec list \<Rightarrow> (string list \<times> string) list" where
  "uploaded L files = map (\<lambda>f. (rel_names f, content_of L f)) files"

fun separate :: "(string list \<times> string) list \<Rightarrow> bool" where
  "separate [] = True"
| "separate (x # xs) = (list_all (\<lambda>y. \<not> has_prefix (fst x) (fst y) \<and> \<not> has_prefix (fst y) (fst x)) xs \<and> separate xs)"

lemma separate_snoc: "separate (xs @ (r, c) # ys) \<Longrightarrow> apart r xs"
  by (induction xs) (auto simp: apart_def)

lemma good_target:
  assumes "ss_received s" "abs_dir (rp_workspace_path (ss_paths s))" "good_spec f"
  shows "target_ok s (spec_relative_path f)
    ((rp_workspace_path (ss_paths s))\<lparr>names := names (rp_workspace_path (ss_paths s)) @ rel_names f\<rparr>)"
proof -
  let ?q = "parse_path (spec_relative_path f)"
  have q: "\<not> root ?q" "names ?q \<noteq> []" "list_all plain (names ?q)" "\<not> trail ?q"
    using assms(3) by (simp_all add: good_spec_def Let_def)
  have "spec_relative_path f \<noteq> []" using q(2) by (auto simp: parse_path_def)
  moreover note acc = path_accepted [OF assms(2) q]
  moreover note acc [THEN conjunct2, unfolded acc [THEN conjunct1]]
  ultimately show ?thesis using assms(1) by (simp add: target_ok_def rel_names_def)
qed

lemma upload_files:
  assumes "0 < n" "ss_received s" "abs_dir (rp_workspace_path (ss_paths s))"
    "\<forall>f\<in>set files. good_spec f \<and> content_of L f \<noteq> []" "separate (fls @ uploaded L files)"
    "holds (names (rp_workspace_path (ss_paths s))) fls (sv_files S)"
  shows "\<exists>s' S'. same_session s s' \<and> sv_locked S' = sv_locked S \<and>
    read_loop quiet_host (map (Pair False) (concat (map (file_messages n L) files))) s S = (None, s', S') \<and>
    holds (names (rp_workspace_path (ss_paths s))) (fls @ uploaded L files) (sv_files S')"
  using assms(2-6)
proof (induction files arbitrary: fls s S)
  case Nil
  then show ?case by (intro exI [of _ s] exI [of _ S]) (simp add: uploaded_def)
next
  case (Cons f files)
  let ?W = "rp_workspace_path (ss_paths s)"
  let ?t = "?W\<lparr>names := names ?W @ rel_names f\<rparr>"
  let ?c = "content_of L f"
  let ?more = "concat (map (file_messages n L) files)"
  have g: "good_spec f" "?c \<noteq> []" using Cons.prems(3) by simp_all
  have ok: "target_ok s (spec_relative_path f) ?t" by (rule good_target [OF Cons.prems(1,2) g(1)])
  have r: "rel_names f \<noteq> []" using g(1) by (simp add: good_spec_def Let_def rel_names_def)
  have u: "uploaded L (f # files) = (rel_names f, ?c) # uploaded L files" by (simp add: uploaded_def)
  have a: "apart (rel_names f) fls" using Cons.prems(4) unfolding u by (rule separate_snoc)
  have nt: "names ?t = names ?W @ rel_names f" "\<not> trail ?t" using Cons.prems(2) by (simp_all add: abs_dir_def)
  obtain fs1 fs2 where fs: "create_directories quiet_host (parent_path ?t) (sv_files S) = Some fs1"
      "open_trunc quiet_host ?t fs1 = Some fs2" "holds (names ?W) (fls @ [(rel_names f, ?c)]) (fs1(names ?t \<mapsto> File ?c))"
    using holds_new_file [OF Cons.prems(5) r a nt] by blast
  let ?S = "S\<lparr>sv_files := fs1(names ?t \<mapsto> File ?c)\<rparr>"
  obtain s1 where s1: "same_session s s1"
    "read_loop quiet_host (map (Pair False) (file_messages n L f @ ?more)) s S =
     read_loop quiet_host (map (Pair False) ?more) s1 ?S"
    using file_chunks [OF assms(1) g(2) ok fs(1,2)] unfolding file_messages_def map_append by blast
  note sf = same_session_fields [OF s1(1)]
  have h: "holds (names ?W) (fls @ [(rel_names f, ?c)]) (sv_files ?S)" using fs(3) by simp
  have 1: "ss_received s1" "abs_dir (rp_workspace_path (ss_paths s1))" using Cons.prems(1,2) sf by simp_all
  have 2: "\<forall>f\<in>set files. good_spec f \<and> content_of L f \<noteq> []" using Cons.prems(3) by simp
  have 3: "separate ((fls @ [(rel_names f, ?c)]) @ uploaded L files)" using Cons.prems(4) u by simp
  have 4: "holds (names (rp_workspace_path (ss_paths s1))) (fls @ [(rel_names f, ?c)]) (sv_files ?S)"
    using h unfolding sf [THEN conjunct1] .
  note ih = Cons.IH [OF 1 2 3 4]
  show ?case using ih s1 sf u same_session_trans [OF s1(1)] by auto
qed

section \<open>Properties\<close>


definition demo_files :: local_files where
  "demo_files = \<lparr>lf_open = \<lambda>f. if f = ''/t/a'' then Some ''hi'' else if f = ''/t/s/b'' then Some ''xyz'' else None,
     lf_size = \<lambda>_. None\<rparr>"

definition demo_specs :: "UploadFileSpec list" where
  "demo_specs = [\<lparr>local_path = ''/t/a'', spec_relative_path = ''a''\<rparr>,
     \<lparr>local_path = ''/t/s/b'', spec_relative_path = ''s/b''\<rparr>]"


text \<open>Coming back to a file loses it: the comment in EnsureOutputFile allows the stream to switch
  between files at any chunk, but the file is opened with truncation again, so what its earlier
  chunks wrote is gone.\<close>

theorem switching_back_truncates:
  "case DownloadWorkspace quiet_host [(False, Config (task_in ''job'' [])),
       (False, chunk_of ''a'' ''one'' True False), (False, chunk_of ''b'' ''x'' True False),
       (False, chunk_of ''a'' ''two'' False True)] False demo_root demo_server of (r, s, S) \<Rightarrow>
     (case r of Inr c \<Rightarrow> workspace_subdir c = ''job'' | _ \<Rightarrow> False) \<and>
     sv_files S [''srv'', ''workspace'', ''job'', ''a''] = Some (File ''two'')"
  by code_simp

end
