(* ===== verification/Sessions.thy ===== *)
theory Sessions
  imports Upload
begin

text \<open>
  Submissions side by side: each call of TaskSubmission has its own download session and lock
  guard, the table of locked directories and the file system are shared. A call is uploading,
  executing, over (the guard is about to be destroyed), or cleaned (its files are removed, its
  lock is still held): the destructor of the guard removes the files before it takes the mutex.
\<close>

datatype phase = Uploading | Executing | Over | Cleaned

record server =
  srv_state :: server_state
  srv_calls :: "nat \<Rightarrow> (session \<times> phase) option"

datatype server_event =
    Call nat
  | Request nat bool TaskRequest
  | EndOfStream nat bool
  | TaskEnds nat files
  | CleanupFiles nat
  | ReleaseLock nat

definition set_call :: "nat \<Rightarrow> (session \<times> phase) option \<Rightarrow> server_state \<Rightarrow> server \<Rightarrow> server" where
  "set_call i c S srv = srv\<lparr>srv_state := S, srv_calls := (srv_calls srv)(i := c)\<rparr>"

text \<open>One event of one call. None: the event cannot happen.\<close>

fun server_step :: "host \<Rightarrow> path \<Rightarrow> server_event \<Rightarrow> server \<Rightarrow> server option" where
  "server_step H base (Call i) srv =
     (case srv_calls srv i of
        None \<Rightarrow> Some (set_call i (Some (new_session base, Uploading)) (srv_state srv) srv)
      | Some _ \<Rightarrow> None)"
| "server_step H base (Request i cancelled r) srv =
     (case srv_calls srv i of
        Some (s, Uploading) \<Rightarrow>
          if cancelled then Some (set_call i (Some (s, Over)) (srv_state srv) srv)
          else (case handle_request H r s (srv_state srv) of
            (e, s', S') \<Rightarrow> Some (set_call i (Some (s', if e = None then Uploading else Over)) S' srv))
      | _ \<Rightarrow> None)"
| "server_step H base (EndOfStream i cancelled) srv =
     (case srv_calls srv i of
        Some (s, Uploading) \<Rightarrow>
          Some (if cancelled \<or> \<not> ss_received s then set_call i (Some (s, Over)) (srv_state srv) srv
                else set_call i (Some (CloseCurrentFile s, Executing)) (srv_state srv) srv)
      | _ \<Rightarrow> None)"
| "server_step H base (TaskEnds i fs) srv =
     (case srv_calls srv i of
        Some (s, Executing) \<Rightarrow> Some (set_call i (Some (s, Over)) ((srv_state srv)\<lparr>sv_files := fs\<rparr>) srv)
      | _ \<Rightarrow> None)"
| "server_step H base (CleanupFiles i) srv =
     (case srv_calls srv i of
        Some (s, Over) \<Rightarrow>
          (case Cleanup (ss_guard s) (sv_files (srv_state srv)) of
             (g, fs) \<Rightarrow> Some (set_call i (Some (s\<lparr>ss_guard := g\<rparr>, Cleaned)) ((srv_state srv)\<lparr>sv_files := fs\<rparr>) srv))
      | _ \<Rightarrow> None)"
| "server_step H base (ReleaseLock i) srv =
     (case srv_calls srv i of
        Some (s, Cleaned) \<Rightarrow>
          Some (set_call i None ((srv_state srv)\<lparr>sv_locked := snd (Release (ss_guard s) (sv_locked (srv_state srv)))\<rparr>) srv)
      | _ \<Rightarrow> None)"

definition start_server :: "files \<Rightarrow> server" where
  "start_server fs = \<lparr>srv_state = \<lparr>sv_locked = {}, sv_files = fs\<rparr>, srv_calls = (\<lambda>_. None)\<rparr>"

inductive server_reachable :: "host \<Rightarrow> path \<Rightarrow> files \<Rightarrow> server \<Rightarrow> bool" for H base fs where
  init: "server_reachable H base fs (start_server fs)"
| step: "server_reachable H base fs srv \<Longrightarrow> server_step H base e srv = Some srv' \<Longrightarrow>
     server_reachable H base fs srv'"

section \<open>The locks of the calls\<close>

definition key_of :: "(session \<times> phase) option \<Rightarrow> string option" where
  "key_of c = (case c of None \<Rightarrow> None
     | Some (s, ph) \<Rightarrow> if g_locked (ss_guard s) then Some (g_key (ss_guard s)) else None)"

definition own_keys :: "server \<Rightarrow> nat \<Rightarrow> string option" where
  "own_keys srv i = key_of (srv_calls srv i)"

text \<open>A call holds its lock from the accepted configuration on.\<close>

definition call_ok :: "path \<Rightarrow> session \<Rightarrow> bool" where
  "call_ok base s \<longleftrightarrow> session_ok s \<and> ss_root s = base \<and> g_workspace_root (ss_guard s) = base \<and>
     (g_locked (ss_guard s) \<longleftrightarrow> ss_received s) \<and>
     (g_cleanup_registered (ss_guard s) \<longrightarrow> ss_received s \<and>
        g_workspace_subdir (ss_guard s) = rp_workspace_subdir (ss_paths s) \<and>
        g_output_subdir (ss_guard s) = rp_output_subdir (ss_paths s)) \<and>
     (ss_received s \<longrightarrow>
        (\<exists>fs config. ResolveTaskPaths (view_of fs) base config = Inr (ss_paths s)))"

definition server_ok :: "path \<Rightarrow> server \<Rightarrow> bool" where
  "server_ok base srv \<longleftrightarrow> subdirs.owned (own_keys srv) (sv_locked (srv_state srv)) \<and>
     (\<forall>i s ph. srv_calls srv i = Some (s, ph) \<longrightarrow> call_ok base s)"

lemma Acquire_unlocked:
  "\<not> g_locked g \<Longrightarrow> Acquire k g t = (e, g', t') \<Longrightarrow>
     (e = None \<and> try_lock_subdir k t = Some t' \<and> g' = g\<lparr>g_key := k, g_locked := True\<rparr>) \<or>
     (e \<noteq> None \<and> g' = g \<and> t' = t)"
  using Acquire_granted [of g k t g' t'] Acquire_refused [of g k t _ g' t'] by (cases e) auto

lemma HandleConfig_lock:
  assumes "HandleConfig c s S = (e, s', S')" "g_locked (ss_guard s) \<longleftrightarrow> ss_received s"
  shows "(e = None \<and> \<not> ss_received s \<and> ss_received s' \<and> ss_root s' = ss_root s \<and>
      ResolveTaskPaths (view_of (sv_files S)) (ss_root s) c = Inr (ss_paths s') \<and>
      (\<exists>t. try_lock_subdir (rp_workspace_subdir (ss_paths s')) (sv_locked S) = Some t \<and> S' = S\<lparr>sv_locked := t\<rparr>) \<and>
      ss_guard s' = registered (ss_paths s')
        ((ss_guard s)\<lparr>g_key := rp_workspace_subdir (ss_paths s'), g_locked := True\<rparr>)) \<or>
    (e \<noteq> None \<and> ss_received s' = ss_received s \<and> ss_guard s' = ss_guard s \<and> S' = S \<and>
     (ss_received s \<longrightarrow> s' = s))"
proof (cases "ss_received s")
  case True
  then show ?thesis using assms(1) by (auto simp: HandleConfig_def)
next
  case False
  show ?thesis
  proof (cases "ResolveTaskPaths (view_of (sv_files S)) (ss_root s) c")
    case (Inl x)
    then show ?thesis using assms(1) False by (auto simp: HandleConfig_def)
  next
    case (Inr rp)
    obtain e1 g l where a: "Acquire (rp_workspace_subdir rp) (ss_guard s) (sv_locked S) = (e1, g, l)"
      by (rule prod_cases3)
    have "\<not> g_locked (ss_guard s)" using assms(2) False by simp
    from Acquire_unlocked [OF this a] show ?thesis
    proof
      assume x: "e1 = None \<and> try_lock_subdir (rp_workspace_subdir rp) (sv_locked S) = Some l \<and>
        g = (ss_guard s)\<lparr>g_key := rp_workspace_subdir rp, g_locked := True\<rparr>"
      then show ?thesis using assms(1) False Inr a by (auto simp: HandleConfig_def registered_def)
    next
      assume "e1 \<noteq> None \<and> g = ss_guard s \<and> l = sv_locked S"
      then show ?thesis using assms(1) False Inr a by (auto simp: HandleConfig_def)
    qed
  qed
qed

lemma EnsureOutputFile_guard:
  "EnsureOutputFile H p b s S = (e, s', S') \<Longrightarrow> ss_guard s' = ss_guard s \<and> ss_received s' = ss_received s \<and>
     sv_locked S' = sv_locked S"
  by (auto simp: EnsureOutputFile_def CloseCurrentFile_def Let_def split: if_splits option.splits)

lemma write_chunk_locked: "write_chunk H b s S = (e, S') \<Longrightarrow> sv_locked S' = sv_locked S"
  by (auto simp: write_chunk_def split: if_splits option.splits)

lemma HandleFileChunk_guard:
  assumes "HandleFileChunk H c s S = (e, s', S')"
  shows "ss_guard s' = ss_guard s \<and> ss_received s' = ss_received s \<and> sv_locked S' = sv_locked S"
  using assms
  by (auto simp: HandleFileChunk_def CloseCurrentFile_def Let_def
      split: if_splits option.splits prod.splits dest!: EnsureOutputFile_guard write_chunk_locked)

section \<open>The events keep the locks exact\<close>

lemma request_lock:
  assumes "handle_request H r s S = (e, s', S')" "call_ok base s"
  shows "call_ok base s' \<and>
    ((ss_guard s' = ss_guard s \<and> sv_locked S' = sv_locked S) \<or>
     (\<not> g_locked (ss_guard s) \<and> g_locked (ss_guard s') \<and>
      try_lock_subdir (g_key (ss_guard s')) (sv_locked S) = Some (sv_locked S')))"
proof (cases r)
  case (Config c)
  have h: "HandleConfig c s S = (e, s', S')" using assms(1) Config by (simp add: handle_request_def)
  have l: "g_locked (ss_guard s) \<longleftrightarrow> ss_received s" using assms(2) by (simp add: call_ok_def)
  have so: "session_ok s'" "ss_root s' = ss_root s"
    using HandleConfig_facts [OF h] assms(2) by (simp_all add: call_ok_def)
  from HandleConfig_lock [OF h l] show ?thesis
  proof (elim disjE conjE exE)
    fix t
    assume a: "e = None" "\<not> ss_received s" "ss_received s'"
      "ResolveTaskPaths (view_of (sv_files S)) (ss_root s) c = Inr (ss_paths s')"
      "try_lock_subdir (rp_workspace_subdir (ss_paths s')) (sv_locked S) = Some t" "S' = S\<lparr>sv_locked := t\<rparr>"
      "ss_guard s' = registered (ss_paths s')
        ((ss_guard s)\<lparr>g_key := rp_workspace_subdir (ss_paths s'), g_locked := True\<rparr>)"
    have "call_ok base s'" using assms(2) so a(3,4,7)
      by (auto simp: call_ok_def registered_def RegisterCleanupTargets_def)
    then show ?thesis using a l by (simp add: registered_def RegisterCleanupTargets_def)
  next
    assume a: "e \<noteq> None" "ss_received s' = ss_received s" "ss_guard s' = ss_guard s" "S' = S"
      "ss_received s \<longrightarrow> s' = s"
    then show ?thesis using assms(2) so by (auto simp: call_ok_def)
  qed
next
  case (FileChunk c)
  have h: "HandleFileChunk H c s S = (e, s', S')" using assms(1) FileChunk by (simp add: handle_request_def)
  show ?thesis using HandleFileChunk_guard [OF h] HandleFileChunk_facts [OF h] assms(2)
    by (auto simp: call_ok_def)
next
  case NoPayload
  then show ?thesis using assms by (simp add: handle_request_def call_ok_def)
qed

lemma key_of_simps [simp]:
  "key_of None = None"
  "key_of (Some (s, ph)) = (if g_locked (ss_guard s) then Some (g_key (ss_guard s)) else None)"
  by (simp_all add: key_of_def)

lemma own_keys_set: "own_keys (set_call i c S srv) = (own_keys srv)(i := key_of c)"
  by (auto simp: own_keys_def set_call_def)

lemma set_call_fields [simp]:
  "srv_state (set_call i c S srv) = S" "srv_calls (set_call i c S srv) = (srv_calls srv)(i := c)"
  by (simp_all add: set_call_def)

text \<open>A call that goes on with the same lock keeps the server as it should be.\<close>

lemma server_ok_same:
  assumes "server_ok base srv" "srv_calls srv i = Some (s, ph)" "call_ok base s'"
    "g_locked (ss_guard s') = g_locked (ss_guard s)" "g_key (ss_guard s') = g_key (ss_guard s)"
    "sv_locked S = sv_locked (srv_state srv)"
  shows "server_ok base (set_call i (Some (s', ph')) S srv)"
proof -
  have "(own_keys srv)(i := key_of (Some (s', ph'))) = own_keys srv"
    using assms(2,4,5) by (auto simp: own_keys_def)
  then show ?thesis using assms by (auto simp: server_ok_def own_keys_set simp del: key_of_simps)
qed

text \<open>The call an event is about, and what the events do to it.\<close>

lemma call_exists: "server_ok base srv \<Longrightarrow> srv_calls srv i = Some (s, ph) \<Longrightarrow> call_ok base s"
  unfolding server_ok_def by blast

lemma owned_keys: "server_ok base srv \<Longrightarrow> subdirs.owned (own_keys srv) (sv_locked (srv_state srv))"
  unfolding server_ok_def by blast

lemma Call_ok:
  assumes "abs_dir base" "server_ok base srv" "server_step H base (Call i) srv = Some srv'"
  shows "server_ok base srv'"
proof -
  have c: "srv_calls srv i = None" "srv' = set_call i (Some (new_session base, Uploading)) (srv_state srv) srv"
    using assms(3) by (auto split: option.splits)
  have n: "\<not> g_locked (ss_guard (new_session base))" by (simp add: new_session_def)
  have k: "call_ok base (new_session base)"
    using new_session_ok [OF assms(1)] by (simp add: call_ok_def new_session_def new_guard_def)
  have "(own_keys srv)(i := key_of (Some (new_session base, Uploading))) = own_keys srv"
    using c(1) n by (auto simp: own_keys_def)
  then show ?thesis using assms(2) k unfolding c(2) server_ok_def own_keys_set by auto
qed

lemma Request_ok:
  assumes "server_ok base srv" "server_step H base (Request i cancelled r) srv = Some srv'"
  shows "server_ok base srv'"
proof -
  obtain s where s: "srv_calls srv i = Some (s, Uploading)"
    using assms(2) by (auto split: option.splits phase.splits)
  have ok: "call_ok base s" by (rule call_exists [OF assms(1) s])
  show ?thesis
  proof (cases cancelled)
    case True
    then have "srv' = set_call i (Some (s, Over)) (srv_state srv) srv" using assms(2) s by simp
    then show ?thesis using server_ok_same [OF assms(1) s ok] by simp
  next
    case False
    obtain x s' S' where h: "handle_request H r s (srv_state srv) = (x, s', S')" by (rule prod_cases3)
    let ?c = "Some (s', if x = None then Uploading else Over)"
    have e: "srv' = set_call i ?c S' srv" using assms(2) s False h by simp
    note f = request_lock [OF h ok]
    from f [THEN conjunct2] show ?thesis
    proof (elim disjE conjE)
      assume "ss_guard s' = ss_guard s" "sv_locked S' = sv_locked (srv_state srv)"
      then show ?thesis using server_ok_same [OF assms(1) s, of s'] f unfolding e by simp
    next
      assume a: "\<not> g_locked (ss_guard s)" "g_locked (ss_guard s')"
        "try_lock_subdir (g_key (ss_guard s')) (sv_locked (srv_state srv)) = Some (sv_locked S')"
      have "own_keys srv i = None" using a(1) by (simp add: own_keys_def s)
      then have "subdirs.owned ((own_keys srv)(i \<mapsto> g_key (ss_guard s'))) (sv_locked S')"
        by (rule subdirs.owned_lock [OF owned_keys [OF assms(1)] a(3)])
      then show ?thesis using assms(1) f a(2) unfolding e by (auto simp: server_ok_def own_keys_set)
    qed
  qed
qed

lemma EndOfStream_ok:
  assumes "server_ok base srv" "server_step H base (EndOfStream i cancelled) srv = Some srv'"
  shows "server_ok base srv'"
proof -
  obtain s where s: "srv_calls srv i = Some (s, Uploading)"
    using assms(2) by (auto split: option.splits phase.splits)
  have ok: "call_ok base s" by (rule call_exists [OF assms(1) s])
  then have k: "call_ok base (CloseCurrentFile s)"
    by (auto simp: call_ok_def session_ok_def CloseCurrentFile_def)
  have "srv' = set_call i (Some (s, Over)) (srv_state srv) srv \<or>
      srv' = set_call i (Some (CloseCurrentFile s, Executing)) (srv_state srv) srv"
    using assms(2) s by (auto split: if_splits)
  then show ?thesis
    using server_ok_same [OF assms(1) s ok] server_ok_same [OF assms(1) s k]
    by (auto simp: CloseCurrentFile_def)
qed

lemma TaskEnds_ok:
  assumes "server_ok base srv" "server_step H base (TaskEnds i fs) srv = Some srv'"
  shows "server_ok base srv'"
proof -
  obtain s where s: "srv_calls srv i = Some (s, Executing)"
    using assms(2) by (auto split: option.splits phase.splits)
  have "srv' = set_call i (Some (s, Over)) ((srv_state srv)\<lparr>sv_files := fs\<rparr>) srv"
    using assms(2) s by simp
  then show ?thesis using server_ok_same [OF assms(1) s call_exists [OF assms(1) s]] by simp
qed

lemma Cleanup_guard: "fst (Cleanup g fs) = g\<lparr>g_cleanup_registered := False\<rparr>"
  by (cases g) (simp add: Cleanup_def Let_def)

lemma CleanupFiles_ok:
  assumes "server_ok base srv" "server_step H base (CleanupFiles i) srv = Some srv'"
  shows "server_ok base srv'"
proof -
  obtain s where s: "srv_calls srv i = Some (s, Over)"
    using assms(2) by (auto split: option.splits phase.splits)
  obtain g fs where c: "Cleanup (ss_guard s) (sv_files (srv_state srv)) = (g, fs)" by (rule prod.exhaust)
  have g: "g = (ss_guard s)\<lparr>g_cleanup_registered := False\<rparr>"
    using Cleanup_guard [of "ss_guard s" "sv_files (srv_state srv)"] c by simp
  have "call_ok base (s\<lparr>ss_guard := g\<rparr>)"
    using call_exists [OF assms(1) s] g by (auto simp: call_ok_def session_ok_def)
  moreover have "srv' = set_call i (Some (s\<lparr>ss_guard := g\<rparr>, Cleaned)) ((srv_state srv)\<lparr>sv_files := fs\<rparr>) srv"
    using assms(2) s c by simp
  ultimately show ?thesis using server_ok_same [OF assms(1) s, of "s\<lparr>ss_guard := g\<rparr>"] g by simp
qed

lemma ReleaseLock_ok:
  assumes "server_ok base srv" "server_step H base (ReleaseLock i) srv = Some srv'"
  shows "server_ok base srv'"
proof -
  obtain s where s: "srv_calls srv i = Some (s, Cleaned)"
    using assms(2) by (auto split: option.splits phase.splits)
  let ?S = "(srv_state srv)\<lparr>sv_locked := snd (Release (ss_guard s) (sv_locked (srv_state srv)))\<rparr>"
  have e: "srv' = set_call i None ?S srv" using assms(2) s by simp
  have "subdirs.owned ((own_keys srv)(i := None)) (sv_locked ?S)"
  proof (cases "g_locked (ss_guard s)")
    case True
    then have "own_keys srv i = Some (g_key (ss_guard s))" by (simp add: own_keys_def s)
    from subdirs.owned_unlock [OF owned_keys [OF assms(1)] this] show ?thesis
      using Release_unlock [OF True] by simp
  next
    case False
    then have "(own_keys srv)(i := None) = own_keys srv" by (auto simp: own_keys_def s)
    then show ?thesis using False assms(1) by (simp add: server_ok_def Release_def)
  qed
  then show ?thesis using assms(1) unfolding e by (auto simp: server_ok_def own_keys_set)
qed

lemma server_step_ok:
  assumes "abs_dir base" "server_ok base srv" "server_step H base e srv = Some srv'"
  shows "server_ok base srv'"
proof (cases e)
  case (Call i)
  then show ?thesis using Call_ok [OF assms(1,2)] assms(3) by blast
next
  case (Request i c r)
  then show ?thesis using Request_ok [OF assms(2)] assms(3) by blast
next
  case (EndOfStream i c)
  then show ?thesis using EndOfStream_ok [OF assms(2)] assms(3) by blast
next
  case (TaskEnds i fs)
  then show ?thesis using TaskEnds_ok [OF assms(2)] assms(3) by blast
next
  case (CleanupFiles i)
  then show ?thesis using CleanupFiles_ok [OF assms(2)] assms(3) by blast
next
  case (ReleaseLock i)
  then show ?thesis using ReleaseLock_ok [OF assms(2)] assms(3) by blast
qed

lemma start_server_ok: "server_ok base (start_server fs)"
  by (simp add: server_ok_def start_server_def subdirs.owned_def own_keys_def ran_def)

lemma server_reachable_ok: "server_reachable H base fs srv \<Longrightarrow> abs_dir base \<Longrightarrow> server_ok base srv"
proof (induction rule: server_reachable.induct)
  case init
  show ?case by (rule start_server_ok)
next
  case (step srv e srv')
  show ?case by (rule server_step_ok [OF step.prems step.IH [OF step.prems] step.hyps(2)])
qed

section \<open>Properties\<close>


fun run_events :: "host \<Rightarrow> path \<Rightarrow> server_event list \<Rightarrow> server \<Rightarrow> server option" where
  "run_events H base [] srv = Some srv"
| "run_events H base (e # es) srv =
     (case server_step H base e srv of None \<Rightarrow> None | Some srv \<Rightarrow> run_events H base es srv)"

lemma run_events_reachable:
  "server_reachable H base fs srv \<Longrightarrow> run_events H base es srv = Some srv' \<Longrightarrow> server_reachable H base fs srv'"
proof (induction es arbitrary: srv)
  case (Cons e es)
  then show ?case by (auto split: option.splits intro: server_reachable.step)
qed simp

definition demo_events :: "server_event list" where
  "demo_events = [Call 0, Request 0 False (Config (task_in ''a'' [])), Call 1,
     Request 1 False (Config (task_in ''a/.'' [])), Call 2, Request 2 False (Config (task_in ''b'' []))]"

definition demo_run :: "server option" where
  "demo_run = run_events quiet_host demo_root demo_events (start_server (sv_files demo_server))"

lemma demo_run_reachable:
  "demo_run = Some srv \<Longrightarrow> server_reachable quiet_host demo_root (sv_files demo_server) srv"
  unfolding demo_run_def by (rule run_events_reachable [OF server_reachable.init])


text \<open>The directories of a call, once its configuration is accepted, and the call an event is about.\<close>

definition dirs_of :: "server \<Rightarrow> nat \<Rightarrow> string list list" where
  "dirs_of srv i = (case srv_calls srv i of
     Some (s, ph) \<Rightarrow> if ss_received s
       then [names (rp_workspace_path (ss_paths s)), names (rp_output_path (ss_paths s))] else []
   | None \<Rightarrow> [])"

fun actor :: "server_event \<Rightarrow> nat" where
  "actor (Call i) = i"
| "actor (Request i _ _) = i"
| "actor (EndOfStream i _) = i"
| "actor (TaskEnds i _) = i"
| "actor (CleanupFiles i) = i"
| "actor (ReleaseLock i) = i"

fun task_event :: "server_event \<Rightarrow> bool" where
  "task_event (TaskEnds _ _) = True"
| "task_event _ = False"

definition outside :: "string list list \<Rightarrow> string list \<Rightarrow> bool" where
  "outside ds ns \<longleftrightarrow> list_all (\<lambda>d. \<not> has_prefix d ns \<and> \<not> has_prefix ns d) ds"

lemma request_private:
  assumes "handle_request H r s S = (e, s', S')" "session_ok s"
    "outside (if ss_received s then [names (rp_workspace_path (ss_paths s)), v] else []) ns"
  shows "sv_files S' ns = sv_files S ns"
proof (cases r)
  case (Config c)
  then have h: "HandleConfig c s S = (e, s', S')" using assms(1) by (simp add: handle_request_def)
  show ?thesis using HandleConfig_facts [OF h assms(2)] by simp
next
  case (FileChunk c)
  then have h: "HandleFileChunk H c s S = (e, s', S')" using assms(1) by (simp add: handle_request_def)
  show ?thesis using HandleFileChunk_facts [OF h assms(2)] assms(3)
    by (cases "ss_received s") (auto simp: outside_def dest: changed_belowD)
next
  case NoPayload
  then show ?thesis using assms(1) by (simp add: handle_request_def)
qed

lemma cleanup_private:
  assumes "abs_dir base" "call_ok base s"
    "outside (if ss_received s
       then [names (rp_workspace_path (ss_paths s)), names (rp_output_path (ss_paths s))] else []) ns"
  shows "snd (Cleanup (ss_guard s) fs) ns = fs ns"
proof (cases "g_cleanup_registered (ss_guard s)")
  case False
  then show ?thesis by (simp add: Cleanup_def)
next
  case True
  have c: "ss_received s" "g_workspace_subdir (ss_guard s) = rp_workspace_subdir (ss_paths s)"
    "g_output_subdir (ss_guard s) = rp_output_subdir (ss_paths s)" "g_workspace_root (ss_guard s) = base"
    using assms(2) True by (auto simp: call_ok_def)
  then obtain fs0 config where r: "ResolveTaskPaths (view_of fs0) base config = Inr (ss_paths s)"
    using assms(2) by (auto simp: call_ok_def)
  have g: "registered (ss_paths s) (ss_guard s) = ss_guard s"
    using c True by (simp add: registered_def RegisterCleanupTargets_def)
  show ?thesis
    using cleanup_scope [OF assms(1) view_of_no_links r c(4), of fs ns] assms(3) c(1)
    by (simp add: g outside_def)
qed

text \<open>Calls are private up to their directories: an event of one call other than its task's own writing
  leaves every path alone that is neither below nor above the workspace and output directories
  of that call, so the uploads and the cleanups of calls with separate directories never touch
  each other's files.\<close>

theorem step_private:
  assumes "server_reachable H base fs srv" "abs_dir base" "server_step H base e srv = Some srv'"
    "\<not> task_event e" "outside (dirs_of srv (actor e)) ns"
  shows "sv_files (srv_state srv') ns = sv_files (srv_state srv) ns"
proof -
  have ok: "server_ok base srv" by (rule server_reachable_ok [OF assms(1,2)])
  show ?thesis
  proof (cases e)
    case (Request i c r)
    then obtain s where s: "srv_calls srv i = Some (s, Uploading)"
      using assms(3) by (auto split: option.splits phase.splits)
    have k: "session_ok s" using call_exists [OF ok s] by (simp add: call_ok_def)
    obtain x s' S' where h: "handle_request H r s (srv_state srv) = (x, s', S')" by (rule prod_cases3)
    have d: "dirs_of srv (actor e) = (if ss_received s
        then [names (rp_workspace_path (ss_paths s)), names (rp_output_path (ss_paths s))] else [])"
      using Request s by (simp add: dirs_of_def)
    have "sv_files S' ns = sv_files (srv_state srv) ns"
      by (rule request_private [OF h k]) (use assms(5) d in simp)
    moreover have "srv_state srv' = (if c then srv_state srv else S')" using assms(3) Request s h by auto
    ultimately show ?thesis by simp
  next
    case (CleanupFiles i)
    then obtain s where s: "srv_calls srv i = Some (s, Over)"
      using assms(3) by (auto split: option.splits phase.splits)
    obtain g f where c: "Cleanup (ss_guard s) (sv_files (srv_state srv)) = (g, f)" by (rule prod.exhaust)
    have "f ns = sv_files (srv_state srv) ns"
      using cleanup_private [OF assms(2) call_exists [OF ok s], of ns "sv_files (srv_state srv)"]
        assms(5) c CleanupFiles s by (simp add: dirs_of_def)
    then show ?thesis using assms(3) CleanupFiles s c by auto
  qed (use assms(3,4) in \<open>auto split: option.splits phase.splits if_splits\<close>)
qed

theorem step_private_witness:
  "\<exists>srv srv'. demo_run = Some srv \<and>
     run_events quiet_host demo_root [Request 0 False (chunk_of ''f'' ''hi'' True True)] srv = Some srv' \<and>
     sv_files (srv_state srv') [''srv'', ''workspace'', ''b'', ''f''] =
     sv_files (srv_state srv) [''srv'', ''workspace'', ''b'', ''f'']"
proof -
  let ?e = "Request 0 False (chunk_of ''f'' ''hi'' True True)"
  have "case demo_run of None \<Rightarrow> False | Some srv \<Rightarrow>
      dirs_of srv 0 = [[''srv'', ''workspace'', ''a''], [''srv'', ''workspace'', ''a'', ''output'']] \<and>
      server_step quiet_host demo_root ?e srv \<noteq> None"
    by code_simp
  then obtain srv srv' where r: "demo_run = Some srv"
      "dirs_of srv 0 = [[''srv'', ''workspace'', ''a''], [''srv'', ''workspace'', ''a'', ''output'']]"
      "server_step quiet_host demo_root ?e srv = Some srv'"
    by (auto split: option.splits)
  have "outside (dirs_of srv (actor ?e)) [''srv'', ''workspace'', ''b'', ''f'']"
    using r(2) by (simp add: outside_def)
  from step_private [OF demo_run_reachable [OF r(1)] demo_root_abs r(3) _ this] show ?thesis
    using r by auto
qed

end
