(* ===== verification/Leases.thy ===== *)
theory Leases
  imports Sessions
begin

text \<open>
  What the server promises its submissions, without sessions, guards and phases: a lease of a key and of the
  directories that go with it. The section on the view states how the calls of the server
  (Sessions) are such leases, and that every event of theirs is a step of the leases.
\<close>

section \<open>The leases\<close>

record lease =
  ls_key :: string
  ls_dirs :: "string list list"
  ls_cleaned :: bool

record lease_state =
  lt_leases :: "nat \<Rightarrow> lease option"
  lt_files :: files

datatype lease_event = Quiet | Grant nat | Use nat | Work nat | Clean nat | Return nat

definition below :: "string list list \<Rightarrow> string list \<Rightarrow> bool" where
  "below ds ns \<longleftrightarrow> list_ex (\<lambda>d. has_prefix d ns) ds"

definition free_key :: "string \<Rightarrow> lease_state \<Rightarrow> bool" where
  "free_key k L \<longleftrightarrow> (\<forall>i l. lt_leases L i = Some l \<longrightarrow> ls_key l \<noteq> k)"

text \<open>
  A key is granted when no lease has it. The holder uses its directories, its task does what it
  likes, then what is below the directories goes, exactly, and a lease is given back only when it is clean.
\<close>

inductive lease_step :: "lease_event \<Rightarrow> lease_state \<Rightarrow> lease_state \<Rightarrow> bool" where
  quiet: "lease_step Quiet L L"
| grant: "lt_leases L i = None \<Longrightarrow> free_key k L \<Longrightarrow>
    lease_step (Grant i) L
      (L\<lparr>lt_leases := (lt_leases L)(i \<mapsto> \<lparr>ls_key = k, ls_dirs = ds, ls_cleaned = False\<rparr>)\<rparr>)"
| use: "lt_leases L i = Some l \<Longrightarrow> \<not> ls_cleaned l \<Longrightarrow>
    (\<And>ns. outside (ls_dirs l) ns \<Longrightarrow> fs ns = lt_files L ns) \<Longrightarrow>
    lease_step (Use i) L (L\<lparr>lt_files := fs\<rparr>)"
| work: "lt_leases L i = Some l \<Longrightarrow> \<not> ls_cleaned l \<Longrightarrow> lease_step (Work i) L (L\<lparr>lt_files := fs\<rparr>)"
| clean: "lt_leases L i = Some l \<Longrightarrow> \<not> ls_cleaned l \<Longrightarrow>
    lease_step (Clean i) L
      \<lparr>lt_leases = (lt_leases L)(i \<mapsto> l\<lparr>ls_cleaned := True\<rparr>),
       lt_files = (\<lambda>ns. if below (ls_dirs l) ns then None else lt_files L ns)\<rparr>"
| return: "lt_leases L i = Some l \<Longrightarrow> ls_cleaned l \<Longrightarrow>
    lease_step (Return i) L (L\<lparr>lt_leases := (lt_leases L)(i := None)\<rparr>)"

inductive_simps lease_step_simps:
  "lease_step Quiet L L'"
  "lease_step (Grant i) L L'"
  "lease_step (Use i) L L'"
  "lease_step (Work i) L L'"
  "lease_step (Clean i) L L'"
  "lease_step (Return i) L L'"

definition no_leases :: "files \<Rightarrow> lease_state" where
  "no_leases fs = \<lparr>lt_leases = (\<lambda>_. None), lt_files = fs\<rparr>"

inductive lease_trace :: "lease_state \<Rightarrow> lease_event list \<Rightarrow> lease_state \<Rightarrow> bool" where
  trace_none: "lease_trace L [] L"
| trace_step: "lease_trace L es L' \<Longrightarrow> lease_step e L' L'' \<Longrightarrow> lease_trace L (es @ [e]) L''"

text \<open>No two leases have one key.\<close>

definition leases_apart :: "lease_state \<Rightarrow> bool" where
  "leases_apart L \<longleftrightarrow> (\<forall>i j l m. lt_leases L i = Some l \<longrightarrow> lt_leases L j = Some m \<longrightarrow> ls_key l = ls_key m \<longrightarrow> i = j)"

lemma no_leases_apart: "leases_apart (no_leases fs)"
  by (simp add: leases_apart_def no_leases_def)

lemma lease_step_apart: "lease_step e L L' \<Longrightarrow> leases_apart L \<Longrightarrow> leases_apart L'"
  by (induction rule: lease_step.induct) (auto simp: leases_apart_def free_key_def)

lemma lease_trace_apart: "lease_trace L es L' \<Longrightarrow> leases_apart L \<Longrightarrow> leases_apart L'"
  by (induction rule: lease_trace.induct) (auto intro: lease_step_apart)

text \<open>The events of one lease.\<close>

fun lease_holder :: "lease_event \<Rightarrow> nat option" where
  "lease_holder Quiet = None"
| "lease_holder (Grant i) = Some i"
| "lease_holder (Use i) = Some i"
| "lease_holder (Work i) = Some i"
| "lease_holder (Clean i) = Some i"
| "lease_holder (Return i) = Some i"

definition events_of :: "nat \<Rightarrow> lease_event list \<Rightarrow> lease_event list" where
  "events_of i es = filter (\<lambda>e. lease_holder e = Some i) es"

lemma events_of_simps [simp]:
  "events_of i [] = []"
  "events_of i (es @ [e]) = events_of i es @ (if lease_holder e = Some i then [e] else [])"
  by (simp_all add: events_of_def)

lemma lease_step_other: "lease_step e L L' \<Longrightarrow> lease_holder e \<noteq> Some i \<Longrightarrow> lt_leases L' i = lt_leases L i"
  by (induction rule: lease_step.induct) auto

text \<open>The life of a lease: granted, used and worked in, cleaned, given back, and then perhaps again. The state
  of the automaton: None without a lease, otherwise whether it is clean.\<close>

fun lease_life :: "lease_event list \<Rightarrow> bool option \<Rightarrow> bool option option" where
  "lease_life [] q = Some q"
| "lease_life (Grant _ # es) None = lease_life es (Some False)"
| "lease_life (Use _ # es) (Some False) = lease_life es (Some False)"
| "lease_life (Work _ # es) (Some False) = lease_life es (Some False)"
| "lease_life (Clean _ # es) (Some False) = lease_life es (Some True)"
| "lease_life (Return _ # es) (Some True) = lease_life es None"
| "lease_life (_ # es) q = None"

lemma lease_life_append: "lease_life (es @ fs) q = (case lease_life es q of None \<Rightarrow> None | Some q \<Rightarrow> lease_life fs q)"
  by (induction es q rule: lease_life.induct) auto

lemma lease_step_life:
  assumes "lease_step e L L'" "lease_holder e = Some i"
  shows "lease_life [e] (map_option ls_cleaned (lt_leases L i)) = Some (map_option ls_cleaned (lt_leases L' i))"
  using assms by (cases e) (auto simp: lease_step_simps)

lemma lease_trace_life:
  "lease_trace L es L' \<Longrightarrow>
     lease_life (events_of i es) (map_option ls_cleaned (lt_leases L i)) = Some (map_option ls_cleaned (lt_leases L' i))"
proof (induction rule: lease_trace.induct)
  case (trace_step L es L' e L'')
  show ?case
  proof (cases "lease_holder e = Some i")
    case True
    then show ?thesis using trace_step.IH lease_step_life [OF trace_step.hyps(2) True]
      by (simp add: lease_life_append)
  next
    case False
    then show ?thesis using trace_step.IH lease_step_other [OF trace_step.hyps(2)] by simp
  qed
qed simp

section \<open>The server as leases\<close>

definition call_lease :: "(session \<times> phase) option \<Rightarrow> lease option" where
  "call_lease c = (case c of None \<Rightarrow> None
     | Some (s, ph) \<Rightarrow>
         if ss_received s
         then Some \<lparr>ls_key = g_key (ss_guard s),
                ls_dirs = [names (rp_workspace_path (ss_paths s)), names (rp_output_path (ss_paths s))],
                ls_cleaned = (ph = Cleaned)\<rparr>
         else None)"

definition lease_view :: "server \<Rightarrow> lease_state" where
  "lease_view srv = \<lparr>lt_leases = (\<lambda>i. call_lease (srv_calls srv i)), lt_files = sv_files (srv_state srv)\<rparr>"

fun lease_event_of :: "server_event \<Rightarrow> server \<Rightarrow> server \<Rightarrow> lease_event" where
  "lease_event_of (Call i) srv srv' = Quiet"
| "lease_event_of (Request i c r) srv srv' =
     (if c then Quiet else if call_lease (srv_calls srv i) \<noteq> None then Use i
      else if call_lease (srv_calls srv' i) \<noteq> None then Grant i else Quiet)"
| "lease_event_of (EndOfStream i c) srv srv' = Quiet"
| "lease_event_of (TaskEnds i fs) srv srv' = Work i"
| "lease_event_of (CleanupFiles i) srv srv' = (if call_lease (srv_calls srv i) \<noteq> None then Clean i else Quiet)"
| "lease_event_of (ReleaseLock i) srv srv' = (if call_lease (srv_calls srv i) \<noteq> None then Return i else Quiet)"

text \<open>
  What the refinement needs beside the locks: until the files are removed an accepted call has its
  cleanup registered, and only an accepted call executes.
\<close>

definition guard_armed :: "session \<Rightarrow> phase \<Rightarrow> bool" where
  "guard_armed s ph \<longleftrightarrow>
     (ph \<noteq> Cleaned \<and> ss_received s \<longrightarrow> g_cleanup_registered (ss_guard s)) \<and> (ph = Executing \<longrightarrow> ss_received s)"

definition armed :: "server \<Rightarrow> bool" where
  "armed srv \<longleftrightarrow> (\<forall>i s ph. srv_calls srv i = Some (s, ph) \<longrightarrow> guard_armed s ph)"

lemma armedD: "armed srv \<Longrightarrow> srv_calls srv i = Some (s, ph) \<Longrightarrow> guard_armed s ph"
  unfolding armed_def by blast

lemma armed_set: "armed srv \<Longrightarrow> (\<And>s ph. c = Some (s, ph) \<Longrightarrow> guard_armed s ph) \<Longrightarrow> armed (set_call i c S srv)"
  by (auto simp: armed_def)

text \<open>What a request does to the lease of its call.\<close>

lemma request_lease:
  assumes "handle_request H r s S = (e, s', S')" "call_ok base s" "guard_armed s Uploading"
  shows "guard_armed s' Uploading"
    and "ss_received s \<Longrightarrow> ss_received s' \<and> ss_paths s' = ss_paths s \<and> g_key (ss_guard s') = g_key (ss_guard s)"
    and "\<not> ss_received s \<Longrightarrow> sv_files S' = sv_files S"
    and "\<not> ss_received s \<Longrightarrow> ss_received s' \<Longrightarrow>
      try_lock_subdir (g_key (ss_guard s')) (sv_locked S) = Some (sv_locked S')"
proof -
  have so: "session_ok s" "g_locked (ss_guard s) \<longleftrightarrow> ss_received s" using assms(2) by (simp_all add: call_ok_def)
  have "guard_armed s' Uploading \<and>
    (ss_received s \<longrightarrow> ss_received s' \<and> ss_paths s' = ss_paths s \<and> g_key (ss_guard s') = g_key (ss_guard s)) \<and>
    (\<not> ss_received s \<longrightarrow> sv_files S' = sv_files S) \<and>
    (\<not> ss_received s \<longrightarrow> ss_received s' \<longrightarrow>
      try_lock_subdir (g_key (ss_guard s')) (sv_locked S) = Some (sv_locked S'))"
  proof (cases r)
    case (Config c)
    then have h: "HandleConfig c s S = (e, s', S')" using assms(1) by (simp add: handle_request_def)
    show ?thesis using HandleConfig_lock [OF h so(2)] HandleConfig_facts [OF h so(1)] assms(3)
      by (auto simp: guard_armed_def registered_def RegisterCleanupTargets_def)
  next
    case (FileChunk c)
    then have h: "HandleFileChunk H c s S = (e, s', S')" using assms(1) by (simp add: handle_request_def)
    show ?thesis using HandleFileChunk_guard [OF h] HandleFileChunk_facts [OF h so(1)] assms(3)
      by (auto simp: guard_armed_def)
  next
    case NoPayload
    then show ?thesis using assms by (simp add: handle_request_def)
  qed
  then show "guard_armed s' Uploading"
    and "ss_received s \<Longrightarrow> ss_received s' \<and> ss_paths s' = ss_paths s \<and> g_key (ss_guard s') = g_key (ss_guard s)"
    and "\<not> ss_received s \<Longrightarrow> sv_files S' = sv_files S"
    and "\<not> ss_received s \<Longrightarrow> ss_received s' \<Longrightarrow>
      try_lock_subdir (g_key (ss_guard s')) (sv_locked S) = Some (sv_locked S')"
    by blast+
qed

text \<open>The files of an accepted call go, exactly.\<close>

lemma call_cleanup:
  assumes "abs_dir base" "call_ok base s" "guard_armed s Over" "ss_received s"
  shows "snd (Cleanup (ss_guard s) fs) =
    (\<lambda>ns. if below [names (rp_workspace_path (ss_paths s)), names (rp_output_path (ss_paths s))] ns
      then None else fs ns)"
proof
  fix ns
  have c: "g_cleanup_registered (ss_guard s)" using assms(3,4) by (simp add: guard_armed_def)
  then have p: "g_workspace_subdir (ss_guard s) = rp_workspace_subdir (ss_paths s)"
    "g_output_subdir (ss_guard s) = rp_output_subdir (ss_paths s)" "g_workspace_root (ss_guard s) = base"
    using assms(2) by (auto simp: call_ok_def)
  obtain fs0 config where r: "ResolveTaskPaths (view_of fs0) base config = Inr (ss_paths s)"
    using assms(2,4) by (auto simp: call_ok_def)
  have "registered (ss_paths s) (ss_guard s) = ss_guard s"
    using c p by (simp add: registered_def RegisterCleanupTargets_def)
  then show "snd (Cleanup (ss_guard s) fs) ns =
    (if below [names (rp_workspace_path (ss_paths s)), names (rp_output_path (ss_paths s))] ns then None else fs ns)"
    using cleanup_scope [OF assms(1) view_of_no_links r p(3), of fs ns] by (simp add: below_def)
qed

lemma call_no_cleanup: "call_ok base s \<Longrightarrow> \<not> ss_received s \<Longrightarrow> snd (Cleanup (ss_guard s) fs) = fs"
  by (auto simp: call_ok_def Cleanup_def)

lemma call_lease_simps [simp]:
  "call_lease None = None"
  "call_lease (Some (s, ph)) = (if ss_received s
     then Some \<lparr>ls_key = g_key (ss_guard s),
            ls_dirs = [names (rp_workspace_path (ss_paths s)), names (rp_output_path (ss_paths s))],
            ls_cleaned = (ph = Cleaned)\<rparr>
     else None)"
  by (simp_all add: call_lease_def)

lemma lease_view_fields [simp]:
  "lt_leases (lease_view srv) i = call_lease (srv_calls srv i)"
  "lt_files (lease_view srv) = sv_files (srv_state srv)"
  by (simp_all add: lease_view_def)

lemma lease_view_set: "lease_view (set_call i c S srv) =
    \<lparr>lt_leases = (lt_leases (lease_view srv))(i := call_lease c), lt_files = sv_files S\<rparr>"
  by (auto simp: lease_view_def set_call_def)

lemma lease_view_same:
  "call_lease c = call_lease (srv_calls srv i) \<Longrightarrow>
     lease_view (set_call i c S srv) = (lease_view srv)\<lparr>lt_files := sv_files S\<rparr>"
  by (auto simp: lease_view_def set_call_def)

lemma lease_view_quiet:
  "call_lease c = call_lease (srv_calls srv i) \<Longrightarrow> sv_files S = sv_files (srv_state srv) \<Longrightarrow>
     lease_view (set_call i c S srv) = lease_view srv"
  by (auto simp: lease_view_def set_call_def)

text \<open>A key the table grants is free among the leases.\<close>

lemma granted_free_key:
  assumes "server_ok base srv" "try_lock_subdir k (sv_locked (srv_state srv)) = Some t"
  shows "free_key k (lease_view srv)"
  unfolding free_key_def
proof (intro allI impI)
  fix j l
  assume l: "lt_leases (lease_view srv) j = Some l"
  obtain s ph where c: "srv_calls srv j = Some (s, ph)"
    using l by (cases "srv_calls srv j") auto
  then have r: "ss_received s" "ls_key l = g_key (ss_guard s)" using l by (auto split: if_splits)
  then have "own_keys srv j = Some (ls_key l)"
    using call_exists [OF assms(1) c] c by (simp add: own_keys_def call_ok_def)
  then have "ls_key l \<in> sv_locked (srv_state srv)"
    using owned_keys [OF assms(1)] by (auto simp: subdirs.owned_def ranI)
  then show "ls_key l \<noteq> k" using subdirs.lock_free [OF assms(2)] by auto
qed

section \<open>Every event is a step of the leases\<close>

lemma Request_refines:
  assumes "server_ok base srv" "armed srv" "server_step H base (Request i cancelled r) srv = Some srv'"
  shows "armed srv' \<and> lease_step (lease_event_of (Request i cancelled r) srv srv') (lease_view srv) (lease_view srv')"
proof -
  obtain s where s: "srv_calls srv i = Some (s, Uploading)"
    using assms(3) by (auto split: option.splits phase.splits)
  have ok: "call_ok base s" by (rule call_exists [OF assms(1) s])
  have ga: "guard_armed s Uploading" by (rule armedD [OF assms(2) s])
  show ?thesis
  proof (cases cancelled)
    case True
    then have e: "srv' = set_call i (Some (s, Over)) (srv_state srv) srv" using assms(3) s by simp
    have v: "lease_view srv' = lease_view srv" unfolding e by (rule lease_view_quiet) (simp_all add: s)
    have "armed srv'" unfolding e by (rule armed_set [OF assms(2)]) (use ga in \<open>auto simp: guard_armed_def\<close>)
    moreover have "lease_step (lease_event_of (Request i cancelled r) srv srv') (lease_view srv) (lease_view srv)"
      using True by (simp add: lease_step.quiet)
    ultimately show ?thesis using v by simp
  next
    case NC: False
    obtain x s' S' where h: "handle_request H r s (srv_state srv) = (x, s', S')" by (rule prod_cases3)
    let ?ph = "if x = None then Uploading else Over"
    have e: "srv' = set_call i (Some (s', ?ph)) S' srv" using assms(3) s NC h by simp
    note q = request_lease [OF h ok ga]
    have a: "armed srv'" unfolding e
      by (rule armed_set [OF assms(2)]) (use q(1) in \<open>auto simp: guard_armed_def split: if_splits\<close>)
    show ?thesis
    proof (cases "ss_received s")
      case True
      then have v: "lease_view srv' = (lease_view srv)\<lparr>lt_files := sv_files S'\<rparr>"
        unfolding e by (intro lease_view_same) (use q(2) s in auto)
      have "sv_files S' ns = sv_files (srv_state srv) ns"
        if "outside [names (rp_workspace_path (ss_paths s)), names (rp_output_path (ss_paths s))] ns" for ns
        by (rule request_private [OF h]) (use ok True that in \<open>simp_all add: call_ok_def\<close>)
      then show ?thesis using a s True NC unfolding v by (auto simp: lease_step_simps)
    next
      case F: False
      note f = q(3) [OF F]
      show ?thesis
      proof (cases "ss_received s'")
        case True
        let ?l = "\<lparr>ls_key = g_key (ss_guard s'),
            ls_dirs = [names (rp_workspace_path (ss_paths s')), names (rp_output_path (ss_paths s'))],
            ls_cleaned = False\<rparr>"
        have "lease_view srv' = (lease_view srv)\<lparr>lt_leases := (lt_leases (lease_view srv))(i \<mapsto> ?l)\<rparr>"
          unfolding e lease_view_set using True f by (simp add: lease_view_def)
        moreover have "free_key (g_key (ss_guard s')) (lease_view srv)"
          by (rule granted_free_key [OF assms(1) q(4) [OF F True]])
        moreover have "lt_leases (lease_view srv) i = None" using s F by simp
        ultimately have "lease_step (Grant i) (lease_view srv) (lease_view srv')"
          by (simp only: lease_step.grant)
        moreover have "lease_event_of (Request i cancelled r) srv srv' = Grant i" using s F True NC unfolding e by simp
        ultimately show ?thesis using a by simp
      next
        case False
        have "lease_view srv' = lease_view srv" unfolding e by (rule lease_view_quiet) (use s F False f in auto)
        moreover have "lease_event_of (Request i cancelled r) srv srv' = Quiet" using s F False unfolding e by simp
        ultimately show ?thesis using a by (simp add: lease_step.quiet)
      qed
    qed
  qed
qed

lemma Cleanup_refines:
  assumes "abs_dir base" "server_ok base srv" "armed srv" "server_step H base (CleanupFiles i) srv = Some srv'"
  shows "armed srv' \<and> lease_step (lease_event_of (CleanupFiles i) srv srv') (lease_view srv) (lease_view srv')"
proof -
  obtain s where s: "srv_calls srv i = Some (s, Over)"
    using assms(4) by (auto split: option.splits phase.splits)
  note ok = call_exists [OF assms(2) s]
  note ga = armedD [OF assms(3) s]
  let ?g = "(ss_guard s)\<lparr>g_cleanup_registered := False\<rparr>"
  let ?fs = "snd (Cleanup (ss_guard s) (sv_files (srv_state srv)))"
  have e: "srv' = set_call i (Some (s\<lparr>ss_guard := ?g\<rparr>, Cleaned)) ((srv_state srv)\<lparr>sv_files := ?fs\<rparr>) srv"
    using assms(4) s Cleanup_guard [of "ss_guard s" "sv_files (srv_state srv)"] by (auto split: prod.splits)
  have a: "armed srv'" unfolding e by (rule armed_set [OF assms(3)]) (auto simp: guard_armed_def)
  show ?thesis
  proof (cases "ss_received s")
    case True
    note c = call_cleanup [OF assms(1) ok ga True]
    let ?l = "\<lparr>ls_key = g_key (ss_guard s),
        ls_dirs = [names (rp_workspace_path (ss_paths s)), names (rp_output_path (ss_paths s))], ls_cleaned = False\<rparr>"
    have l: "lt_leases (lease_view srv) i = Some ?l" using s True by simp
    have "lease_view srv' = \<lparr>lt_leases = (lt_leases (lease_view srv))(i \<mapsto> ?l\<lparr>ls_cleaned := True\<rparr>),
        lt_files = (\<lambda>ns. if below (ls_dirs ?l) ns then None else lt_files (lease_view srv) ns)\<rparr>"
      unfolding e lease_view_set using True by (simp add: c cong: if_cong)
    then have "lease_step (Clean i) (lease_view srv) (lease_view srv')"
      using lease_step.clean [OF l] by simp
    then show ?thesis using a s True by simp
  next
    case False
    have "lease_view srv' = lease_view srv"
      unfolding e by (rule lease_view_quiet) (use s False call_no_cleanup [OF ok False] in auto)
    then show ?thesis using a s False by (simp add: lease_step.quiet)
  qed
qed

lemma server_step_refines:
  assumes "abs_dir base" "server_ok base srv" "armed srv" "server_step H base e srv = Some srv'"
  shows "armed srv' \<and> lease_step (lease_event_of e srv srv') (lease_view srv) (lease_view srv')"
proof (cases e)
  case (Call i)
  then have c: "srv_calls srv i = None" "srv' = set_call i (Some (new_session base, Uploading)) (srv_state srv) srv"
    using assms(4) by (auto split: option.splits)
  have n: "\<not> ss_received (new_session base)" by (simp add: new_session_def)
  have "armed srv'" unfolding c(2) by (rule armed_set [OF assms(3)]) (use n in \<open>auto simp: guard_armed_def\<close>)
  moreover have "lease_view srv' = lease_view srv" unfolding c(2) by (rule lease_view_quiet) (use c n in auto)
  ultimately show ?thesis using Call by (simp add: lease_step.quiet)
next
  case (Request i c r)
  then show ?thesis using Request_refines [OF assms(2,3)] assms(4) by blast
next
  case (EndOfStream i c)
  then obtain s where s: "srv_calls srv i = Some (s, Uploading)"
    using assms(4) by (auto split: option.splits phase.splits)
  note ga = armedD [OF assms(3) s]
  obtain d where e: "srv' = set_call i (Some d) (srv_state srv) srv"
    and d: "d = (s, Over) \<or> (ss_received s \<and> d = (CloseCurrentFile s, Executing))"
    using assms(4) EndOfStream s by (auto split: if_splits)
  have "armed srv'" unfolding e
    by (rule armed_set [OF assms(3)]) (use d ga in \<open>auto simp: guard_armed_def CloseCurrentFile_def\<close>)
  moreover have "lease_view srv' = lease_view srv" unfolding e
    by (rule lease_view_quiet) (use d s in \<open>auto simp: CloseCurrentFile_def\<close>)
  ultimately show ?thesis using EndOfStream by (simp add: lease_step.quiet)
next
  case (TaskEnds i fs)
  then obtain s where s: "srv_calls srv i = Some (s, Executing)"
    and e: "srv' = set_call i (Some (s, Over)) ((srv_state srv)\<lparr>sv_files := fs\<rparr>) srv"
    using assms(4) by (auto split: option.splits phase.splits)
  note ga = armedD [OF assms(3) s]
  have r: "ss_received s" using ga by (simp add: guard_armed_def)
  have "armed srv'" unfolding e by (rule armed_set [OF assms(3)]) (use ga in \<open>auto simp: guard_armed_def\<close>)
  moreover have "lease_view srv' = (lease_view srv)\<lparr>lt_files := fs\<rparr>" unfolding e
    using lease_view_same [of "Some (s, Over)" srv i] s by simp
  ultimately show ?thesis using TaskEnds s r by (auto simp: lease_step_simps)
next
  case (CleanupFiles i)
  then show ?thesis using Cleanup_refines [OF assms(1-3)] assms(4) by blast
next
  case (ReleaseLock i)
  then obtain s S where s: "srv_calls srv i = Some (s, Cleaned)"
    and e: "srv' = set_call i None S srv" "sv_files S = sv_files (srv_state srv)"
    using assms(4) by (auto split: option.splits phase.splits)
  have a: "armed srv'" unfolding e(1) by (rule armed_set [OF assms(3)]) simp
  have "lease_view srv' = (lease_view srv)\<lparr>lt_leases := (lt_leases (lease_view srv))(i := None)\<rparr>"
    unfolding e(1) lease_view_set using e(2) by (simp add: lease_view_def)
  moreover have "\<not> ss_received s \<Longrightarrow> lease_view srv' = lease_view srv"
    unfolding e(1) by (rule lease_view_quiet) (use s e(2) in auto)
  ultimately show ?thesis using a ReleaseLock s
    by (cases "ss_received s") (auto simp: lease_step_simps)
qed

lemma start_refines: "armed (start_server fs) \<and> lease_view (start_server fs) = no_leases fs"
  by (simp add: armed_def start_server_def lease_view_def no_leases_def)

lemma server_reachable_trace:
  assumes "server_reachable H base fs srv" "abs_dir base"
  shows "armed srv \<and> (\<exists>es. lease_trace (no_leases fs) es (lease_view srv))"
  using assms
proof (induction rule: server_reachable.induct)
  case init
  show ?case unfolding start_refines [THEN conjunct2]
    using start_refines [THEN conjunct1] trace_none by blast
next
  case (step srv e srv')
  have ok: "server_ok base srv" by (rule server_reachable_ok [OF step.hyps(1) step.prems])
  have "armed srv" using step.IH [OF step.prems] by blast
  from server_step_refines [OF step.prems ok this step.hyps(2)] show ?case
    using step.IH [OF step.prems] trace_step by blast
qed

section \<open>Properties\<close>

text \<open>C5. The server implements the leases: every event of a call, in any interleaving, is the step of a lease
  that the specification allows (a key is granted only when no other submission has it, an upload
  writes only inside the directories of its lease, the removal takes exactly them), the state
  reached has two leases of one key nowhere, and the life of each lease follows grant, use, work,
  clean and return in that order: no lock is given back before the files are gone.\<close>

theorem server_refines_leases:
  assumes "server_reachable H base fs srv" "abs_dir base" "server_step H base e srv = Some srv'"
  shows "lease_step (lease_event_of e srv srv') (lease_view srv) (lease_view srv') \<and> leases_apart (lease_view srv) \<and>
    (\<exists>es. lease_trace (no_leases fs) es (lease_view srv) \<and>
       (\<forall>i. lease_life (events_of i es) None = Some (map_option ls_cleaned (lt_leases (lease_view srv) i))))"
proof -
  have ok: "server_ok base srv" by (rule server_reachable_ok [OF assms(1,2)])
  obtain es where t: "armed srv" "lease_trace (no_leases fs) es (lease_view srv)"
    using server_reachable_trace [OF assms(1,2)] by blast
  have n: "lt_leases (no_leases fs) i = None" for i by (simp add: no_leases_def)
  show ?thesis
    using server_step_refines [OF assms(2) ok t(1) assms(3)] lease_trace_apart [OF t(2) no_leases_apart]
      lease_trace_life [OF t(2)] t(2) unfolding n by auto
qed

text \<open>The first of the three calls of the example is cancelled and its files are removed, while it still has its key.\<close>

theorem server_refines_leases_witness:
  "\<exists>srv srv' l. demo_run = Some srv \<and>
     run_events quiet_host demo_root [Request 0 True NoPayload, CleanupFiles 0] srv = Some srv' \<and>
     lt_leases (lease_view srv') 0 = Some l \<and> ls_key l = ''a'' \<and> ls_cleaned l \<and>
     lt_files (lease_view srv') [''srv'', ''workspace'', ''a'', ''f''] = None"
proof -
  have "case demo_run of None \<Rightarrow> False | Some srv \<Rightarrow>
      map_option (\<lambda>l. (ls_key l, ls_dirs l, ls_cleaned l)) (lt_leases (lease_view srv) 0) =
        Some (''a'', [[''srv'', ''workspace'', ''a''], [''srv'', ''workspace'', ''a'', ''output'']], False) \<and>
      (case server_step quiet_host demo_root (Request 0 True NoPayload) srv of None \<Rightarrow> False
       | Some srv1 \<Rightarrow> lt_leases (lease_view srv1) 0 = lt_leases (lease_view srv) 0 \<and>
           server_step quiet_host demo_root (CleanupFiles 0) srv1 \<noteq> None)"
    by code_simp
  then obtain srv l srv1 srv2 where r: "demo_run = Some srv" "lt_leases (lease_view srv) 0 = Some l" "ls_key l = ''a''"
      "ls_dirs l = [[''srv'', ''workspace'', ''a''], [''srv'', ''workspace'', ''a'', ''output'']]"
      "server_step quiet_host demo_root (Request 0 True NoPayload) srv = Some srv1"
      "lt_leases (lease_view srv1) 0 = Some l"
      "server_step quiet_host demo_root (CleanupFiles 0) srv1 = Some srv2"
    by (auto simp del: lease_view_fields server_step.simps split: option.splits)
  have e: "lease_event_of (CleanupFiles 0) srv1 srv2 = Clean 0" using r(6) by simp
  have c: "lease_step (Clean 0) (lease_view srv1) (lease_view srv2)"
    using server_refines_leases [OF server_reachable.step [OF demo_run_reachable [OF r(1)] r(5)] demo_root_abs r(7)]
    unfolding e by blast
  have "run_events quiet_host demo_root [Request 0 True NoPayload, CleanupFiles 0] srv = Some srv2"
    using r(5,7) by simp
  moreover have "lt_leases (lease_view srv2) 0 = Some (l\<lparr>ls_cleaned := True\<rparr>)"
    "lt_files (lease_view srv2) [''srv'', ''workspace'', ''a'', ''f''] = None"
    using c r(4,6) by (auto simp: lease_step_simps below_def simp del: lease_view_fields)
  ultimately show ?thesis using r(1,3) by (auto simp del: lease_view_fields run_events.simps)
qed

end
