(* ===== verification/ShellText.thy ===== *)
theory ShellText
  imports CString FsPath
begin

text \<open>
  The text helpers of server/task_executor.cc: quoting for the shell, the search of a command in
  PATH, the command line handed to /bin/sh, and the environment of the child. What the shell
  makes of a command line is a reference definition: the splitting of the POSIX shell into
  words, for lines of words and quotes only.
\<close>

section \<open>Quoting\<close>

abbreviation quote :: char where "quote \<equiv> CHR 0x27"

abbreviation backslash :: char where "backslash \<equiv> CHR 0x5C"

fun escape_chars :: "string \<Rightarrow> string" where
  "escape_chars [] = []"
| "escape_chars (c # cs) = (if c = quote then [quote, backslash, quote, quote] else [c]) @ escape_chars cs"

definition ShellEscape :: "string \<Rightarrow> string" where
  "ShellEscape input = quote # escape_chars input @ [quote]"

definition SanitizeFilenameComponent :: "string \<Rightarrow> string" where
  "SanitizeFilenameComponent input =
     (let out = map (\<lambda>c. if c = CHR ''/'' \<or> c = backslash \<or> c = CHR '' '' then CHR ''_'' else c) input
      in if out = [] then ''_'' else out)"

section \<open>Commands\<close>

text \<open>The pieces std::getline reads up to a separator; an end of the text after it gives no piece.\<close>

fun getline_pieces :: "char \<Rightarrow> string \<Rightarrow> string \<Rightarrow> string list" where
  "getline_pieces sep cur [] = (if cur = [] then [] else [cur])"
| "getline_pieces sep cur (c # cs) =
     (if c = sep then cur # getline_pieces sep [] cs else getline_pieces sep (cur @ [c]) cs)"

text \<open>The operator / of std::filesystem::path on text.\<close>

definition path_join :: "string \<Rightarrow> string \<Rightarrow> string" where
  "path_join p q =
     (if q \<noteq> [] \<and> hd q = CHR ''/'' then q
      else if p = [] \<or> last p = CHR ''/'' then p @ q
      else p @ ''/'' @ q)"

fun find_in_dirs :: "(string \<Rightarrow> bool) \<Rightarrow> string \<Rightarrow> string list \<Rightarrow> string" where
  "find_in_dirs exists name [] = ''<not found>''"
| "find_in_dirs exists name (item # items) =
     (if item = [] then find_in_dirs exists name items
      else if exists (path_join item name) then path_join item name
      else find_in_dirs exists name items)"

definition FindCommandInPath :: "env \<Rightarrow> (string \<Rightarrow> bool) \<Rightarrow> string \<Rightarrow> string" where
  "FindCommandInPath getenv exists name =
     (case getenv ''PATH'' of
        None \<Rightarrow> ''<PATH unset>''
      | Some path_env \<Rightarrow>
          if path_env = [] then ''<PATH unset>''
          else find_in_dirs exists name (getline_pieces (CHR '':'') [] path_env))"

definition BuildCommandForExecution :: "env \<Rightarrow> (string \<Rightarrow> bool) \<Rightarrow> string \<Rightarrow> bool \<Rightarrow> string" where
  "BuildCommandForExecution getenv exists command want_pty =
     (if want_pty then command
      else
        let stdbuf_path = FindCommandInPath getenv exists ''stdbuf''
        in if stdbuf_path = ''<not found>'' \<or> stdbuf_path = ''<PATH unset>'' then command
           else ShellEscape stdbuf_path @ '' -oL -eL /bin/sh -c '' @ ShellEscape command)"

text \<open>The command of CreateOutputArchive.\<close>

definition archive_command :: "string \<Rightarrow> string \<Rightarrow> string \<Rightarrow> string" where
  "archive_command archive_path parent_dir entry_name =
     ''tar -czf '' @ ShellEscape archive_path @ '' -C '' @ ShellEscape parent_dir @ '' '' @ ShellEscape entry_name"

section \<open>The words the shell reads\<close>

text \<open>
  A line as a list of words, with single quotes and backslashes removed; None when the line has
  an open quote or a character that is more than text to the shell.
\<close>

definition sh_special :: "char \<Rightarrow> bool" where
  "sh_special c \<longleftrightarrow> c \<in> set ''|&;<>()$`*?[#~%!{}'' \<or> c = CHR 0x22 \<or> c = CHR 0x0A"

fun sh_words :: "string option \<Rightarrow> bool \<Rightarrow> string \<Rightarrow> string list option" where
  "sh_words cur quoted [] =
     (if quoted then None else case cur of None \<Rightarrow> Some [] | Some w \<Rightarrow> Some [w])"
| "sh_words cur True (c # cs) =
     (if c = quote then sh_words cur False cs
      else sh_words (Some ((case cur of None \<Rightarrow> [] | Some w \<Rightarrow> w) @ [c])) True cs)"
| "sh_words cur False (c # cs) =
     (if c = quote then sh_words (Some (case cur of None \<Rightarrow> [] | Some w \<Rightarrow> w)) True cs
      else if c = backslash then
        (case cs of
           [] \<Rightarrow> None
         | d # ds \<Rightarrow> sh_words (Some ((case cur of None \<Rightarrow> [] | Some w \<Rightarrow> w) @ [d])) False ds)
      else if c = CHR '' '' \<or> c = CHR 0x09 then
        (case cur of
           None \<Rightarrow> sh_words None False cs
         | Some w \<Rightarrow> map_option (Cons w) (sh_words None False cs))
      else if sh_special c then None
      else sh_words (Some ((case cur of None \<Rightarrow> [] | Some w \<Rightarrow> w) @ [c])) False cs)"

definition shell_reads :: "string \<Rightarrow> string list option" where
  "shell_reads line = sh_words None False line"

lemma escape_chars_quoted:
  "sh_words (Some w) True (escape_chars s @ quote # later) = sh_words (Some (w @ s)) False later"
  by (induction s arbitrary: w) auto

lemma ShellEscape_words:
  "sh_words None False (ShellEscape s @ later) = sh_words (Some s) False later"
  using escape_chars_quoted [of "[]" s later] by (simp add: ShellEscape_def)

definition ordinary :: "char \<Rightarrow> bool" where
  "ordinary c \<longleftrightarrow> c \<noteq> quote \<and> c \<noteq> backslash \<and> c \<noteq> CHR '' '' \<and> c \<noteq> CHR 0x09 \<and> \<not> sh_special c"

lemma ordinary_step:
  "ordinary c \<Longrightarrow> sh_words cur False (c # cs) = sh_words (Some ((case cur of None \<Rightarrow> [] | Some w \<Rightarrow> w) @ [c])) False cs"
  by (simp add: ordinary_def)

lemma ordinary_run:
  "list_all ordinary p \<Longrightarrow> sh_words (Some w) False (p @ CHR '' '' # later) =
     map_option (Cons (w @ p)) (sh_words None False later)"
proof (induction p arbitrary: w)
  case (Cons c p)
  then show ?case using ordinary_step [of c "Some w"] by (simp del: sh_words.simps)
qed simp

lemma plain_words:
  assumes "list_all ordinary p" "p \<noteq> []"
  shows "sh_words None False (p @ CHR '' '' # later) = map_option (Cons p) (sh_words None False later)"
proof (cases p)
  case (Cons c cs)
  then show ?thesis using assms ordinary_step [of c None] ordinary_run [of cs "[c]"]
    by (simp del: sh_words.simps)
qed (use assms in simp)

lemma next_words: "sh_words (Some w) False (CHR '' '' # later) = map_option (Cons w) (sh_words None False later)"
  by simp

section \<open>Properties\<close>

text \<open>C16. Quoting is exact: the shell reads the quoted form of any text, quotes, blanks, line ends and
  substitutions included, as one word that is this text.\<close>

theorem ShellEscape_exact:
  "shell_reads (ShellEscape s) = Some [s]"
  using ShellEscape_words [of s "[]"] by (simp add: shell_reads_def)

text \<open>The command of a task is not changed on its way through the shell: without a terminal, when
  stdbuf is found, the line handed to /bin/sh is read as the call of stdbuf that runs /bin/sh -c
  with exactly the client's command as its one argument.\<close>

theorem BuildCommand_exact:
  assumes "FindCommandInPath getenv exists ''stdbuf'' = p" "p \<noteq> ''<not found>''" "p \<noteq> ''<PATH unset>''"
  shows "shell_reads (BuildCommandForExecution getenv exists command False) =
    Some [p, ''-oL'', ''-eL'', ''/bin/sh'', ''-c'', command]"
proof -
  have "sh_words None False (ShellEscape command) = Some [command]"
    using ShellEscape_words [of command "[]"] by simp
  then have "sh_words None False (''-oL -eL /bin/sh -c '' @ ShellEscape command) =
      Some [''-oL'', ''-eL'', ''/bin/sh'', ''-c'', command]"
    using plain_words [of "''-oL''" "''-eL /bin/sh -c '' @ ShellEscape command"]
      plain_words [of "''-eL''" "''/bin/sh -c '' @ ShellEscape command"]
      plain_words [of "''/bin/sh''" "''-c '' @ ShellEscape command"]
      plain_words [of "''-c''" "ShellEscape command"]
    by (simp add: ordinary_def sh_special_def)
  then show ?thesis
    using assms ShellEscape_words [of p "'' -oL -eL /bin/sh -c '' @ ShellEscape command"]
    by (simp add: shell_reads_def BuildCommandForExecution_def)
qed

theorem BuildCommand_exact_witness:
  "shell_reads (BuildCommandForExecution [''PATH'' \<mapsto> ''/bin::/usr/bin''] (\<lambda>f. f = ''/usr/bin/stdbuf'') ''echo it; ls'' False) =
    Some [''/usr/bin/stdbuf'', ''-oL'', ''-eL'', ''/bin/sh'', ''-c'', ''echo it; ls'']"
proof -
  have "FindCommandInPath [''PATH'' \<mapsto> ''/bin::/usr/bin''] (\<lambda>f. f = ''/usr/bin/stdbuf'') ''stdbuf'' = ''/usr/bin/stdbuf''"
    by code_simp
  then show ?thesis by (rule BuildCommand_exact) simp_all
qed

lemma archive_command_words:
  "shell_reads (archive_command a d e) = Some [''tar'', ''-czf'', a, ''-C'', d, e]"
proof -
  have 1: "sh_words None False (ShellEscape e) = Some [e]" using ShellEscape_words [of e "[]"] by simp
  have 2: "sh_words None False (ShellEscape d @ '' '' @ ShellEscape e) = Some [d, e]"
    using ShellEscape_words [of d "'' '' @ ShellEscape e"] 1 by simp
  have 3: "sh_words None False (''-C '' @ ShellEscape d @ '' '' @ ShellEscape e) = Some [''-C'', d, e]"
    using plain_words [of "''-C''" "ShellEscape d @ '' '' @ ShellEscape e"] 2 by (simp add: ordinary_def sh_special_def)
  have 4: "sh_words None False (ShellEscape a @ '' -C '' @ ShellEscape d @ '' '' @ ShellEscape e) = Some [a, ''-C'', d, e]"
    using ShellEscape_words [of a "'' -C '' @ ShellEscape d @ '' '' @ ShellEscape e"] 3 by simp
  have 5: "sh_words None False (''-czf '' @ ShellEscape a @ '' -C '' @ ShellEscape d @ '' '' @ ShellEscape e) =
      Some [''-czf'', a, ''-C'', d, e]"
    using plain_words [of "''-czf''" "ShellEscape a @ '' -C '' @ ShellEscape d @ '' '' @ ShellEscape e"] 4
    by (simp add: ordinary_def sh_special_def)
  show ?thesis
    using plain_words [of "''tar''" "''-czf '' @ ShellEscape a @ '' -C '' @ ShellEscape d @ '' '' @ ShellEscape e"] 5
    by (simp add: shell_reads_def archive_command_def ordinary_def sh_special_def)
qed

lemma Sanitize_component:
  "SanitizeFilenameComponent s \<noteq> [] \<and> CHR ''/'' \<notin> set (SanitizeFilenameComponent s)"
  by (auto simp: SanitizeFilenameComponent_def Let_def)

end
