(* ===== verification/RuntimeControl.thy ===== *)
theory RuntimeControl
  imports CString
begin

text \<open>
  The table of running tasks, server/task_runtime_control.cc: which process group runs in which
  workspace, the search for the processes of a group under /proc, and the update of their
  utilization through the xcli tool. The lines of /proc and the outcome of a run of xcli are
  parameters.
\<close>

type_synonym pid = int

type_synonym task_table = "string \<Rightarrow> pid option"

definition RegisterTaskProcessGroup :: "string \<Rightarrow> pid \<Rightarrow> task_table \<Rightarrow> task_table" where
  "RegisterTaskProcessGroup subdir pgid table =
     (if subdir = [] \<or> pgid \<le> 0 then table else table(subdir \<mapsto> pgid))"

definition UnregisterTaskProcessGroup :: "string \<Rightarrow> pid \<Rightarrow> task_table \<Rightarrow> task_table" where
  "UnregisterTaskProcessGroup subdir pgid table =
     (if subdir = [] then table
      else case table subdir of
        None \<Rightarrow> table
      | Some p \<Rightarrow> if pgid \<le> 0 \<or> p = pgid then table(subdir := None) else table)"

section \<open>The contract of the table\<close>

text \<open>
  What a task relies on: after it enters its workspace the group is found there, other
  workspaces are not touched, and giving the entry back restores what was there before.
\<close>

locale task_registry =
  fixes enter :: "'k \<Rightarrow> 'p \<Rightarrow> 't \<Rightarrow> 't"
    and leave :: "'k \<Rightarrow> 'p \<Rightarrow> 't \<Rightarrow> 't"
    and find :: "'k \<Rightarrow> 't \<Rightarrow> 'p option"
    and key_ok :: "'k \<Rightarrow> bool"
    and val_ok :: "'p \<Rightarrow> bool"
  assumes find_enter: "key_ok k \<Longrightarrow> val_ok p \<Longrightarrow> find k (enter k p t) = Some p"
    and find_enter_other: "j \<noteq> k \<Longrightarrow> find j (enter k p t) = find j t"
    and find_leave: "key_ok k \<Longrightarrow> val_ok p \<Longrightarrow> find k t = Some p \<Longrightarrow> find k (leave k p t) = None"
    and find_leave_newer: "key_ok k \<Longrightarrow> val_ok p \<Longrightarrow> find k t = Some q \<Longrightarrow> q \<noteq> p \<Longrightarrow> find k (leave k p t) = Some q"
    and find_leave_other: "j \<noteq> k \<Longrightarrow> find j (leave k p t) = find j t"
begin

lemma visit:
  "key_ok k \<Longrightarrow> val_ok p \<Longrightarrow> find k t = None \<Longrightarrow> find j (leave k p (enter k p t)) = find j t"
  by (cases "j = k") (simp_all add: find_enter find_enter_other find_leave find_leave_other)

text \<open>A task that leaves late does not remove the entry of the task that came after it.\<close>

lemma late_leave:
  "key_ok k \<Longrightarrow> val_ok p \<Longrightarrow> val_ok q \<Longrightarrow> p \<noteq> q \<Longrightarrow> find k (leave k p (enter k q (enter k p t))) = Some q"
  by (intro find_leave_newer) (auto simp: find_enter)

end

interpretation tasks: task_registry RegisterTaskProcessGroup UnregisterTaskProcessGroup "\<lambda>k t. t k"
    "\<lambda>k. k \<noteq> []" "\<lambda>p. 0 < p"
  by unfold_locales (auto simp: RegisterTaskProcessGroup_def UnregisterTaskProcessGroup_def split: option.splits)

section \<open>The processes of a group\<close>

definition IsNumericName :: "string \<Rightarrow> bool" where
  "IsNumericName name \<longleftrightarrow> name \<noteq> [] \<and> list_all c_isdigit name"

text \<open>What is after the last closing parenthesis, and the number of the parenthesis' position.\<close>

fun after_last :: "char \<Rightarrow> string \<Rightarrow> string option" where
  "after_last c [] = None"
| "after_last c (x # xs) =
     (case after_last c xs of Some r \<Rightarrow> Some r | None \<Rightarrow> if x = c then Some xs else None)"

text \<open>
  Reading a long from a stream: white space, an optional sign, digits; a value outside the range
  sets the failure bit, as no digits do.
\<close>

definition read_long :: "string \<Rightarrow> (int \<times> string) option" where
  "read_long s =
     (case parse_decimal s of
        None \<Rightarrow> None
      | Some (neg, m, rest) \<Rightarrow>
          let v = (if neg then - int m else int m)
          in if v < INT64_MIN \<or> INT64_MAX < v then None else Some (v, rest))"

definition read_char :: "string \<Rightarrow> (char \<times> string) option" where
  "read_char s = (case dropWhile c_isspace s of [] \<Rightarrow> None | c # cs \<Rightarrow> Some (c, cs))"

text \<open>The cast of a long to pid_t keeps the low 32 bits.\<close>

definition to_pid :: "int \<Rightarrow> pid" where
  "to_pid v = sint (word_of_int v :: 32 word)"

definition ReadProcessGroup :: "string option \<Rightarrow> pid option" where
  "ReadProcessGroup stat_line =
     (case stat_line of
        None \<Rightarrow> None
      | Some stat \<Rightarrow>
          (case after_last (CHR '')'') stat of
             None \<Rightarrow> None
           | Some rest \<Rightarrow>
               if length rest < 2 then None
               else (case read_char (tl rest) of
                   None \<Rightarrow> None
                 | Some (state, rest) \<Rightarrow>
                     (case read_long rest of
                        None \<Rightarrow> None
                      | Some (ppid, rest) \<Rightarrow> map_option (to_pid \<circ> fst) (read_long rest)))))"

text \<open>
  The entries of /proc are a list of names; the first line of the stat file of a process is a
  parameter, None when it cannot be read.
\<close>

definition proc_pid :: "string \<Rightarrow> pid" where
  "proc_pid name = to_pid (st_value (strtol name))"

definition FindPidsInProcessGroup :: "(pid \<Rightarrow> string option) \<Rightarrow> string list \<Rightarrow> pid \<Rightarrow> pid list" where
  "FindPidsInProcessGroup stat_of entries pgid =
     sort (map proc_pid (filter (\<lambda>name. IsNumericName name \<and>
       ReadProcessGroup (stat_of (proc_pid name)) = Some pgid) entries))"

section \<open>UpdateTaskProcessUtilization\<close>

definition GetXcliPath :: "env \<Rightarrow> string" where
  "GetXcliPath getenv = (case getenv ''XSCHED_XCLI'' of
     Some v \<Rightarrow> if v \<noteq> [] then v else ''/home/wyl/xsched/output/bin/xcli''
   | None \<Rightarrow> ''/home/wyl/xsched/output/bin/xcli'')"

text \<open>What became of the xcli process: no fork, no wait, or a wait status.\<close>

datatype wait_status = Exited nat | Signaled nat | OtherStatus nat

datatype xcli_run = Fork_fails string | Wait_fails string | Waited wait_status

fun status_number :: "wait_status \<Rightarrow> nat" where
  "status_number (Exited n) = 256 * n"
| "status_number (Signaled n) = n"
| "status_number (OtherStatus n) = n"

definition RunXcliHint :: "env \<Rightarrow> (string \<Rightarrow> bool) \<Rightarrow> (string list \<Rightarrow> xcli_run) \<Rightarrow> pid \<Rightarrow> int \<Rightarrow> string option" where
  "RunXcliHint getenv exists run pid utilization =
     (let xcli = GetXcliPath getenv
      in if \<not> exists xcli then Some (''xcli not found: '' @ xcli)
         else case run [xcli, ''hint'', ''--pid'', to_string pid, ''-u'', to_string utilization] of
             Fork_fails e \<Rightarrow> Some (''fork failed: '' @ e)
           | Wait_fails e \<Rightarrow> Some (''waitpid failed: '' @ e)
           | Waited status \<Rightarrow>
               if status = Exited 0 then None
               else Some (''xcli hint failed for pid '' @ to_string pid @ '' with status '' @
                   to_string (int (status_number status))))"

record UtilizationUpdateResult =
  ur_success :: bool
  ur_message :: string
  ur_pids :: "pid list"

fun hint_all :: "(pid \<Rightarrow> string option) \<Rightarrow> pid list \<Rightarrow> pid list \<times> string" where
  "hint_all hint [] = ([], [])"
| "hint_all hint (p # ps) =
     (case hint_all hint ps of (updated, last_error) \<Rightarrow>
        (case hint p of
           None \<Rightarrow> (p # updated, last_error)
         | Some e \<Rightarrow> (updated, if list_all (\<lambda>q. hint q = None) ps then e else last_error)))"

record update_os =
  uo_env :: env
  uo_exists :: "string \<Rightarrow> bool"
  uo_entries :: "string list"
  uo_stat :: "pid \<Rightarrow> string option"
  uo_run :: "string list \<Rightarrow> xcli_run"

definition UpdateTaskProcessUtilization :: "update_os \<Rightarrow> task_table \<Rightarrow> string \<Rightarrow> int \<Rightarrow> UtilizationUpdateResult" where
  "UpdateTaskProcessUtilization os table subdir utilization =
     (let fail = (\<lambda>m. \<lparr>ur_success = False, ur_message = m, ur_pids = []\<rparr>)
      in if subdir = [] then fail ''workspace_subdir must not be empty''
         else if utilization < 0 \<or> utilization > 100 then fail ''utilization must be in [0, 100]''
         else case table subdir of
             None \<Rightarrow> fail (''no running task found for workspace_subdir: '' @ subdir)
           | Some pgid \<Rightarrow>
               let pids = FindPidsInProcessGroup (uo_stat os) (uo_entries os) pgid
               in if pids = [] then fail (''no live process found in task process group: '' @ to_string pgid)
                  else case hint_all (\<lambda>p. RunXcliHint (uo_env os) (uo_exists os) (uo_run os) p utilization) pids of
                    (updated, last_error) \<Rightarrow>
                      if updated = [] then
                        fail (if last_error = [] then ''failed to update utilization for task process group'' else last_error)
                      else \<lparr>ur_success = True,
                            ur_message = ''utilization updated for workspace_subdir='' @ [CHR 0x27] @ subdir @ [CHR 0x27],
                            ur_pids = updated\<rparr>)"

section \<open>Facts\<close>

lemma after_last_none: "c \<notin> set xs \<Longrightarrow> after_last c xs = None"
  by (induction xs) auto

lemma after_last_split: "c \<notin> set ys \<Longrightarrow> after_last c (xs @ c # ys) = Some ys"
  by (induction xs) (simp_all add: after_last_none)

text \<open>A printed number followed by something that is no digit is read back, with the rest left over.\<close>

lemma parse_decimal_then:
  assumes "rest = [] \<or> \<not> c_isdigit (hd rest)"
  shows "parse_decimal (CHR '' '' # to_string i @ rest) = Some (i < 0, nat \<bar>i\<bar>, rest)"
proof -
  have run: "takeWhile c_isdigit (to_dec n @ rest) = to_dec n" "dropWhile c_isdigit (to_dec n @ rest) = rest" for n
    using takeWhile_all_append [OF to_dec_digits, of n rest] dropWhile_all_append [OF to_dec_digits, of n rest] assms
    by (cases rest; simp)+
  have sp: "c_isspace (CHR '' '')" "\<not> c_isspace (CHR ''-'')" by (simp_all add: c_isspace_def)
  show ?thesis
  proof (cases "i < 0")
    case True
    then show ?thesis using run [of "nat (- i)"] sp by (simp add: parse_decimal_def to_string_def Let_def)
  next
    case False
    obtain d ds where d: "to_dec (nat i) = d # ds" by (cases "to_dec (nat i)") auto
    obtain k where k: "k < 10" "d = digit_char k" using to_dec_hd [of "nat i"] d by auto
    have "dropWhile c_isspace (to_dec (nat i) @ rest) = to_dec (nat i) @ rest" using d k by simp
    moreover have "hd (to_dec (nat i) @ rest) \<noteq> CHR ''-''" "hd (to_dec (nat i) @ rest) \<noteq> CHR ''+''"
      "to_dec (nat i) @ rest \<noteq> []" using d k by simp_all
    ultimately show ?thesis using run [of "nat i"] sp False by (simp add: parse_decimal_def to_string_def Let_def)
  qed
qed

lemma read_long_back:
  assumes "rest = [] \<or> \<not> c_isdigit (hd rest)" "INT64_MIN \<le> i" "i \<le> INT64_MAX"
  shows "read_long (CHR '' '' # to_string i @ rest) = Some (i, rest)"
  using assms(2,3) by (simp add: read_long_def parse_decimal_then [OF assms(1)] Let_def)

lemma to_pid_id: "INT32_MIN \<le> v \<Longrightarrow> v \<le> INT32_MAX \<Longrightarrow> to_pid v = v"
  by (simp add: to_pid_def sint_sbintrunc' signed_take_bit_int_eq_self)

lemma no_paren_to_string: "CHR '')'' \<notin> set (to_string i)"
  using to_dec_digits [of "nat i"] to_dec_digits [of "nat (- i)"]
  by (auto simp: to_string_def c_isdigit_def)

lemma hint_all_updated: "fst (hint_all hint ps) = filter (\<lambda>p. hint p = None) ps"
  by (induction ps) (auto split: prod.splits option.splits)

section \<open>Properties\<close>

text \<open>The first fields of a line of /proc/<pid>/stat.\<close>

definition stat_line :: "int \<Rightarrow> string \<Rightarrow> char \<Rightarrow> int \<Rightarrow> int \<Rightarrow> string \<Rightarrow> string" where
  "stat_line pid comm state ppid pgrp more_fields =
     to_string pid @ '' ('' @ comm @ '') '' @ state # CHR '' '' # to_string ppid @ CHR '' '' # to_string pgrp @ more_fields"

text \<open>The process group is read correctly whatever a process is called: a name with blanks, digits or
  parentheses in it does not move the fields, since the line is split at its last parenthesis.\<close>

theorem ReadProcessGroup_exact:
  assumes "\<not> c_isspace state" "state \<noteq> CHR '')''" "CHR '')'' \<notin> set rest"
    "rest = [] \<or> \<not> c_isdigit (hd rest)" "INT64_MIN \<le> ppid" "ppid \<le> INT64_MAX" "INT32_MIN \<le> pgrp" "pgrp \<le> INT32_MAX"
  shows "ReadProcessGroup (Some (stat_line pid comm state ppid pgrp rest)) = Some pgrp"
proof -
  let ?tail = "CHR '' '' # to_string ppid @ CHR '' '' # to_string pgrp @ rest"
  have l: "stat_line pid comm state ppid pgrp rest = (to_string pid @ '' ('' @ comm) @ CHR '')'' # CHR '' '' # state # ?tail"
    by (simp add: stat_line_def)
  have a: "after_last (CHR '')'') (stat_line pid comm state ppid pgrp rest) = Some (CHR '' '' # state # ?tail)"
    unfolding l by (rule after_last_split) (use assms(2,3) no_paren_to_string in auto)
  have c: "read_char (state # ?tail) = Some (state, ?tail)" using assms(1) by (simp add: read_char_def)
  have p: "read_long ?tail = Some (ppid, CHR '' '' # to_string pgrp @ rest)"
    by (rule read_long_back) (use assms(5,6) in \<open>simp_all add: c_isdigit_def\<close>)
  have g: "read_long (CHR '' '' # to_string pgrp @ rest) = Some (pgrp, rest)"
    by (rule read_long_back [OF assms(4)]) (use assms(7,8) in simp_all)
  show ?thesis using a c p g to_pid_id [OF assms(7,8)] by (simp add: ReadProcessGroup_def)
qed

theorem ReadProcessGroup_exact_witness:
  "ReadProcessGroup (Some (stat_line 7 ''a) S 1 2'' (CHR ''R'') 1 4242 '' 99 0'')) = Some 4242"
proof (rule ReadProcessGroup_exact)
qed (simp_all add: c_isspace_def c_isdigit_def)

text \<open>An update of the utilization reaches the task and nothing else: when it reports success, the value
  is between 0 and 100, a task is registered for the workspace, and the processes it lists are
  exactly those of that task's process group for which xcli exited with 0, at least one.\<close>

theorem utilization_update_sound:
  assumes "ur_success (UpdateTaskProcessUtilization os table subdir u)"
  shows "0 \<le> u \<and> u \<le> 100 \<and> ur_pids (UpdateTaskProcessUtilization os table subdir u) \<noteq> [] \<and>
    (\<exists>pgid. table subdir = Some pgid \<and>
      set (ur_pids (UpdateTaskProcessUtilization os table subdir u)) =
        {p. (\<exists>name. name \<in> set (uo_entries os) \<and> IsNumericName name \<and> p = proc_pid name) \<and>
            ReadProcessGroup (uo_stat os p) = Some pgid \<and>
            RunXcliHint (uo_env os) (uo_exists os) (uo_run os) p u = None})"
proof -
  let ?r = "UpdateTaskProcessUtilization os table subdir u"
  let ?h = "\<lambda>p. RunXcliHint (uo_env os) (uo_exists os) (uo_run os) p u"
  obtain pgid where g: "table subdir = Some pgid" and b: "0 \<le> u" "u \<le> 100"
    using assms by (auto simp: UpdateTaskProcessUtilization_def Let_def split: if_splits option.splits)
  let ?ps = "FindPidsInProcessGroup (uo_stat os) (uo_entries os) pgid"
  obtain updated e where h: "hint_all ?h ?ps = (updated, e)" by (rule prod.exhaust)
  have r: "updated \<noteq> []" "ur_pids ?r = updated"
    using assms g h by (auto simp: UpdateTaskProcessUtilization_def Let_def split: if_splits)
  have u: "updated = filter (\<lambda>p. ?h p = None) ?ps" using hint_all_updated [of ?h ?ps] h by simp
  have "set updated = {p. (\<exists>name. name \<in> set (uo_entries os) \<and> IsNumericName name \<and> p = proc_pid name) \<and>
      ReadProcessGroup (uo_stat os p) = Some pgid \<and> ?h p = None}"
    unfolding u by (auto simp: FindPidsInProcessGroup_def)
  then show ?thesis using g b r by auto
qed

definition demo_os :: update_os where
  "demo_os = \<lparr>uo_env = [''XSCHED_XCLI'' \<mapsto> ''/x''], uo_exists = (\<lambda>f. f = ''/x''), uo_entries = [''12'', ''self'', ''7''],
     uo_stat = (\<lambda>p. Some (''1 (a) S 1 '' @ (if p = 12 then ''12'' else ''5''))), uo_run = (\<lambda>_. Waited (Exited 0))\<rparr>"

theorem utilization_update_sound_witness:
  "ur_pids (UpdateTaskProcessUtilization demo_os [''job'' \<mapsto> 12] ''job'' 50) = [12] \<and>
   ur_pids (UpdateTaskProcessUtilization demo_os [''job'' \<mapsto> 12] ''job'' 50) \<noteq> []"
proof -
  have "ur_success (UpdateTaskProcessUtilization demo_os [''job'' \<mapsto> 12] ''job'' 50)" by code_simp
  note s = utilization_update_sound [OF this]
  have "ur_pids (UpdateTaskProcessUtilization demo_os [''job'' \<mapsto> 12] ''job'' 50) = [12]" by code_simp
  then show ?thesis using s by blast
qed

end
