(* ===== verification/TaskExecutor.thy ===== *)
theory TaskExecutor
  imports ShellText RuntimeControl Upload
begin

text \<open>
  Running the command of a task, class TaskExecutor of server/task_executor.cc: the environment
  of the child, its start with a terminal or a pipe, the loop that relays its output, and the
  outcome. What the kernel answers (descriptors, process numbers, poll, read, waitpid, the
  clock) is a parameter: a list of observations, one for each round of the loop.
\<close>

section \<open>The environment of the child\<close>

definition setenv :: "string \<Rightarrow> string \<Rightarrow> bool \<Rightarrow> env \<Rightarrow> env" where
  "setenv name val overwrite E = (if \<not> overwrite \<and> E name \<noteq> None then E else E(name \<mapsto> val))"

definition unsetenv :: "string \<Rightarrow> env \<Rightarrow> env" where
  "unsetenv name E = E(name := None)"

definition ConfigureChildEnvironment :: "bool \<Rightarrow> env \<Rightarrow> env" where
  "ConfigureChildEnvironment want_pty E =
     (let E = setenv ''PYTHONUNBUFFERED'' ''1'' False E
      in if want_pty then setenv ''TERM'' ''xterm-256color'' False E else E)"

definition RuntimeUtilizationPath :: "path \<Rightarrow> path" where
  "RuntimeUtilizationPath workspace_dir = path_append workspace_dir (parse_path ''.drex_utilization'')"

definition WriteRuntimeUtilizationFile :: "host \<Rightarrow> path \<Rightarrow> int \<Rightarrow> files \<Rightarrow> files" where
  "WriteRuntimeUtilizationFile H workspace_dir utilization fs =
     (if utilization < 0 \<or> utilization > 100 then fs
      else case open_trunc H (RuntimeUtilizationPath workspace_dir) fs of
        None \<Rightarrow> fs
      | Some fs1 \<Rightarrow>
          (case write_stream H (RuntimeUtilizationPath workspace_dir) (to_string utilization @ [CHR 0x0A]) fs1 of
             None \<Rightarrow> fs1
           | Some fs2 \<Rightarrow> fs2))"

definition ConfigureDrexRuntimeEnvironment :: "host \<Rightarrow> TaskConfig \<Rightarrow> path \<Rightarrow> env \<times> files \<Rightarrow> env \<times> files" where
  "ConfigureDrexRuntimeEnvironment H config workspace_dir ef =
     (case ef of (E, fs) \<Rightarrow>
        (setenv ''DREX_UTILIZATION_FILE'' (path_string (RuntimeUtilizationPath workspace_dir)) True E,
         if xsched_enabled config \<and> xsched_utilization config \<ge> 0
         then WriteRuntimeUtilizationFile H workspace_dir (xsched_utilization config) fs else fs))"

definition ConfigureXSchedEnvironment :: "TaskConfig \<Rightarrow> env \<Rightarrow> env" where
  "ConfigureXSchedEnvironment config E =
     (if \<not> xsched_enabled config then E
      else
        let E = setenv ''XSCHED_SCHEDULER'' ''GLB'' True E;
            E = setenv ''XSCHED_AUTO_XQUEUE'' ''ON'' True E;
            E = unsetenv ''XSCHED_POLICY'' E
        in if xsched_utilization config \<ge> 0
           then setenv ''XSCHED_AUTO_XQUEUE_UTILIZATION'' (to_string (xsched_utilization config)) True E
           else E)"

definition child_environment :: "host \<Rightarrow> bool \<Rightarrow> TaskConfig \<Rightarrow> path \<Rightarrow> env \<times> files \<Rightarrow> env \<times> files" where
  "child_environment H want_pty config workspace_root ef =
     (case ConfigureDrexRuntimeEnvironment H config
        (path_append workspace_root (parse_path (workspace_subdir config)))
        (ConfigureChildEnvironment want_pty (fst ef), snd ef) of
        (E, fs) \<Rightarrow> (ConfigureXSchedEnvironment config E, fs))"

section \<open>Starting the child\<close>

record ChildProcess =
  child_pid :: pid
  child_read_fd :: nat
  child_use_pty :: bool

datatype signal = SIGTERM | SIGKILL

text \<open>
  What the server process holds: open descriptors, children not yet waited for; what it did:
  signals to processes and to groups, the command lines it started, the log chunks it sent.
\<close>

record proc_state =
  ps_fds :: "nat list"
  ps_kids :: "pid list"
  ps_signals :: "(pid \<times> signal) list"
  ps_started :: "string list"
  ps_log :: "string list"

definition open_fd :: "nat \<Rightarrow> proc_state \<Rightarrow> proc_state" where
  "open_fd fd S = S\<lparr>ps_fds := fd # ps_fds S\<rparr>"

definition close_fd :: "nat \<Rightarrow> proc_state \<Rightarrow> proc_state" where
  "close_fd fd S = S\<lparr>ps_fds := remove1 fd (ps_fds S)\<rparr>"

definition reap :: "pid \<Rightarrow> proc_state \<Rightarrow> proc_state" where
  "reap p S = S\<lparr>ps_kids := remove1 p (ps_kids S)\<rparr>"

definition send_signal :: "pid \<Rightarrow> signal \<Rightarrow> proc_state \<Rightarrow> proc_state" where
  "send_signal p sig S = S\<lparr>ps_signals := ps_signals S @ [(p, sig)]\<rparr>"

definition EmitLogChunk :: "string \<Rightarrow> proc_state \<Rightarrow> proc_state" where
  "EmitLogChunk chunk S = (if chunk = [] then S else S\<lparr>ps_log := ps_log S @ [chunk]\<rparr>)"

text \<open>The answers of the kernel while a child is started.\<close>

record start_os =
  so_env :: env
  so_exists :: "string \<Rightarrow> bool"
  so_forkpty :: "(pid \<times> nat) option"
  so_pipe :: "(nat \<times> nat) option"
  so_fork :: "pid option"
  so_getfl :: "bool"
  so_setfl :: "bool"
  so_errtext :: string

definition SetNonBlocking :: "start_os \<Rightarrow> bool" where
  "SetNonBlocking os = (if \<not> so_getfl os then False else so_setfl os)"

definition start_error :: "start_os \<Rightarrow> string \<Rightarrow> grpc_error" where
  "start_error os what = (INTERNAL, what @ so_errtext os)"

definition spawn :: "pid \<Rightarrow> string \<Rightarrow> proc_state \<Rightarrow> proc_state" where
  "spawn p cmd S = S\<lparr>ps_kids := p # ps_kids S, ps_started := ps_started S @ [cmd]\<rparr>"

text \<open>A descriptor that cannot be made non-blocking: the child is killed and waited for.\<close>

definition abandon_child :: "pid \<Rightarrow> nat \<Rightarrow> proc_state \<Rightarrow> proc_state" where
  "abandon_child p fd S = reap p (send_signal p SIGKILL (close_fd fd S))"

definition StartChildProcess :: "start_os \<Rightarrow> TaskConfig \<Rightarrow> proc_state \<Rightarrow> (grpc_error + ChildProcess) \<times> proc_state" where
  "StartChildProcess os config S =
     (let want_pty = (enable_pty config \<and> so_env os ''RPC_WORK_DISABLE_PTY'' = None);
          exec_command = BuildCommandForExecution (so_env os) (so_exists os) (command config) want_pty
      in if want_pty then
           (case so_forkpty os of
              None \<Rightarrow> (Inl (start_error os ''forkpty failed: ''), S)
            | Some (p, master_fd) \<Rightarrow>
                let S = spawn p exec_command (open_fd master_fd S)
                in if \<not> SetNonBlocking os then
                     (Inl (start_error os ''Failed to configure PTY fd: ''), abandon_child p master_fd S)
                   else (Inr \<lparr>child_pid = p, child_read_fd = master_fd, child_use_pty = True\<rparr>, S))
         else
           (case so_pipe os of
              None \<Rightarrow> (Inl (start_error os ''Failed to create pipe: ''), S)
            | Some (rd, wr) \<Rightarrow>
                let S = open_fd rd (open_fd wr S)
                in (case so_fork os of
                      None \<Rightarrow> (Inl (start_error os ''Fork failed: ''), close_fd wr (close_fd rd S))
                    | Some p \<Rightarrow>
                        let S = close_fd wr (spawn p exec_command S)
                        in if \<not> SetNonBlocking os then
                             (Inl (start_error os ''Failed to configure pipe fd: ''), abandon_child p rd S)
                           else (Inr \<lparr>child_pid = p, child_read_fd = rd, child_use_pty = False\<rparr>, S))))"

section \<open>Relaying the output\<close>

text \<open>Answers of read; when the list of a round is used up, read answers EAGAIN.\<close>

datatype read_result = Read_bytes string int | Read_eintr | Read_eio | Read_error

datatype poll_result = Poll_error bool | Poll_timeout int | Poll_ready bool "read_result list"

text \<open>
  One round: whether the cancellation thread has seen the call cancelled by now, the answer of
  waitpid with the clock after it, the answer of poll with the clock or the reads after it, and
  the text of errno should one of them fail.
\<close>

record observation =
  ob_cancelled :: bool
  ob_waitpid :: "wait_status option"
  ob_clock :: int
  ob_poll :: poll_result
  ob_errtext :: string

text \<open>
  After the loop: whether the cancellation thread sees the call cancelled before it is told to
  stop, and the answer of the blocking waitpid.
\<close>

record end_os =
  eo_cancelled :: bool
  eo_waitpid :: "wait_status option"

record monitor_state =
  ms_exited :: bool
  ms_wait_status :: wait_status
  ms_exit_tp :: int
  ms_last_output :: int
  ms_combined :: string
  ms_cancelled :: bool

datatype read_end = Drained | Stream_ended | Read_failed

fun read_output :: "bool \<Rightarrow> read_result list \<Rightarrow> monitor_state \<Rightarrow> proc_state \<Rightarrow> read_end \<times> monitor_state \<times> proc_state" where
  "read_output use_pty [] m S = (Drained, m, S)"
| "read_output use_pty (Read_bytes bytes now # rs) m S =
     (if bytes = [] then (Stream_ended, m, S)
      else read_output use_pty rs (m\<lparr>ms_combined := ms_combined m @ bytes, ms_last_output := now\<rparr>)
             (EmitLogChunk bytes S))"
| "read_output use_pty (Read_eintr # rs) m S = read_output use_pty rs m S"
| "read_output use_pty (Read_eio # rs) m S = (if use_pty then (Stream_ended, m, S) else (Read_failed, m, S))"
| "read_output use_pty (Read_error # rs) m S = (Read_failed, m, S)"

text \<open>The cancellation thread: the flag, then the signals to the group of the child.\<close>

definition cancel_thread :: "pid \<Rightarrow> bool \<Rightarrow> monitor_state \<Rightarrow> proc_state \<Rightarrow> monitor_state \<times> proc_state" where
  "cancel_thread p seen m S =
     (if seen \<and> \<not> ms_cancelled m
      then (m\<lparr>ms_cancelled := True\<rparr>, send_signal p SIGKILL (send_signal p SIGTERM S))
      else (m, S))"

definition wait_nohang :: "pid \<Rightarrow> observation \<Rightarrow> monitor_state \<Rightarrow> proc_state \<Rightarrow> monitor_state \<times> proc_state" where
  "wait_nohang p ob m S =
     (if ms_exited m then (m, S)
      else case ob_waitpid ob of
        None \<Rightarrow> (m, S)
      | Some st \<Rightarrow> (m\<lparr>ms_exited := True, ms_wait_status := st, ms_exit_tp := ob_clock ob\<rparr>, reap p S))"

definition tail_text :: "string \<Rightarrow> string" where
  "tail_text s = drop (length s - 4096) s"

definition newline :: string where
  "newline = [CHR 0x0A]"

definition exit_outcome :: "bool \<Rightarrow> wait_status \<Rightarrow> string \<Rightarrow> grpc_error option" where
  "exit_outcome cancelled status combined =
     (if cancelled then Some (CANCELLED, ''Client cancelled request.'')
      else case status of
        Exited n \<Rightarrow>
          if n \<noteq> 0 then
            Some (INTERNAL, ''Task failed with exit code: '' @ to_dec n @
              (if combined = [] then [] else newline @ ''--- remote output tail ---'' @ newline @ tail_text combined))
          else None
      | Signaled n \<Rightarrow> Some (INTERNAL, ''Task terminated by signal: '' @ to_dec n)
      | OtherStatus n \<Rightarrow> Some (INTERNAL, ''Task ended abnormally!''))"

type_synonym monitor_result = "grpc_error option \<times> monitor_state \<times> proc_state"

text \<open>After the loop.\<close>

definition finish_monitor :: "ChildProcess \<Rightarrow> end_os \<Rightarrow> monitor_state \<Rightarrow> proc_state \<Rightarrow> monitor_result" where
  "finish_monitor child final m S =
     (let S = close_fd (child_read_fd child) S
      in if \<not> ms_exited m then
           (case eo_waitpid final of
              None \<Rightarrow> (Some (INTERNAL, ''Failed to wait for task process!''), m, S)
            | Some st \<Rightarrow> (exit_outcome (ms_cancelled m) st (ms_combined m), m, reap (child_pid child) S))
         else (exit_outcome (ms_cancelled m) (ms_wait_status m) (ms_combined m), m, S))"

definition idle_ms_of :: "int \<Rightarrow> monitor_state \<Rightarrow> int" where
  "idle_ms_of now m = sint (word_of_int (now - ms_last_output m) :: 32 word)"

definition idle_message :: "int \<Rightarrow> string" where
  "idle_message idle = newline @ ''No output for '' @ to_string idle @
     '' ms; task did not exit. Terminating process group...'' @ newline"

text \<open>The idle timeout: the group is terminated and the child waited for.\<close>

definition idle_timeout_exit :: "ChildProcess \<Rightarrow> int \<Rightarrow> monitor_state \<Rightarrow> proc_state \<Rightarrow> monitor_result" where
  "idle_timeout_exit child idle m S =
     (Some (DEADLINE_EXCEEDED, ''Task timed out due to inactivity (no terminal output).'' @ newline @
        ''Hint: set RPC_WORK_IDLE_TIMEOUT_MS=-1 to disable, or increase it.''), m,
      reap (child_pid child) (send_signal (child_pid child) SIGKILL (send_signal (child_pid child) SIGTERM
        (EmitLogChunk (idle_message idle) S))))"

text \<open>
  Every way out of the loop stops the cancellation thread and joins it; it may have seen the
  call cancelled until then.
\<close>

definition leave_loop :: "ChildProcess \<Rightarrow> end_os \<Rightarrow> (monitor_state \<Rightarrow> proc_state \<Rightarrow> monitor_result) \<Rightarrow>
    monitor_state \<Rightarrow> proc_state \<Rightarrow> monitor_result option" where
  "leave_loop child final k m S =
     (case cancel_thread (child_pid child) (eo_cancelled final) m S of (m, S) \<Rightarrow> Some (k m S))"

definition failed_exit :: "ChildProcess \<Rightarrow> string \<Rightarrow> monitor_state \<Rightarrow> proc_state \<Rightarrow> monitor_result" where
  "failed_exit child message m S = (Some (INTERNAL, message), m, close_fd (child_read_fd child) S)"

fun monitor_loop :: "ChildProcess \<Rightarrow> int \<Rightarrow> end_os \<Rightarrow> observation list \<Rightarrow> monitor_state \<Rightarrow> proc_state \<Rightarrow>
    monitor_result option" where
  "monitor_loop child idle_timeout_ms final [] m S = None"
| "monitor_loop child idle_timeout_ms final (ob # obs) m S =
     (let (m, S) = cancel_thread (child_pid child) (ob_cancelled ob) m S;
          (m, S) = wait_nohang (child_pid child) ob m S
      in case ob_poll ob of
           Poll_error eintr \<Rightarrow>
             if eintr then monitor_loop child idle_timeout_ms final obs m S
             else leave_loop child final (failed_exit child (''poll() failed: '' @ ob_errtext ob)) m S
         | Poll_timeout now \<Rightarrow>
             if \<not> ms_exited m then
               (if idle_timeout_ms \<ge> 0 \<and> idle_ms_of now m \<ge> idle_timeout_ms
                then leave_loop child final (idle_timeout_exit child (idle_ms_of now m)) m S
                else monitor_loop child idle_timeout_ms final obs m S)
             else if now - ms_exit_tp m \<ge> 50 then leave_loop child final (finish_monitor child final) m S
             else monitor_loop child idle_timeout_ms final obs m S
         | Poll_ready readable rs \<Rightarrow>
             if \<not> readable then monitor_loop child idle_timeout_ms final obs m S
             else (case read_output (child_use_pty child) rs m S of
                 (Drained, m, S) \<Rightarrow> monitor_loop child idle_timeout_ms final obs m S
               | (Stream_ended, m, S) \<Rightarrow> leave_loop child final (finish_monitor child final) m S
               | (Read_failed, m, S) \<Rightarrow>
                   leave_loop child final (failed_exit child (''Failed to read task output: '' @ ob_errtext ob)) m S))"

definition start_monitor :: "int \<Rightarrow> monitor_state" where
  "start_monitor now = \<lparr>ms_exited = False, ms_wait_status = Exited 0, ms_exit_tp = 0, ms_last_output = now,
     ms_combined = [], ms_cancelled = False\<rparr>"

definition MonitorChildProcess :: "env \<Rightarrow> int \<Rightarrow> ChildProcess \<Rightarrow> end_os \<Rightarrow> observation list \<Rightarrow> proc_state \<Rightarrow>
    monitor_result option" where
  "MonitorChildProcess getenv now child final obs S =
     monitor_loop child (ParseEnvMillis getenv ''RPC_WORK_IDLE_TIMEOUT_MS'' (- 1)) final obs (start_monitor now)
       (EmitLogChunk (''[From server] Command started, waiting for output...'' @ newline) S)"

section \<open>RunCommand and Execute\<close>

record exec_world =
  ew_files :: files
  ew_procs :: proc_state
  ew_tasks :: task_table

text \<open>Everything outside the server that one task meets; the child's own work on the files is a parameter.\<close>

record task_os =
  to_start :: start_os
  to_now :: int
  to_final :: end_os
  to_rounds :: "observation list"
  to_work :: "files \<Rightarrow> files"

definition RunCommand :: "host \<Rightarrow> task_os \<Rightarrow> path \<Rightarrow> TaskConfig \<Rightarrow> exec_world \<Rightarrow>
    (grpc_error option \<times> string \<times> exec_world) option" where
  "RunCommand H os workspace_root config W =
     (case StartChildProcess (to_start os) config (ew_procs W) of
        (Inl e, P) \<Rightarrow> Some (Some e, [], W\<lparr>ew_procs := P\<rparr>)
      | (Inr child, P) \<Rightarrow>
          let fs = snd (child_environment H (child_use_pty child) config workspace_root (so_env (to_start os), ew_files W));
              tasks = RegisterTaskProcessGroup (workspace_subdir config) (child_pid child) (ew_tasks W)
          in (case MonitorChildProcess (so_env (to_start os)) (to_now os) child (to_final os) (to_rounds os) P of
                None \<Rightarrow> None
              | Some (status, m, P) \<Rightarrow>
                  Some (status, ms_combined m,
                    W\<lparr>ew_files := to_work os fs, ew_procs := P,
                      ew_tasks := UnregisterTaskProcessGroup (workspace_subdir config) (child_pid child) tasks\<rparr>)))"

record TaskResult =
  tr_success :: bool
  tr_message :: string
  tr_archive :: string
  tr_archive_size :: int

definition Execute :: "host \<Rightarrow> task_os \<Rightarrow> path \<Rightarrow> TaskConfig \<Rightarrow> exec_world \<Rightarrow>
    ((grpc_error + TaskResult) \<times> exec_world) option" where
  "Execute H os workspace_root config W =
     (if command config = [] then Some (Inl (INVALID_ARGUMENT, ''Command must not be empty!''), W)
      else
        let run_dir = lexically_normal (path_append workspace_root (parse_path (workspace_subdir config)))
        in case create_directories H run_dir (ew_files W) of
             None \<Rightarrow> Some (Inl (INTERNAL, ''Failed to prepare workspace directory for execution!''), W)
           | Some fs \<Rightarrow>
               let fs = snd (ConfigureDrexRuntimeEnvironment H config run_dir (so_env (to_start os), fs))
               in (case RunCommand H os workspace_root config (W\<lparr>ew_files := fs\<rparr>) of
                     None \<Rightarrow> None
                   | Some (Some e, out, W) \<Rightarrow> Some (Inl e, W)
                   | Some (None, out, W) \<Rightarrow>
                       Some (Inr \<lparr>tr_success = True, tr_message = ''Task executed successfully.'',
                                 tr_archive = [], tr_archive_size = 0\<rparr>,
                             W\<lparr>ew_procs := EmitLogChunk (''Command finished.'' @ newline) (ew_procs W)\<rparr>)))"

section \<open>A rule for the loop\<close>

text \<open>
  An invariant kept by the cancellation thread, by waitpid and by the reads holds at each of the
  four exits of the loop.
\<close>

lemma monitor_loop_rule:
  assumes "monitor_loop child t final obs m S = Some r" "I m S"
    and cancel: "\<And>seen m S m' S'. I m S \<Longrightarrow> cancel_thread (child_pid child) seen m S = (m', S') \<Longrightarrow> I m' S'"
    and wait: "\<And>ob m S m' S'. ob \<in> set obs \<Longrightarrow> I m S \<Longrightarrow> wait_nohang (child_pid child) ob m S = (m', S') \<Longrightarrow> I m' S'"
    and rd: "\<And>rs m S e m' S'. I m S \<Longrightarrow> read_output (child_use_pty child) rs m S = (e, m', S') \<Longrightarrow> I m' S'"
    and failed: "\<And>t m S. I m S \<Longrightarrow> Q (failed_exit child t m S)"
    and idle_exit: "\<And>i m S. I m S \<Longrightarrow> \<not> ms_exited m \<Longrightarrow> Q (idle_timeout_exit child i m S)"
    and end_exit: "\<And>m S. I m S \<Longrightarrow> Q (finish_monitor child final m S)"
  shows "Q r"
  using assms(1,2) wait
proof (induction obs arbitrary: m S)
  case (Cons ob obs)
  obtain m1 S1 where c: "cancel_thread (child_pid child) (ob_cancelled ob) m S = (m1, S1)" by (rule prod.exhaust)
  obtain m2 S2 where w: "wait_nohang (child_pid child) ob m1 S1 = (m2, S2)" by (rule prod.exhaust)
  have I2: "I m2 S2"
    by (rule Cons.prems(3) [OF _ cancel [OF Cons.prems(2) c] w]) simp
  have later: "I m' S'" if "ob' \<in> set obs" "I m S" "wait_nohang (child_pid child) ob' m S = (m', S')"
    for ob' m S m' S'
    by (rule Cons.prems(3) [OF _ that(2,3)]) (use that(1) in simp)
  have IH: "Q r" if "monitor_loop child t final obs m' S' = Some r" "I m' S'" for m' S'
    by (rule Cons.IH [OF that later])
  have leave: "Q r" if "leave_loop child final k m' S' = Some r" "I m' S'" "\<And>m S. I m S \<Longrightarrow> ms_exited m = ms_exited m' \<Longrightarrow> Q (k m S)"
    for k m' S'
  proof -
    obtain m4 S4 where c4: "cancel_thread (child_pid child) (eo_cancelled final) m' S' = (m4, S4)" by (rule prod.exhaust)
    have e: "ms_exited m4 = ms_exited m'" using c4 by (auto simp: cancel_thread_def split: if_splits)
    show ?thesis using that(1) that(3) [OF cancel [OF that(2) c4] e] c4 by (simp add: leave_loop_def)
  qed
  note l = Cons.prems(1) [unfolded monitor_loop.simps c Let_def prod.case w]
  show ?case
  proof (cases "ob_poll ob")
    case (Poll_error eintr)
    show ?thesis
    proof (cases eintr)
      case True
      then show ?thesis using l Poll_error IH I2 by simp
    next
      case False
      then have "leave_loop child final (failed_exit child (''poll() failed: '' @ ob_errtext ob)) m2 S2 = Some r"
        using l Poll_error by simp
      then show ?thesis by (rule leave [OF _ I2]) (rule failed)
    qed
  next
    case (Poll_timeout now)
    show ?thesis
    proof (cases "ms_exited m2")
      case True
      then have "monitor_loop child t final obs m2 S2 = Some r \<or> leave_loop child final (finish_monitor child final) m2 S2 = Some r"
        using l Poll_timeout by (auto split: if_splits)
      then show ?thesis by (elim disjE) (erule IH [OF _ I2], erule leave [OF _ I2], rule end_exit)
    next
      case False
      then have "monitor_loop child t final obs m2 S2 = Some r \<or>
          leave_loop child final (idle_timeout_exit child (idle_ms_of now m2)) m2 S2 = Some r"
        using l Poll_timeout by (auto split: if_splits)
      then show ?thesis
      proof (elim disjE)
        assume "leave_loop child final (idle_timeout_exit child (idle_ms_of now m2)) m2 S2 = Some r"
        then show ?thesis by (rule leave [OF _ I2]) (simp add: idle_exit False)
      qed (erule IH [OF _ I2])
    qed
  next
    case (Poll_ready readable rs)
    obtain e m3 S3 where rr: "read_output (child_use_pty child) rs m2 S2 = (e, m3, S3)" by (rule prod_cases3)
    have I3: "I m3 S3" by (rule rd [OF I2 rr])
    show ?thesis
    proof (cases readable)
      case False
      then show ?thesis using l Poll_ready IH I2 by simp
    next
      case True
      show ?thesis
      proof (cases e)
        case Drained
        then have "monitor_loop child t final obs m3 S3 = Some r" using l Poll_ready rr True by simp
        then show ?thesis by (rule IH [OF _ I3])
      next
        case Stream_ended
        then have "leave_loop child final (finish_monitor child final) m3 S3 = Some r" using l Poll_ready rr True by simp
        then show ?thesis by (rule leave [OF _ I3]) (rule end_exit)
      next
        case Read_failed
        then have "leave_loop child final (failed_exit child (''Failed to read task output: '' @ ob_errtext ob)) m3 S3 = Some r"
          using l Poll_ready rr True by simp
        then show ?thesis by (rule leave [OF _ I3]) (rule failed)
      qed
    qed
  qed
qed simp

section \<open>What each part keeps\<close>

lemma close_fd_fields [simp]:
  "ps_fds (close_fd fd S) = remove1 fd (ps_fds S)" "ps_kids (close_fd fd S) = ps_kids S"
  "ps_signals (close_fd fd S) = ps_signals S" "ps_log (close_fd fd S) = ps_log S"
  "ps_started (close_fd fd S) = ps_started S"
  by (simp_all add: close_fd_def)

lemma reap_fields [simp]:
  "ps_fds (reap p S) = ps_fds S" "ps_kids (reap p S) = remove1 p (ps_kids S)"
  "ps_signals (reap p S) = ps_signals S" "ps_log (reap p S) = ps_log S" "ps_started (reap p S) = ps_started S"
  by (simp_all add: reap_def)

lemma send_signal_fields [simp]:
  "ps_fds (send_signal p sig S) = ps_fds S" "ps_kids (send_signal p sig S) = ps_kids S"
  "ps_signals (send_signal p sig S) = ps_signals S @ [(p, sig)]" "ps_log (send_signal p sig S) = ps_log S"
  "ps_started (send_signal p sig S) = ps_started S"
  by (simp_all add: send_signal_def)

lemma EmitLogChunk_fields [simp]:
  "ps_fds (EmitLogChunk c S) = ps_fds S" "ps_kids (EmitLogChunk c S) = ps_kids S"
  "ps_signals (EmitLogChunk c S) = ps_signals S" "ps_started (EmitLogChunk c S) = ps_started S"
  "ps_log (EmitLogChunk c S) = ps_log S @ (if c = [] then [] else [c])"
  by (simp_all add: EmitLogChunk_def)

lemma spawn_fields [simp]:
  "ps_fds (spawn p c S) = ps_fds S" "ps_kids (spawn p c S) = p # ps_kids S"
  "ps_signals (spawn p c S) = ps_signals S" "ps_log (spawn p c S) = ps_log S"
  "ps_started (spawn p c S) = ps_started S @ [c]"
  by (simp_all add: spawn_def)

lemma open_fd_fields [simp]:
  "ps_fds (open_fd fd S) = fd # ps_fds S" "ps_kids (open_fd fd S) = ps_kids S"
  "ps_signals (open_fd fd S) = ps_signals S" "ps_log (open_fd fd S) = ps_log S"
  "ps_started (open_fd fd S) = ps_started S"
  by (simp_all add: open_fd_def)

lemma read_output_keeps:
  "read_output pty rs m S = (e, m', S') \<Longrightarrow>
     ps_fds S' = ps_fds S \<and> ps_kids S' = ps_kids S \<and> ps_signals S' = ps_signals S \<and>
     ms_exited m' = ms_exited m \<and> ms_wait_status m' = ms_wait_status m \<and> ms_cancelled m' = ms_cancelled m"
  by (induction pty rs m S rule: read_output.induct) (auto split: if_splits)

text \<open>What is relayed: the chunks sent so far are the output collected so far.\<close>

definition relayed :: "string list \<Rightarrow> monitor_state \<Rightarrow> proc_state \<Rightarrow> bool" where
  "relayed before m S \<longleftrightarrow> (\<exists>chunks. ps_log S = before @ chunks \<and> ms_combined m = concat chunks \<and> [] \<notin> set chunks)"

lemma relayed_more:
  "relayed before m S \<Longrightarrow> b \<noteq> [] \<Longrightarrow>
     relayed before (m\<lparr>ms_combined := ms_combined m @ b, ms_last_output := now\<rparr>) (EmitLogChunk b S)"
  unfolding relayed_def by (elim exE, rule_tac x = "chunks @ [b]" in exI) simp

lemma read_output_relayed:
  "read_output pty rs m S = (e, m', S') \<Longrightarrow> relayed before m S \<Longrightarrow> relayed before m' S'"
proof (induction pty rs m S rule: read_output.induct)
  case (2 pty bytes now rs m S)
  then show ?case using relayed_more [of before m S bytes now] by (auto split: if_splits)
qed (auto split: if_splits)

lemma relayed_state:
  "relayed before m S \<Longrightarrow> ps_log S' = ps_log S \<Longrightarrow> ms_combined m' = ms_combined m \<Longrightarrow> relayed before m' S'"
  by (simp add: relayed_def)

definition is_deadline :: "grpc_error option \<Rightarrow> bool" where
  "is_deadline r \<longleftrightarrow> (case r of Some (DEADLINE_EXCEEDED, _) \<Rightarrow> True | _ \<Rightarrow> False)"

lemma is_deadline_simps [simp]:
  "\<not> is_deadline None" "is_deadline (Some (DEADLINE_EXCEEDED, s))" "\<not> is_deadline (Some (INTERNAL, s))"
  "\<not> is_deadline (Some (CANCELLED, s))"
  by (simp_all add: is_deadline_def)

lemma exit_outcome_deadline [simp]: "\<not> is_deadline (exit_outcome c st out)"
  by (simp add: exit_outcome_def split: wait_status.split)

lemma finish_monitor_fields:
  assumes "finish_monitor child final m S = (r, m', S')"
  shows "m' = m \<and> \<not> is_deadline r \<and> ps_fds S' = remove1 (child_read_fd child) (ps_fds S) \<and>
    ps_log S' = ps_log S \<and> ps_signals S' = ps_signals S \<and>
    ps_kids S' = (if ms_exited m \<or> eo_waitpid final = None then ps_kids S else remove1 (child_pid child) (ps_kids S)) \<and>
    (ms_exited m \<longrightarrow> r = exit_outcome (ms_cancelled m) (ms_wait_status m) (ms_combined m)) \<and>
    (\<not> ms_exited m \<longrightarrow> (case eo_waitpid final of None \<Rightarrow> r = Some (INTERNAL, ''Failed to wait for task process!'')
       | Some st \<Rightarrow> r = exit_outcome (ms_cancelled m) st (ms_combined m)))"
  using assms by (auto simp: finish_monitor_def Let_def split: if_splits option.splits)

end
