(* ===== verification/TaskCorrect.thy ===== *)
theory TaskCorrect
  imports TaskExecutor
begin

text \<open>
  What running a task guarantees: the resources of the server process, the relay of the output,
  the meaning of success, and the cases in which the monitor loop of task_executor.cc does not
  keep up with what its comments say.
\<close>

section \<open>Invariants of the loop\<close>

definition holding :: "ChildProcess \<Rightarrow> proc_state \<Rightarrow> monitor_state \<Rightarrow> proc_state \<Rightarrow> bool" where
  "holding child P m S \<longleftrightarrow> ps_fds S = ps_fds P \<and>
     ps_kids S = (if ms_exited m then remove1 (child_pid child) (ps_kids P) else ps_kids P)"

lemma holding_cancel:
  "holding child P m S \<Longrightarrow> cancel_thread p seen m S = (m', S') \<Longrightarrow> holding child P m' S'"
  by (auto simp: holding_def cancel_thread_def split: if_splits)

lemma holding_wait:
  "holding child P m S \<Longrightarrow> wait_nohang (child_pid child) ob m S = (m', S') \<Longrightarrow> holding child P m' S'"
  by (auto simp: holding_def wait_nohang_def split: if_splits option.splits)

lemma holding_read:
  "holding child P m S \<Longrightarrow> read_output pty rs m S = (e, m', S') \<Longrightarrow> holding child P m' S'"
  using read_output_keeps [of pty rs m S e m' S'] by (simp add: holding_def)

text \<open>How the resources of the child are left, by the result.\<close>

definition resources_after :: "ChildProcess \<Rightarrow> proc_state \<Rightarrow> monitor_result \<Rightarrow> bool" where
  "resources_after child P x \<longleftrightarrow> (case x of (r, m, S) \<Rightarrow>
     ps_fds S = (if is_deadline r then ps_fds P else remove1 (child_read_fd child) (ps_fds P)) \<and>
     (ps_kids S = remove1 (child_pid child) (ps_kids P) \<or> (ps_kids S = ps_kids P \<and> (\<exists>t. r = Some (INTERNAL, t)))))"

lemma resources_loop:
  assumes "monitor_loop child t final obs m S = Some x" "holding child P m S"
  shows "resources_after child P x"
proof (rule monitor_loop_rule [where I = "holding child P" and Q = "resources_after child P", OF assms])
  fix m S
  assume h: "holding child P m S"
  show "resources_after child P (failed_exit child e m S)" for e
    using h by (auto simp: resources_after_def holding_def failed_exit_def)
  show "resources_after child P (idle_timeout_exit child i m S)" if "\<not> ms_exited m" for i
    using h that by (auto simp: resources_after_def holding_def idle_timeout_exit_def)
  show "resources_after child P (finish_monitor child final m S)"
  proof -
    obtain r m' S' where f: "finish_monitor child final m S = (r, m', S')" by (rule prod_cases3)
    show ?thesis using finish_monitor_fields [OF f] h f
      by (auto simp: resources_after_def holding_def split: option.splits if_splits)
  qed
next
  fix seen m S m' S'
  assume h: "holding child P m S" "cancel_thread (child_pid child) seen m S = (m', S')"
  show "holding child P m' S'" by (rule holding_cancel [OF h])
next
  fix ob m S m' S'
  assume h: "holding child P m S" "wait_nohang (child_pid child) ob m S = (m', S')"
  show "holding child P m' S'" by (rule holding_wait [OF h])
next
  fix rs m S e m' S'
  assume h: "holding child P m S" "read_output (child_use_pty child) rs m S = (e, m', S')"
  show "holding child P m' S'" by (rule holding_read [OF h])
qed

text \<open>What the output looks like after the loop.\<close>

definition output_after :: "string list \<Rightarrow> monitor_result \<Rightarrow> bool" where
  "output_after before x \<longleftrightarrow> (case x of (r, m, S) \<Rightarrow>
     \<exists>chunks extra. ps_log S = before @ chunks @ extra \<and> ms_combined m = concat chunks \<and> [] \<notin> set chunks \<and>
       (if is_deadline r then length extra = 1 else extra = []))"

lemma output_afterI:
  "relayed before m S \<Longrightarrow> \<not> is_deadline r \<Longrightarrow> ps_log S' = ps_log S \<Longrightarrow> output_after before (r, m, S')"
  by (auto simp: relayed_def output_after_def)

lemma output_loop:
  assumes "monitor_loop child t final obs m S = Some x" "relayed before m S"
  shows "output_after before x"
proof (rule monitor_loop_rule [where I = "relayed before" and Q = "output_after before", OF assms])
  fix seen m S m' S'
  assume "relayed before m S" "cancel_thread (child_pid child) seen m S = (m', S')"
  then show "relayed before m' S'" by (auto simp: cancel_thread_def relayed_def split: if_splits)
next
  fix ob m S m' S'
  assume "relayed before m S" "wait_nohang (child_pid child) ob m S = (m', S')"
  then show "relayed before m' S'" by (auto simp: wait_nohang_def relayed_def split: if_splits option.splits)
next
  fix i m S
  assume r: "relayed before m S"
  then show "output_after before (failed_exit child e m S)" for e
    by (simp add: output_afterI failed_exit_def)
  have n: "idle_message i \<noteq> []" by (simp add: idle_message_def newline_def)
  obtain chunks where "ps_log S = before @ chunks" "ms_combined m = concat chunks" "[] \<notin> set chunks"
    using r by (auto simp: relayed_def)
  then show "output_after before (idle_timeout_exit child i m S)"
    using n unfolding output_after_def idle_timeout_exit_def prod.case
    by (intro exI [of _ chunks] exI [of _ "[idle_message i]"]) simp
  obtain r' m' S' where f: "finish_monitor child final m S = (r', m', S')" by (rule prod_cases3)
  show "output_after before (finish_monitor child final m S)"
    using finish_monitor_fields [OF f] f r by (simp add: output_afterI)
next
  fix rs m S e m' S'
  assume h: "relayed before m S" "read_output (child_use_pty child) rs m S = (e, m', S')"
  show "relayed before m' S'" by (rule read_output_relayed [OF h(2,1)])
qed

text \<open>What success rests on.\<close>

definition exited_by :: "observation list \<Rightarrow> proc_state \<Rightarrow> monitor_state \<Rightarrow> proc_state \<Rightarrow> bool" where
  "exited_by obs P m S \<longleftrightarrow> (ms_exited m \<longrightarrow> (\<exists>ob\<in>set obs. ob_waitpid ob = Some (ms_wait_status m))) \<and>
     (\<not> ms_cancelled m \<longrightarrow> ps_signals S = ps_signals P)"

definition success_means :: "observation list \<Rightarrow> end_os \<Rightarrow> proc_state \<Rightarrow> monitor_result \<Rightarrow> bool" where
  "success_means obs final P x \<longleftrightarrow> (case x of (r, m, S) \<Rightarrow> r = None \<longrightarrow>
     ((\<exists>ob\<in>set obs. ob_waitpid ob = Some (Exited 0)) \<or> eo_waitpid final = Some (Exited 0)) \<and>
     \<not> ms_cancelled m \<and> ps_signals S = ps_signals P)"

lemma exit_outcome_None: "exit_outcome c st out = None \<Longrightarrow> \<not> c \<and> st = Exited 0"
  by (auto simp: exit_outcome_def split: if_splits wait_status.splits)

lemma success_loop:
  assumes "monitor_loop child t final obs m S = Some x" "exited_by obs P m S"
  shows "success_means obs final P x"
proof (rule monitor_loop_rule [where I = "exited_by obs P" and Q = "success_means obs final P", OF assms])
  fix seen m S m' S'
  assume "exited_by obs P m S" "cancel_thread (child_pid child) seen m S = (m', S')"
  then show "exited_by obs P m' S'" by (auto simp: exited_by_def cancel_thread_def split: if_splits)
next
  fix ob m S m' S'
  assume "ob \<in> set obs" "exited_by obs P m S" "wait_nohang (child_pid child) ob m S = (m', S')"
  then show "exited_by obs P m' S'" by (auto simp: exited_by_def wait_nohang_def split: if_splits option.splits)
next
  fix rs m S e m' S'
  assume "exited_by obs P m S" "read_output (child_use_pty child) rs m S = (e, m', S')"
  then show "exited_by obs P m' S'" using read_output_keeps [of "child_use_pty child" rs m S e m' S']
    by (simp add: exited_by_def)
next
  fix i m S
  assume x: "exited_by obs P m S"
  show "success_means obs final P (failed_exit child e m S)" for e by (simp add: success_means_def failed_exit_def)
  show "success_means obs final P (idle_timeout_exit child i m S)"
    by (simp add: success_means_def idle_timeout_exit_def)
  obtain r m' S' where f: "finish_monitor child final m S = (r, m', S')" by (rule prod_cases3)
  note ff = finish_monitor_fields [OF f]
  show "success_means obs final P (finish_monitor child final m S)"
  proof (cases "r = None")
    case False
    then show ?thesis unfolding f by (cases r) (simp_all add: success_means_def)
  next
    case True
    have "\<not> ms_cancelled m \<and> (if ms_exited m then ms_wait_status m = Exited 0 else eo_waitpid final = Some (Exited 0))"
      using ff True exit_outcome_None [of "ms_cancelled m" _ "ms_combined m"]
      by (cases "ms_exited m"; cases "eo_waitpid final") (auto dest!: sym [of None])
    then show ?thesis using x ff unfolding f exited_by_def success_means_def by (auto split: if_splits)
  qed
qed

section \<open>Properties of the monitor\<close>

text \<open>Starting a child keeps the books: every failure leaves the open descriptors and the children of the
  server as they were, and success adds one descriptor and one child, with the pipe's other end
  closed.\<close>

theorem start_child_balanced:
  "case StartChildProcess os config P of
     (Inl e, P') \<Rightarrow> ps_fds P' = ps_fds P \<and> ps_kids P' = ps_kids P \<and> fst e = INTERNAL
   | (Inr child, P') \<Rightarrow> ps_fds P' = child_read_fd child # ps_fds P \<and> ps_kids P' = child_pid child # ps_kids P \<and>
       ps_signals P' = ps_signals P \<and> ps_log P' = ps_log P"
  by (simp add: StartChildProcess_def start_error_def abandon_child_def Let_def split: option.split)


text \<open>Success means success: when the monitor reports no error, the child was waited for and had exited
  with code 0, the call had not been seen cancelled, and no signal was sent.\<close>

theorem monitor_success:
  assumes "MonitorChildProcess getenv now child final obs P = Some (None, m, P')"
  shows "((\<exists>ob. ob \<in> set obs \<and> ob_waitpid ob = Some (Exited 0)) \<or> eo_waitpid final = Some (Exited 0)) \<and>
    \<not> ms_cancelled m \<and> ps_signals P' = ps_signals P"
proof -
  have "exited_by obs P (start_monitor now) (EmitLogChunk s P)" for s
    by (simp add: exited_by_def start_monitor_def)
  then have "success_means obs final P (None, m, P')"
    by (rule success_loop [OF assms [unfolded MonitorChildProcess_def]])
  then show ?thesis by (auto simp: success_means_def)
qed

definition demo_child :: ChildProcess where
  "demo_child = \<lparr>child_pid = 40, child_read_fd = 5, child_use_pty = False\<rparr>"

definition demo_procs :: proc_state where
  "demo_procs = \<lparr>ps_fds = [5, 3], ps_kids = [40], ps_signals = [], ps_started = [], ps_log = []\<rparr>"

definition round_of :: "wait_status option \<Rightarrow> int \<Rightarrow> poll_result \<Rightarrow> observation" where
  "round_of w now pr = \<lparr>ob_cancelled = False, ob_waitpid = w, ob_clock = now, ob_poll = pr, ob_errtext = []\<rparr>"

definition quiet_end :: "wait_status option \<Rightarrow> end_os" where
  "quiet_end w = \<lparr>eo_cancelled = False, eo_waitpid = w\<rparr>"

definition demo_rounds :: "observation list" where
  "demo_rounds = [round_of None 0 (Poll_ready True [Read_bytes ''hi'' 1]), round_of None 1 (Poll_timeout 200),
     round_of (Some (Exited 0)) 300 (Poll_ready True [Read_bytes ''!'' 301, Read_bytes [] 302])]"


theorem monitor_success_witness:
  "\<exists>m P'. MonitorChildProcess (\<lambda>_. None) 0 demo_child (quiet_end None) demo_rounds demo_procs = Some (None, m, P') \<and>
     \<not> ms_cancelled m \<and> ps_signals P' = []"
proof -
  have c: "case MonitorChildProcess (\<lambda>_. None) 0 demo_child (quiet_end None) demo_rounds demo_procs of
      None \<Rightarrow> False | Some (r, m, P) \<Rightarrow> r = None" by code_simp
  then obtain m P' where x: "MonitorChildProcess (\<lambda>_. None) 0 demo_child (quiet_end None) demo_rounds demo_procs = Some (None, m, P')"
    by (auto split: option.splits)
  show ?thesis using monitor_success [OF x] x by (auto simp: demo_procs_def)
qed

section \<open>The idle timeout\<close>

text \<open>A round without output of a child that still runs, by the clock after poll.\<close>

definition silent_at :: "observation \<Rightarrow> int \<Rightarrow> bool" where
  "silent_at ob now \<longleftrightarrow> ob_waitpid ob = None \<and> ob_poll ob = Poll_timeout now"

lemma idle_ms_exact: "ms_last_output m \<le> now \<Longrightarrow> now - ms_last_output m \<le> INT32_MAX \<Longrightarrow>
    idle_ms_of now m = now - ms_last_output m"
  using to_pid_id [of "now - ms_last_output m"] by (simp add: idle_ms_of_def to_pid_def)

lemma idle_loop:
  assumes "0 \<le> t" "\<not> ms_exited m"
    "\<forall>ob\<in>set obs. \<exists>now. silent_at ob now \<and> ms_last_output m \<le> now \<and> now - ms_last_output m \<le> INT32_MAX"
    "\<exists>ob\<in>set obs. \<exists>now. silent_at ob now \<and> ms_last_output m + t \<le> now"
  shows "\<exists>r m' S'. monitor_loop child t final obs m S = Some (r, m', S') \<and> is_deadline r"
  using assms(2-4)
proof (induction obs arbitrary: m S)
  case (Cons ob obs)
  obtain now where n: "silent_at ob now" "ms_last_output m \<le> now" "now - ms_last_output m \<le> INT32_MAX"
    using Cons.prems(2) by auto
  obtain m1 S1 where c: "cancel_thread (child_pid child) (ob_cancelled ob) m S = (m1, S1)" by (rule prod.exhaust)
  then have m1: "\<not> ms_exited m1" "ms_last_output m1 = ms_last_output m"
    using Cons.prems(1) by (auto simp: cancel_thread_def split: if_splits)
  have w: "wait_nohang (child_pid child) ob m1 S1 = (m1, S1)"
    using n(1) by (simp add: wait_nohang_def silent_at_def)
  have p: "ob_poll ob = Poll_timeout now" using n(1) by (simp add: silent_at_def)
  have i: "idle_ms_of now m1 = now - ms_last_output m" using idle_ms_exact [of m1 now] n m1 by simp
  show ?case
  proof (cases "now - ms_last_output m \<ge> t")
    case True
    then show ?thesis using assms(1) c w m1 p i
      by (auto simp: idle_timeout_exit_def leave_loop_def split: prod.split)
  next
    case False
    then have "\<exists>ob\<in>set obs. \<exists>now. silent_at ob now \<and> ms_last_output m1 + t \<le> now"
      using Cons.prems(3) n(1) m1(2) by (auto simp: silent_at_def)
    moreover have "\<forall>ob\<in>set obs. \<exists>now. silent_at ob now \<and> ms_last_output m1 \<le> now \<and> now - ms_last_output m1 \<le> INT32_MAX"
      using Cons.prems(2) m1(2) by simp
    ultimately have "\<exists>r m' S'. monitor_loop child t final obs m1 S1 = Some (r, m', S') \<and> is_deadline r"
      by (rule Cons.IH [OF m1(1), rotated])
    then show ?thesis using False c w m1 p i by simp
  qed
qed simp



text \<open>The comment in the cancellation thread says that the subprocess must be stopped explicitly. Once
  the task has closed its output while it still runs, the loop ends, that thread is stopped
  before the blocking waitpid, and whatever happens to the call during the wait, no signal is
  sent and the task's own end is reported.\<close>

theorem closed_output_hides_cancel:
  "\<exists>m P'. MonitorChildProcess getenv now child (quiet_end (Some (Exited 0)))
      (round_of None t (Poll_ready True [Read_bytes [] t]) # later) P = Some (None, m, P') \<and>
    ps_signals P' = ps_signals P"
  by (simp add: MonitorChildProcess_def round_of_def cancel_thread_def wait_nohang_def start_monitor_def
      finish_monitor_def exit_outcome_def leave_loop_def quiet_end_def)

section \<open>Properties of RunCommand\<close>

text \<open>A task's end gives its descriptor back with one exception: whatever happens while a command is
  started and monitored, the server has the same open descriptors afterwards, but an idle
  timeout leaves the read end of the child's output open for ever.\<close>

theorem idle_timeout_leaks_descriptor:
  assumes "RunCommand H os base config W = Some (status, out, W')"
  shows "\<exists>fd. ps_fds (ew_procs W') = (if is_deadline status then [fd] else []) @ ps_fds (ew_procs W)"
proof -
  obtain res P where s: "StartChildProcess (to_start os) config (ew_procs W) = (res, P)" by (rule prod.exhaust)
  have b: "case res of Inl e \<Rightarrow> ps_fds P = ps_fds (ew_procs W) \<and> fst e = INTERNAL
      | Inr child \<Rightarrow> ps_fds P = child_read_fd child # ps_fds (ew_procs W)"
    using s by (auto simp: StartChildProcess_def start_error_def abandon_child_def Let_def
        split: sum.splits option.splits if_splits prod.splits)
  show ?thesis
  proof (cases res)
    case (Inl e)
    then show ?thesis using assms s b by (cases e) (auto simp: RunCommand_def)
  next
    case (Inr child)
    let ?P = "EmitLogChunk (''[From server] Command started, waiting for output...'' @ newline) P"
    obtain m P' where m: "MonitorChildProcess (so_env (to_start os)) (to_now os) child (to_final os) (to_rounds os) P =
        Some (status, m, P')" and w: "ew_procs W' = P'"
      using assms s Inr by (auto simp: RunCommand_def Let_def split: option.splits)
    have "resources_after child P (status, m, P')"
    proof (rule resources_loop)
      show "monitor_loop child (ParseEnvMillis (so_env (to_start os)) ''RPC_WORK_IDLE_TIMEOUT_MS'' (- 1)) (to_final os)
          (to_rounds os) (start_monitor (to_now os)) ?P = Some (status, m, P')"
        using m by (simp add: MonitorChildProcess_def)
    qed (simp add: holding_def start_monitor_def)
    then show ?thesis using b Inr w by (simp add: resources_after_def)
  qed
qed

definition demo_task_os :: "observation list \<Rightarrow> task_os" where
  "demo_task_os rounds = \<lparr>to_start = \<lparr>so_env = [''RPC_WORK_IDLE_TIMEOUT_MS'' \<mapsto> ''500''], so_exists = (\<lambda>_. False),
       so_forkpty = None, so_pipe = Some (7, 8), so_fork = Some 40, so_getfl = True, so_setfl = True, so_errtext = []\<rparr>,
     to_now = 0, to_final = quiet_end None, to_rounds = rounds, to_work = id\<rparr>"

definition demo_world :: exec_world where
  "demo_world = \<lparr>ew_files = sv_files demo_server, ew_procs = demo_procs\<lparr>ps_fds := [3], ps_kids := []\<rparr>, ew_tasks = Map.empty\<rparr>"

theorem idle_timeout_leaks_descriptor_witness:
  "\<exists>status out W'. RunCommand quiet_host (demo_task_os [round_of None 0 (Poll_timeout 600)]) demo_root
      (task_in ''job'' []) demo_world = Some (status, out, W') \<and>
     is_deadline status \<and> (\<exists>fd. ps_fds (ew_procs W') = [fd] @ [3])"
proof -
  have c: "case RunCommand quiet_host (demo_task_os [round_of None 0 (Poll_timeout 600)]) demo_root
      (task_in ''job'' []) demo_world of None \<Rightarrow> False | Some (r, out, W) \<Rightarrow> is_deadline r" by code_simp
  then obtain status out W' where x: "RunCommand quiet_host (demo_task_os [round_of None 0 (Poll_timeout 600)]) demo_root
      (task_in ''job'' []) demo_world = Some (status, out, W')" "is_deadline status" by (auto split: option.splits)
  show ?thesis using idle_timeout_leaks_descriptor [OF x(1)] x by (auto simp: demo_world_def)
qed

text \<open>The table of running tasks is left as it was found: a command whose workspace is not in the table
  when it starts is found there only while it runs, and no other workspace is touched.\<close>

theorem task_table_restored:
  assumes "RunCommand H os base config W = Some (status, out, W')" "workspace_subdir config \<noteq> []"
    "ew_tasks W (workspace_subdir config) = None"
    "\<forall>p fd. so_forkpty (to_start os) = Some (p, fd) \<longrightarrow> 0 < p" "\<forall>p. so_fork (to_start os) = Some p \<longrightarrow> 0 < p"
  shows "ew_tasks W' ws = ew_tasks W ws"
proof -
  obtain res P where s: "StartChildProcess (to_start os) config (ew_procs W) = (res, P)" by (rule prod.exhaust)
  show ?thesis
  proof (cases res)
    case (Inl e)
    then show ?thesis using assms(1) s by (auto simp: RunCommand_def)
  next
    case (Inr child)
    have p: "0 < child_pid child"
      using s assms(4,5) Inr by (auto simp: StartChildProcess_def Let_def split: option.splits if_splits prod.splits)
    have "ew_tasks W' = UnregisterTaskProcessGroup (workspace_subdir config) (child_pid child)
        (RegisterTaskProcessGroup (workspace_subdir config) (child_pid child) (ew_tasks W))"
      using assms(1) s Inr by (auto simp: RunCommand_def Let_def split: option.splits)
    then show ?thesis 
      using tasks.visit [of "workspace_subdir config" "child_pid child" "ew_tasks W" ws] assms(2,3) p by simp
  qed
qed

theorem task_table_restored_witness:
  "\<exists>status out W'. RunCommand quiet_host (demo_task_os [round_of None 0 (Poll_timeout 600)]) demo_root
      (task_in ''job'' []) demo_world = Some (status, out, W') \<and> ew_tasks W' ''job'' = None"
proof -
  have c: "case RunCommand quiet_host (demo_task_os [round_of None 0 (Poll_timeout 600)]) demo_root
      (task_in ''job'' []) demo_world of None \<Rightarrow> False | Some (r, out, W) \<Rightarrow> True" by code_simp
  then obtain status out W' where x: "RunCommand quiet_host (demo_task_os [round_of None 0 (Poll_timeout 600)]) demo_root
      (task_in ''job'' []) demo_world = Some (status, out, W')" by (auto split: option.splits)
  have "ew_tasks W' ''job'' = ew_tasks demo_world ''job''"
    by (rule task_table_restored [OF x])
      (simp_all add: task_in_def demo_world_def demo_task_os_def)
  then show ?thesis using x by (auto simp: demo_world_def)
qed

end
