(* ===== verification/OutputArchive.thy ===== *)
theory OutputArchive
  imports TaskExecutor
begin

text \<open>
  WriteTerminalOutput and CreateOutputArchive of server/task\_executor.cc, the members that would
  send results back as an archive; Execute does not call them. The clock, the process number and
  the program that std::system runs are parameters.
\<close>

definition WriteTerminalOutput :: "host \<Rightarrow> string \<Rightarrow> path option \<Rightarrow> files \<Rightarrow> grpc_error option \<times> files" where
  "WriteTerminalOutput H out output_dir fs =
     (case output_dir of
        None \<Rightarrow> (Some (INVALID_ARGUMENT, ''Output directory pointer must not be null!''), fs)
      | Some dir \<Rightarrow>
          (case create_directories H dir fs of
             None \<Rightarrow> (Some (INTERNAL, ''Failed to create output directory on server!''), fs)
           | Some fs \<Rightarrow>
               let log_path = path_append dir (parse_path ''terminal_output.txt'')
               in (case open_trunc H log_path fs of
                     None \<Rightarrow> (Some (INTERNAL, ''Failed to create terminal output file!''), fs)
                   | Some fs \<Rightarrow>
                       (case write_stream H log_path out fs of
                          None \<Rightarrow> (Some (INTERNAL, ''Failed to write terminal output file!''), fs)
                        | Some fs \<Rightarrow> (None, fs)))))"

record archive_os =
  av_now_us :: int
  av_getpid :: int
  av_system :: "string \<Rightarrow> files \<Rightarrow> int \<times> files"
  av_open_fails :: "path \<Rightarrow> bool"
  av_read_fails :: "path \<Rightarrow> bool"

text \<open>The last element of a path; a path that ends with a separator has none.\<close>

definition filename :: "path \<Rightarrow> string" where
  "filename p = (if trail p \<or> names p = [] then [] else last (names p))"

definition archive_name :: "archive_os \<Rightarrow> TaskConfig \<Rightarrow> string \<Rightarrow> string" where
  "archive_name os config entry_name =
     (let key = SanitizeFilenameComponent (workspace_subdir config)
      in key @ ''_'' @ SanitizeFilenameComponent entry_name @ ''_'' @ to_string (av_getpid os) @ ''_'' @
         to_string (av_now_us os))"

text \<open>The file system operations on one file: reading it and fs::remove.\<close>

definition read_file :: "archive_os \<Rightarrow> path \<Rightarrow> files \<Rightarrow> string option" where
  "read_file os p fs =
     (if av_open_fails os p then None else case fs (names p) of Some (File c) \<Rightarrow> Some c | _ \<Rightarrow> None)"

definition remove_file :: "path \<Rightarrow> files \<Rightarrow> files" where
  "remove_file p fs = fs(names p := None)"

definition CreateOutputArchive :: "archive_os \<Rightarrow> TaskConfig \<Rightarrow> path \<Rightarrow> path \<Rightarrow> files \<Rightarrow> (grpc_error + string) \<times> files" where
  "CreateOutputArchive os config workspace_root output_dir fs =
     (let parent_dir = parent_path output_dir;
          entry_name = filename output_dir
      in if entry_name = [] then (Inl (INVALID_ARGUMENT, ''Output directory name is invalid!''), fs)
         else
           let archive_path = path_append workspace_root (parse_path (archive_name os config entry_name @ ''.tar.gz''));
               (ret, fs) = av_system os (archive_command (path_string archive_path) (path_string parent_dir) entry_name) fs
           in if ret \<noteq> 0 then (Inl (INTERNAL, ''Failed to archive output directory!''), fs)
              else (case read_file os archive_path fs of
                  None \<Rightarrow> (Inl (INTERNAL, ''Failed to open archive for reading!''), fs)
                | Some archive_data \<Rightarrow>
                    if av_read_fails os archive_path then (Inl (INTERNAL, ''Failed to read archive data!''), fs)
                    else (Inr archive_data, remove_file archive_path fs)))"

section \<open>Properties\<close>

lemma to_string_chars: "c \<in> set (to_string n) \<Longrightarrow> c = CHR ''-'' \<or> c_isdigit c"
  using to_dec_digits by (auto simp: to_string_def split: if_splits)

lemma archive_name_plain: "CHR ''/'' \<notin> set (archive_name os config entry) \<and> archive_name os config entry \<noteq> []"
proof -
  have n: "CHR ''/'' \<notin> set (to_string n)" for n
    using to_string_chars [of "CHR ''/''" n] by (auto simp: c_isdigit_def)
  show ?thesis using Sanitize_component [of "workspace_subdir config"] Sanitize_component [of entry] n
    by (simp add: archive_name_def Let_def)
qed

lemma split_names_plain: "CHR 0x2F \<notin> set s \<Longrightarrow> split_names cur s = (if cur @ s = [] then [] else [cur @ s])"
  by (induction s arbitrary: cur) auto

text \<open>The archive stays inside the workspace and does what it says: whatever the names of the task, the
  archive lies directly in the server's workspace, the shell reads the command as tar with
  exactly these five arguments, and after a success the data is the file tar wrote, which is
  removed again.\<close>

theorem archive_exact:
  assumes "CreateOutputArchive os config base dir fs = (Inr archive_data, fs')" "abs_dir base"
  shows "\<exists>n fs1. (let p = \<lparr>root = True, names = names base @ [n], trail = False\<rparr>;
      cmd = archive_command (path_string p) (path_string (parent_path dir)) (last (names dir))
    in av_system os cmd fs = (0, fs1) \<and>
       shell_reads cmd = Some [''tar'', ''-czf'', path_string p, ''-C'', path_string (parent_path dir), last (names dir)] \<and>
       fs1 (names p) = Some (File archive_data) \<and> fs' = fs1(names p := None))"
proof -
  let ?n = "archive_name os config (filename dir) @ ''.tar.gz''"
  let ?p = "path_append base (parse_path ?n)"
  have s: "CHR 0x2F \<notin> set ?n" using archive_name_plain [of os config "filename dir"] by simp
  have sp: "split_names [] ?n = [?n]" using split_names_plain [OF s, of "[]"] by simp
  have h: "hd ?n \<noteq> CHR 0x2F" using s archive_name_plain [of os config "filename dir"] by (metis hd_in_set append_is_Nil_conv)
  have p: "?p = \<lparr>root = True, names = names base @ [?n], trail = False\<rparr>"
    using assms(2) sp h by (simp add: parse_path_def path_append_def abs_dir_def Let_def)
  obtain ret fs1 where sy: "av_system os (archive_command (path_string ?p) (path_string (parent_path dir)) (filename dir)) fs =
      (ret, fs1)" by (rule prod.exhaust)
  have f: "filename dir \<noteq> []" "ret = 0" "read_file os ?p fs1 = Some archive_data" "fs' = remove_file ?p fs1"
    using assms(1) sy by (auto simp: CreateOutputArchive_def Let_def split: if_splits option.splits)
  have l: "filename dir = last (names dir)" using f(1) by (simp add: filename_def split: if_splits)
  have r: "fs1 (names ?p) = Some (File archive_data)" using f(3)
    by (auto simp: read_file_def split: if_splits option.splits node.splits)
  show ?thesis
    using sy f r archive_command_words [of "path_string ?p" "path_string (parent_path dir)" "filename dir"]
    unfolding l p [unfolded l] Let_def remove_file_def
    by (intro exI [of _ "archive_name os config (last (names dir)) @ ''.tar.gz''"] exI [of _ fs1]) simp
qed

definition demo_archive_os :: archive_os where
  "demo_archive_os = \<lparr>av_now_us = 12, av_getpid = 7,
     av_system = \<lambda>cmd fs. (0, fs([''srv'', ''workspace'', ''a_b_output_7_12.tar.gz''] \<mapsto> File ''tgz'')),
     av_open_fails = \<lambda>_. False, av_read_fails = \<lambda>_. False\<rparr>"

theorem archive_exact_witness:
  "\<exists>fs'. CreateOutputArchive demo_archive_os (task_in ''a/b'' []) demo_root (parse_path ''/srv/workspace/a/b/output'')
      (\<lambda>_. None) = (Inr ''tgz'', fs') \<and> fs' [''srv'', ''workspace'', ''a_b_output_7_12.tar.gz''] = None"
proof -
  let ?run = "CreateOutputArchive demo_archive_os (task_in ''a/b'' []) demo_root (parse_path ''/srv/workspace/a/b/output'') (\<lambda>_. None)"
  have c: "fst ?run = Inr ''tgz'' \<and> snd ?run [''srv'', ''workspace'', ''a_b_output_7_12.tar.gz''] = None" by code_simp
  then have r: "?run = (Inr ''tgz'', snd ?run)" by (simp add: prod_eq_iff)
  from archive_exact [OF r demo_root_abs] c r show ?thesis by blast
qed

end
