(* ===== verification/RemoteService.thy ===== *)
theory RemoteService
  imports Sessions TaskCorrect
begin

text \<open>
  The two calls of the service, server/remote_service_implement.cc: TaskSubmission from the
  upload to the destruction of the lock guard, and UpdateUtilization.
\<close>

section \<open>TaskSubmission\<close>

record service_world =
  sw_locked :: "string set"
  sw_exec :: exec_world
  sw_results :: "TaskResult list"

definition SendResult :: "TaskResult \<Rightarrow> service_world \<Rightarrow> service_world" where
  "SendResult r W = W\<lparr>sw_results := sw_results W @ [r]\<rparr>"

definition SendFailure :: "string \<Rightarrow> service_world \<Rightarrow> service_world" where
  "SendFailure message W =
     SendResult \<lparr>tr_success = False, tr_message = message, tr_archive = [], tr_archive_size = 0\<rparr> W"

text \<open>What one submission meets: the canonical workspace, the client's stream, the host, the task.\<close>

record submission_os =
  su_root :: "path option"
  su_incoming :: "(bool \<times> TaskRequest) list"
  su_cancelled :: bool
  su_task :: task_os

definition guard_end :: "guard \<Rightarrow> service_world \<Rightarrow> service_world" where
  "guard_end g W =
     (case destroy_guard g (sw_locked W) (ew_files (sw_exec W)) of
        (locked, fs) \<Rightarrow> W\<lparr>sw_locked := locked, sw_exec := (sw_exec W)\<lparr>ew_files := fs\<rparr>\<rparr>)"

definition failed_submission :: "grpc_error \<Rightarrow> service_world \<Rightarrow> service_world" where
  "failed_submission e W = (if fst e = CANCELLED then W else SendFailure (snd e) W)"

definition TaskSubmission :: "host \<Rightarrow> submission_os \<Rightarrow> service_world \<Rightarrow> (grpc_error option \<times> service_world) option" where
  "TaskSubmission H os W =
     (case su_root os of
        None \<Rightarrow>
          Some (Some (INTERNAL, ''Failed to determine server workspace!''),
                SendFailure ''Failed to determine server workspace!'' W)
      | Some workspace_root \<Rightarrow>
          (case DownloadWorkspace H (su_incoming os) (su_cancelled os) workspace_root
                  \<lparr>sv_locked = sw_locked W, sv_files = ew_files (sw_exec W)\<rparr> of
             (download, s, S) \<Rightarrow>
               let W = W\<lparr>sw_locked := sv_locked S, sw_exec := (sw_exec W)\<lparr>ew_files := sv_files S\<rparr>\<rparr>
               in (case download of
                     Inl e \<Rightarrow> Some (Some e, guard_end (ss_guard s) (failed_submission e W))
                   | Inr config \<Rightarrow>
                       (case Execute H (su_task os) workspace_root config (sw_exec W) of
                          None \<Rightarrow> None
                        | Some (Inl e, X) \<Rightarrow>
                            Some (Some e, guard_end (ss_guard s) (failed_submission e (W\<lparr>sw_exec := X\<rparr>)))
                        | Some (Inr r, X) \<Rightarrow>
                            Some (None, guard_end (ss_guard s) (SendResult r (W\<lparr>sw_exec := X\<rparr>)))))))"

section \<open>UpdateUtilization\<close>

definition ServerWriteRuntimeUtilizationFile :: "host \<Rightarrow> path option \<Rightarrow> string \<Rightarrow> int \<Rightarrow> files \<Rightarrow> string option \<times> files" where
  "ServerWriteRuntimeUtilizationFile H canonical_root subdir utilization fs =
     (if subdir = [] then (Some ''workspace_subdir must not be empty'', fs)
      else if utilization < 0 \<or> utilization > 100 then (Some ''utilization must be in [0, 100]'', fs)
      else case canonical_root of
        None \<Rightarrow> (Some ''failed to determine server workspace: '', fs)
      | Some workspace_root \<Rightarrow>
          let workspace_path = LexicallyNormalized workspace_root (parse_path subdir)
          in if \<not> IsSubPath workspace_root workspace_path then (Some ''workspace_subdir escapes server workspace'', fs)
             else case create_directories H workspace_path fs of
               None \<Rightarrow> (Some ''failed to prepare workspace directory: '', fs)
             | Some fs \<Rightarrow>
                 (case open_trunc H (RuntimeUtilizationPath workspace_path) fs of
                    None \<Rightarrow> (Some ''failed to open runtime utilization file'', fs)
                  | Some fs \<Rightarrow>
                      (case write_stream H (RuntimeUtilizationPath workspace_path) (to_string utilization @ newline) fs of
                         None \<Rightarrow> (Some ''failed to write runtime utilization file'', fs)
                       | Some fs \<Rightarrow> (None, fs))))"

record UpdateUtilizationResponse =
  uu_success :: bool
  uu_message :: string
  uu_pids :: "int list"

definition UpdateUtilization :: "host \<Rightarrow> update_os \<Rightarrow> path option \<Rightarrow> task_table \<Rightarrow> string \<Rightarrow> int \<Rightarrow> files \<Rightarrow>
    grpc_error option \<times> UpdateUtilizationResponse \<times> files" where
  "UpdateUtilization H os canonical_root table subdir utilization fs =
     (let result = UpdateTaskProcessUtilization os table subdir utilization
      in case ServerWriteRuntimeUtilizationFile H canonical_root subdir utilization fs of
           (runtime_file_error, fs) \<Rightarrow>
             let response = \<lparr>uu_success = ur_success result,
                   uu_message = (case runtime_file_error of None \<Rightarrow> ur_message result
                     | Some e \<Rightarrow> ur_message result @ ''; '' @ e),
                   uu_pids = ur_pids result\<rparr>
             in if \<not> ur_success result then (Some (FAILED_PRECONDITION, ur_message result), response, fs)
                else (case runtime_file_error of
                    Some e \<Rightarrow> (Some (INTERNAL, e), response, fs)
                  | None \<Rightarrow> (None, response, fs)))"

section \<open>The lock of a submission\<close>

text \<open>From the start of a session on, the lock table is the old one plus the key of the session, if it has one.\<close>

definition lock_frame :: "string set \<Rightarrow> session \<Rightarrow> string set \<Rightarrow> bool" where
  "lock_frame locked s locked' \<longleftrightarrow> (g_locked (ss_guard s) \<longleftrightarrow> ss_received s) \<and>
     (if ss_received s then g_key (ss_guard s) \<notin> locked \<and> locked' = insert (g_key (ss_guard s)) locked
      else locked' = locked)"

lemma lock_frame_config:
  assumes "HandleConfig c s S = (e, s', S')" "lock_frame L s (sv_locked S)"
  shows "lock_frame L s' (sv_locked S')"
proof -
  have l: "g_locked (ss_guard s) \<longleftrightarrow> ss_received s" using assms(2) by (simp add: lock_frame_def)
  from HandleConfig_lock [OF assms(1) l] show ?thesis
  proof (elim disjE conjE exE)
    fix t
    assume a: "\<not> ss_received s" "ss_received s'"
      "try_lock_subdir (rp_workspace_subdir (ss_paths s')) (sv_locked S) = Some t" "S' = S\<lparr>sv_locked := t\<rparr>"
      "ss_guard s' = registered (ss_paths s')
        ((ss_guard s)\<lparr>g_key := rp_workspace_subdir (ss_paths s'), g_locked := True\<rparr>)"
    then show ?thesis using assms(2) subdirs.lock_free [OF a(3)]
      by (simp add: lock_frame_def registered_def RegisterCleanupTargets_def)
  next
    assume "ss_received s' = ss_received s" "ss_guard s' = ss_guard s" "S' = S"
    then show ?thesis using assms(2) by (simp add: lock_frame_def)
  qed
qed

lemma lock_frame_request:
  assumes "handle_request H r s S = (e, s', S')" "lock_frame L s (sv_locked S)"
  shows "lock_frame L s' (sv_locked S')"
proof (cases r)
  case (Config c)
  then show ?thesis using assms lock_frame_config by (simp add: handle_request_def)
next
  case (FileChunk c)
  then have "HandleFileChunk H c s S = (e, s', S')" using assms(1) by (simp add: handle_request_def)
  then show ?thesis using assms(2) HandleFileChunk_guard by (simp add: lock_frame_def)
next
  case NoPayload
  then show ?thesis using assms by (simp add: handle_request_def)
qed

lemma lock_frame_loop:
  "read_loop H rs s S = (e, s', S') \<Longrightarrow> lock_frame L s (sv_locked S) \<Longrightarrow> lock_frame L s' (sv_locked S')"
proof (induction rs arbitrary: s S)
  case (Cons r rs)
  obtain c q where r: "r = (c, q)" by (rule prod.exhaust)
  obtain e1 s1 S1 where h: "handle_request H q s S = (e1, s1, S1)" by (rule prod_cases3)
  have f: "lock_frame L s1 (sv_locked S1)" by (rule lock_frame_request [OF h Cons.prems(2)])
  show ?case
    using Cons.prems r h f Cons.IH [of s1 S1] by (cases c; cases e1) auto
qed simp

lemma lock_frame_download:
  assumes "DownloadWorkspace H incoming cancelled base S = (res, s, S')"
  shows "lock_frame (sv_locked S) s (sv_locked S')"
proof -
  obtain e s1 S1 where l: "read_loop H incoming (new_session base) S = (e, s1, S1)" by (rule prod_cases3)
  have "lock_frame (sv_locked S) (new_session base) (sv_locked S)"
    by (simp add: lock_frame_def new_session_def new_guard_def)
  then have f: "lock_frame (sv_locked S) s1 (sv_locked S1)" by (rule lock_frame_loop [OF l])
  have "ss_received s = ss_received s1 \<and> ss_guard s = ss_guard s1 \<and> S' = S1"
    using assms l by (cases e) (auto simp: DownloadWorkspace_def Run_def CloseCurrentFile_def split: if_splits)
  then show ?thesis using f by (simp add: lock_frame_def)
qed

lemma guard_end_fields [simp]:
  "sw_results (guard_end g W) = sw_results W"
  "sw_locked (guard_end g W) = (if g_locked g then sw_locked W - {g_key g} else sw_locked W)"
  by (auto simp: guard_end_def destroy_guard_def Cleanup_def Release_def Let_def split: prod.splits if_splits)

lemma failed_submission_locked [simp]: "sw_locked (failed_submission e W) = sw_locked W"
  "sw_exec (failed_submission e W) = sw_exec W"
  by (simp_all add: failed_submission_def SendFailure_def SendResult_def)

lemma lock_frame_end:
  "lock_frame L s L' \<Longrightarrow> (if g_locked (ss_guard s) then L' - {g_key (ss_guard s)} else L') = L"
  by (auto simp: lock_frame_def split: if_splits)

text \<open>How a submission ends after its download: with an error or with the result of Execute.\<close>

lemma submission_cases:
  assumes "TaskSubmission H os W = Some (status, W')" "su_root os = Some base"
    "DownloadWorkspace H (su_incoming os) (su_cancelled os) base
      \<lparr>sv_locked = sw_locked W, sv_files = ew_files (sw_exec W)\<rparr> = (res, s, S)"
  shows "(\<exists>e V. status = Some e \<and> W' = guard_end (ss_guard s) (failed_submission e V) \<and>
      sw_locked V = sv_locked S \<and> sw_results V = sw_results W) \<or>
    (\<exists>r V. status = None \<and> tr_success r \<and> W' = guard_end (ss_guard s) (SendResult r V) \<and>
      sw_locked V = sv_locked S \<and> sw_results V = sw_results W)"
proof -
  let ?W = "W\<lparr>sw_locked := sv_locked S, sw_exec := (sw_exec W)\<lparr>ew_files := sv_files S\<rparr>\<rparr>"
  show ?thesis
  proof (cases res)
    case (Inl e)
    then have "status = Some e \<and> W' = guard_end (ss_guard s) (failed_submission e ?W)"
      using assms by (auto simp: TaskSubmission_def)
    then show ?thesis by (intro disjI1 exI [of _ e] exI [of _ ?W]) simp
  next
    case (Inr config)
    show ?thesis
    proof (cases "Execute H (su_task os) base config (sw_exec ?W)")
      case None
      then show ?thesis using assms Inr by (simp add: TaskSubmission_def)
    next
      case (Some y)
      obtain x X where y: "y = (x, X)" by (rule prod.exhaust)
      let ?V = "?W\<lparr>sw_exec := X\<rparr>"
      show ?thesis
      proof (cases x)
        case (Inl e)
        then have "status = Some e \<and> W' = guard_end (ss_guard s) (failed_submission e ?V)"
          using assms Inr Some y by (simp add: TaskSubmission_def)
        then show ?thesis by (intro disjI1 exI [of _ e] exI [of _ ?V]) simp
      next
        case r: (Inr r)
        then have "status = None \<and> W' = guard_end (ss_guard s) (SendResult r ?V)"
          using assms Inr Some y by (simp add: TaskSubmission_def)
        moreover have "tr_success r"
          using Some y r by (auto simp: Execute_def Let_def split: if_splits option.splits prod.splits)
        ultimately show ?thesis by (intro disjI2 exI [of _ r] exI [of _ ?V]) simp
      qed
    qed
  qed
qed

section \<open>Properties\<close>

text \<open>C8. A submission gives its lock back: however a call of TaskSubmission ends, refused, cancelled, failed or
  successful, the locked directories are afterwards what they were before it.\<close>

theorem submission_releases_lock:
  assumes "TaskSubmission H os W = Some (status, W')"
  shows "sw_locked W' = sw_locked W"
proof (cases "su_root os")
  case None
  then show ?thesis using assms by (auto simp: TaskSubmission_def SendFailure_def SendResult_def)
next
  case (Some base)
  obtain res s S where d: "DownloadWorkspace H (su_incoming os) (su_cancelled os) base
      \<lparr>sv_locked = sw_locked W, sv_files = ew_files (sw_exec W)\<rparr> = (res, s, S)" by (rule prod_cases3)
  have "(if g_locked (ss_guard s) then sv_locked S - {g_key (ss_guard s)} else sv_locked S) = sw_locked W"
    using lock_frame_end [OF lock_frame_download [OF d]] by simp
  moreover have "sw_locked W' = (if g_locked (ss_guard s) then sv_locked S - {g_key (ss_guard s)} else sv_locked S)"
    using submission_cases [OF assms Some d] by (elim disjE exE conjE) (simp_all add: SendResult_def cong: if_cong)
  ultimately show ?thesis by simp
qed

lemma submission_answers:
  assumes "TaskSubmission H os W = Some (status, W')"
  shows "case status of
     None \<Rightarrow> \<exists>r. sw_results W' = sw_results W @ [r] \<and> tr_success r
   | Some e \<Rightarrow> if fst e = CANCELLED then sw_results W' = sw_results W
       else \<exists>r. sw_results W' = sw_results W @ [r] \<and> \<not> tr_success r \<and> tr_message r = snd e"
proof (cases "su_root os")
  case None
  then show ?thesis using assms by (auto simp: TaskSubmission_def SendFailure_def SendResult_def)
next
  case (Some base)
  obtain res s S where d: "DownloadWorkspace H (su_incoming os) (su_cancelled os) base
      \<lparr>sv_locked = sw_locked W, sv_files = ew_files (sw_exec W)\<rparr> = (res, s, S)" by (rule prod_cases3)
  from submission_cases [OF assms Some d] show ?thesis
    by (auto simp: SendResult_def failed_submission_def SendFailure_def)
qed


definition demo_submission :: "string \<Rightarrow> submission_os" where
  "demo_submission ws = \<lparr>su_root = Some demo_root,
     su_incoming = [(False, Config (task_in ws [])), (False, chunk_of ''f'' ''hi'' True True)],
     su_cancelled = False, su_task = demo_task_os demo_rounds\<rparr>"

definition demo_service :: service_world where
  "demo_service = \<lparr>sw_locked = {''other''}, sw_exec = demo_world, sw_results = []\<rparr>"

theorem submission_releases_lock_witness:
  "\<exists>status W'. TaskSubmission quiet_host (demo_submission ''job'') demo_service = Some (status, W') \<and>
     status = None \<and> sw_locked W' = {''other''}"
proof -
  have "case TaskSubmission quiet_host (demo_submission ''job'') demo_service of
      None \<Rightarrow> False | Some (status, W) \<Rightarrow> status = None" by code_simp
  then obtain W' where x: "TaskSubmission quiet_host (demo_submission ''job'') demo_service = Some (None, W')"
    by (auto split: option.splits)
  show ?thesis using submission_releases_lock [OF x] x by (auto simp: demo_service_def)
qed


text \<open>UpdateUtilization has effects when it fails: for a workspace without a running task the call is
  answered with FAILED_PRECONDITION, and yet the directory has been created in the server's
  workspace and the value written there, where the next task of that name finds it.\<close>

theorem failed_update_writes_file:
  "case UpdateUtilization quiet_host demo_os (Some demo_root) Map.empty ''ghost'' 70 (sv_files demo_server) of
     (status, response, fs) \<Rightarrow>
       \<not> uu_success response \<and> (case status of Some e \<Rightarrow> fst e = FAILED_PRECONDITION | None \<Rightarrow> False) \<and>
       sv_files demo_server [''srv'', ''workspace'', ''ghost''] = None \<and>
       fs [''srv'', ''workspace'', ''ghost'', ''.drex_utilization''] = Some (File (''70'' @ newline))"
  by code_simp

end
