(* ===== verification/Interleaving.thy ===== *)
theory Interleaving
  imports Leases UploadTransfer RemoteService
begin

text \<open>
  An upload among other calls: the requests of one call, with the events of other calls between them, do what
  they would have done alone, as long as the other calls keep away from its workspace directory. With the
  transfer of the files (UploadTransfer) a client gets its files to the server whatever the others do.
\<close>

section \<open>File systems that are the same to one workspace\<close>

text \<open>The same at and below a directory; above it both have a file, or both have none.\<close>

definition alike :: "string list \<Rightarrow> files \<Rightarrow> files \<Rightarrow> bool" where
  "alike W fs fs' \<longleftrightarrow>
     (\<forall>ns. has_prefix W ns \<longrightarrow> fs' ns = fs ns) \<and> (\<forall>ns. has_prefix ns W \<longrightarrow> is_file (fs' ns) = is_file (fs ns))"

lemma alike_refl [simp]: "alike W fs fs"
  by (simp add: alike_def)

lemma alike_trans: "alike W fs fs' \<Longrightarrow> alike W fs' fs'' \<Longrightarrow> alike W fs fs''"
  by (simp add: alike_def)

lemma alike_sym: "alike W fs fs' \<Longrightarrow> alike W fs' fs"
  by (simp add: alike_def)

lemma alike_below: "alike W fs fs' \<Longrightarrow> has_prefix W ns \<Longrightarrow> fs' ns = fs ns"
  by (simp add: alike_def)

text \<open>A path at or below the directory, and the directories on the way to it.\<close>

lemma alike_file_on_way:
  assumes "alike W fs fs'" "has_prefix W t" "has_prefix ns t"
  shows "is_file (fs' ns) = is_file (fs ns)"
  using prefix_linear [OF assms(2,3)] assms(1) by (auto simp: alike_def)

lemma not_file_dir: "\<not> is_file x \<Longrightarrow> x = None \<or> x = Some Dir"
  by (cases x rule: is_file.cases) auto

lemma create_alike:
  assumes "alike W fs fs'" "has_prefix W t" "has_prefix (names p) t"
  shows "(create_directories H p fs = None \<and> create_directories H p fs' = None) \<or>
    (\<exists>gs gs'. create_directories H p fs = Some gs \<and> create_directories H p fs' = Some gs' \<and> alike W gs gs' \<and>
       (\<forall>ns. has_prefix ns (names p) \<longrightarrow> gs ns = Some Dir \<and> gs' ns = Some Dir))"
proof -
  have tk: "has_prefix (take n (names p)) t" for n
    by (rule has_prefix_trans [OF _ assms(3)]) (metis append_take_drop_id has_prefix_app)
  have same: "is_file (fs' (take n (names p))) = is_file (fs (take n (names p)))" for n
    by (rule alike_file_on_way [OF assms(1,2) tk])
  let ?mk = "\<lambda>fs ns. if has_prefix ns (names p) \<and> fs ns = None then Some Dir else fs ns"
  show ?thesis
  proof (cases "mkdir_fails H p \<or> list_ex (\<lambda>n. is_file (fs (take n (names p)))) [0..<Suc (length (names p))]")
    case True
    then show ?thesis by (simp add: create_directories_def same del: upt_Suc)
  next
    case False
    then have s: "create_directories H p fs = Some (?mk fs)" "create_directories H p fs' = Some (?mk fs')"
      by (simp_all add: create_directories_def same del: upt_Suc)
    have nf: "\<not> is_file (fs ns)" if "has_prefix ns (names p)" for ns
    proof -
      obtain zs where "names p = ns @ zs" using \<open>has_prefix ns (names p)\<close> by (auto simp: has_prefix_append)
      then have "ns = take (length ns) (names p)" "length ns \<in> set [0..<Suc (length (names p))]" by auto
      then show ?thesis using False unfolding list_ex_iff by metis
    qed
    have nf': "\<not> is_file (fs' ns)" if "has_prefix ns (names p)" for ns
      using nf [OF that] alike_file_on_way [OF assms(1,2) has_prefix_trans [OF that assms(3)]] by simp
    have d: "?mk fs ns = Some Dir" "?mk fs' ns = Some Dir" if "has_prefix ns (names p)" for ns
      using not_file_dir [OF nf [OF that]] not_file_dir [OF nf' [OF that]] that by auto
    have "alike W (?mk fs) (?mk fs')"
      using assms(1) by (auto simp: alike_def nf nf')
    then show ?thesis using s d by blast
  qed
qed

lemma open_alike:
  assumes "alike W fs fs'" "has_prefix W (names p)"
    "\<not> trail p \<Longrightarrow> names p \<noteq> [] \<Longrightarrow> fs (butlast (names p)) = Some Dir \<and> fs' (butlast (names p)) = Some Dir"
  shows "(open_trunc H p fs = None \<and> open_trunc H p fs' = None) \<or>
    (\<exists>gs gs'. open_trunc H p fs = Some gs \<and> open_trunc H p fs' = Some gs' \<and> alike W gs gs')"
  using assms alike_below [OF assms(1,2)]
  by (cases "open_fails H p \<or> trail p \<or> names p = [] \<or> fs (names p) = Some Dir")
    (auto simp: open_trunc_def alike_def)

lemma write_alike:
  assumes "alike W fs fs'" "has_prefix W (names p)"
  shows "(write_stream H p b fs = None \<and> write_stream H p b fs' = None) \<or>
    (\<exists>gs gs'. write_stream H p b fs = Some gs \<and> write_stream H p b fs' = Some gs' \<and> alike W gs gs')"
  using assms alike_below [OF assms]
  by (cases "fs (names p)" rule: is_file.cases) (auto simp: write_stream_def alike_def)

section \<open>One request on both\<close>

definition same_outcome :: "string list \<Rightarrow> outcome \<Rightarrow> outcome \<Rightarrow> bool" where
  "same_outcome W x y \<longleftrightarrow> fst y = fst x \<and> fst (snd y) = fst (snd x) \<and>
     alike W (sv_files (snd (snd x))) (sv_files (snd (snd y)))"

lemma EnsureOutputFile_alike:
  assumes "alike W (sv_files S) (sv_files T)" "has_prefix W (names t)"
  shows "same_outcome W (EnsureOutputFile H t b s S) (EnsureOutputFile H t b s T)"
proof -
  have b: "\<not> trail t \<Longrightarrow> names t \<noteq> [] \<Longrightarrow> has_prefix (butlast (names t)) (names (parent_path t))"
    by (simp add: parent_path_def)
  from create_alike [OF assms parent_prefix, of H] show ?thesis
  proof (elim disjE conjE exE)
    assume "create_directories H (parent_path t) (sv_files S) = None"
      "create_directories H (parent_path t) (sv_files T) = None"
    then show ?thesis using assms(1) by (simp add: same_outcome_def EnsureOutputFile_def Let_def)
  next
    fix gs gs'
    assume c: "create_directories H (parent_path t) (sv_files S) = Some gs"
      "create_directories H (parent_path t) (sv_files T) = Some gs'" "alike W gs gs'"
      "\<forall>ns. has_prefix ns (names (parent_path t)) \<longrightarrow> gs ns = Some Dir \<and> gs' ns = Some Dir"
    have "\<not> trail t \<Longrightarrow> names t \<noteq> [] \<Longrightarrow> gs (butlast (names t)) = Some Dir \<and> gs' (butlast (names t)) = Some Dir"
      using c(4) b by blast
    from open_alike [OF c(3) assms(2) this, of H] show ?thesis using c assms(1)
      by (auto simp: same_outcome_def EnsureOutputFile_def Let_def)
  qed
qed

lemma write_chunk_alike:
  assumes "alike W (sv_files S) (sv_files T)" "\<And>p. ss_outfile s = Some p \<Longrightarrow> has_prefix W (names p)"
  shows "fst (write_chunk H d s T) = fst (write_chunk H d s S) \<and>
    alike W (sv_files (snd (write_chunk H d s S))) (sv_files (snd (write_chunk H d s T)))"
proof (cases "ss_outfile s")
  case None
  then show ?thesis using assms(1) by (simp add: write_chunk_def)
next
  case (Some p)
  show ?thesis using write_alike [OF assms(1) assms(2) [OF Some], of H d] Some assms(1)
    by (auto simp: write_chunk_def)
qed

lemma HandleFileChunk_alike:
  assumes "session_ok s" "ss_received s" "W = names (rp_workspace_path (ss_paths s))"
    "alike W (sv_files S) (sv_files T)"
  shows "same_outcome W (HandleFileChunk H c s S) (HandleFileChunk H c s T)"
proof -
  let ?W = "rp_workspace_path (ss_paths s)"
  let ?t = "LexicallyNormalized ?W (parse_path (relative_path c))"
  show ?thesis
  proof (cases "relative_path c \<noteq> [] \<and> IsSubPath ?W ?t")
    case False
    then show ?thesis using assms by (auto simp: same_outcome_def HandleFileChunk_def Let_def)
  next
    case True
    obtain e1 s1 S1 where o: "EnsureOutputFile H ?t (file_start c) s S = (e1, s1, S1)" by (rule prod_cases3)
    have W: "abs_norm ?W" using assms(1,2) by (simp add: session_ok_def)
    then have "root ?W" by (simp add: abs_norm_def)
    then have px: "has_prefix W (names ?t)"
      unfolding assms(3) by (intro sub_path_prefix [OF W]) (use True normalized_root in auto)
    have f: "session_ok s1" "ss_paths s1 = ss_paths s"
      using EnsureOutputFile_facts [OF o assms(1,2)] px assms(3) by simp_all
    obtain T1 where t: "EnsureOutputFile H ?t (file_start c) s T = (e1, s1, T1)" "alike W (sv_files S1) (sv_files T1)"
      using EnsureOutputFile_alike [OF assms(4) px, of H "file_start c" s] o
      by (cases "EnsureOutputFile H ?t (file_start c) s T") (auto simp: same_outcome_def)
    have out: "has_prefix W (names p)" if "ss_outfile s1 = Some p" for p
      using f that assms(3) by (simp add: session_ok_def)
    note w = write_chunk_alike [OF t(2) out, where H = H and s = s1 and d = "fc_data c"]
    show ?thesis using assms(2) True o t w
      by (auto simp: same_outcome_def HandleFileChunk_def Let_def split: option.splits prod.splits)
  qed
qed

text \<open>Once the configuration is accepted a request does the same on both file systems.\<close>

lemma request_alike:
  assumes "session_ok s" "ss_received s" "W = names (rp_workspace_path (ss_paths s))"
    "alike W (sv_files S) (sv_files T)"
  shows "same_outcome W (handle_request H r s S) (handle_request H r s T)"
proof (cases r)
  case (FileChunk c)
  then show ?thesis using HandleFileChunk_alike [OF assms, of H c] by (simp add: handle_request_def)
next
  case (Config c)
  then show ?thesis using assms(2,4) by (simp add: handle_request_def HandleConfig_def same_outcome_def)
next
  case NoPayload
  then show ?thesis using assms(4) by (simp add: handle_request_def same_outcome_def)
qed

section \<open>The events of the others\<close>

text \<open>No directory of the actor is above or below the workspace, and if the event is what a task has written, the task
  has kept away from it too.\<close>

definition keeps_away :: "string list \<Rightarrow> server_event \<Rightarrow> server \<Rightarrow> server \<Rightarrow> bool" where
  "keeps_away W e srv srv' \<longleftrightarrow> outside (dirs_of srv (actor e)) W \<and>
     (task_event e \<longrightarrow> alike W (sv_files (srv_state srv)) (sv_files (srv_state srv')))"

lemma apart_ends:
  assumes "\<not> has_prefix d W" "\<not> has_prefix W d"
  shows "has_prefix W ns \<Longrightarrow> \<not> has_prefix d ns \<and> \<not> has_prefix ns d" "has_prefix ns W \<Longrightarrow> \<not> has_prefix d ns"
  using assms prefix_linear [of d ns W] has_prefix_trans [of W ns d] has_prefix_trans [of d ns W] by blast+

lemma changed_alike:
  assumes "changed_below d fs fs'" "\<not> has_prefix d W" "\<not> has_prefix W d"
  shows "alike W fs fs'"
proof -
  have "fs' ns = fs ns" if "has_prefix W ns" for ns
    using apart_ends(1) [OF assms(2,3) that] changed_belowD [OF assms(1)] by blast
  moreover have "is_file (fs' ns) = is_file (fs ns)" if "has_prefix ns W" for ns
    using apart_ends(2) [OF assms(2,3) that] assms(1) unfolding changed_below_def
    by (metis is_file.simps(2,3))
  ultimately show ?thesis by (simp add: alike_def)
qed

lemma removed_alike:
  assumes "outside ds W" shows "alike W fs (\<lambda>ns. if below ds ns then None else fs ns)"
  using assms by (auto simp: alike_def outside_def below_def list_all_iff list_ex_iff dest: apart_ends)

lemma other_event_alike:
  assumes "abs_dir base" "server_ok base srv" "armed srv" "server_step H base e srv = Some srv'" "keeps_away W e srv srv'"
  shows "alike W (sv_files (srv_state srv)) (sv_files (srv_state srv'))"
proof (cases e)
  case (Request j c r)
  obtain s where s: "srv_calls srv j = Some (s, Uploading)"
    using assms(4) Request by (auto split: option.splits phase.splits)
  have so: "session_ok s" using call_exists [OF assms(2) s] by (simp add: call_ok_def)
  obtain x s' S' where h: "handle_request H r s (srv_state srv) = (x, s', S')" by (rule prod_cases3)
  have st: "srv_state srv' = (if c then srv_state srv else S')" using assms(4) Request s h by auto
  have d: "outside (if ss_received s
      then [names (rp_workspace_path (ss_paths s)), names (rp_output_path (ss_paths s))] else []) W"
    using assms(5) Request s by (simp add: keeps_away_def dirs_of_def)
  have "alike W (sv_files (srv_state srv)) (sv_files S')"
  proof (cases "ss_received s")
    case True
    have "changed_below (names (rp_workspace_path (ss_paths s))) (sv_files (srv_state srv)) (sv_files S')"
      using handle_request_frame [OF h so] True by (auto simp: upload_frame_def)
    then show ?thesis by (rule changed_alike) (use d True in \<open>simp_all add: outside_def\<close>)
  next
    case False
    then show ?thesis using request_lease(3) [OF h call_exists [OF assms(2) s] armedD [OF assms(3) s]] by simp
  qed
  then show ?thesis using st by simp
next
  case (CleanupFiles j)
  then obtain s where s: "srv_calls srv j = Some (s, Over)"
    using assms(4) by (auto split: option.splits phase.splits)
  let ?fs = "sv_files (srv_state srv)"
  have st: "sv_files (srv_state srv') = snd (Cleanup (ss_guard s) ?fs)"
    using assms(4) CleanupFiles s by (auto split: prod.splits)
  note ok = call_exists [OF assms(2) s]
  show ?thesis
  proof (cases "ss_received s")
    case True
    then have "outside [names (rp_workspace_path (ss_paths s)), names (rp_output_path (ss_paths s))] W"
      using assms(5) CleanupFiles s by (simp add: keeps_away_def dirs_of_def)
    from removed_alike [OF this, of ?fs] show ?thesis
      unfolding st call_cleanup [OF assms(1) ok armedD [OF assms(3) s] True] .
  next
    case False
    then show ?thesis unfolding st call_no_cleanup [OF ok False] by simp
  qed
next
  case (TaskEnds j fs)
  then show ?thesis using assms(5) by (simp add: keeps_away_def)
qed (use assms(4) in \<open>auto split: option.splits phase.splits if_splits\<close>)

lemma other_event_call: "server_step H base e srv = Some srv' \<Longrightarrow> actor e \<noteq> i \<Longrightarrow> srv_calls srv' i = srv_calls srv i"
  by (cases e) (auto split: option.splits phase.splits if_splits prod.splits)

section \<open>Updates of the utilization\<close>

text \<open>UpdateUtilization takes no lock: it writes into any workspace, between any two steps of the calls.\<close>

definition with_files :: "files \<Rightarrow> server \<Rightarrow> server" where
  "with_files fs srv = srv\<lparr>srv_state := (srv_state srv)\<lparr>sv_files := fs\<rparr>\<rparr>"

lemma with_files_fields [simp]:
  "srv_calls (with_files fs srv) = srv_calls srv" "sv_files (srv_state (with_files fs srv)) = fs"
  "sv_locked (srv_state (with_files fs srv)) = sv_locked (srv_state srv)"
  by (simp_all add: with_files_def)

lemma own_keys_files [simp]: "own_keys (with_files fs srv) = own_keys srv"
  by (rule ext) (simp add: own_keys_def)

lemma with_files_ok: "server_ok base srv \<Longrightarrow> server_ok base (with_files fs srv)"
  by (simp add: server_ok_def own_keys_files)

lemma with_files_armed: "armed srv \<Longrightarrow> armed (with_files fs srv)"
  by (simp add: armed_def)

lemma create_dir_changed: "create_directories H p fs = Some fs' \<Longrightarrow> changed_below (names p) fs fs'"
  using create_directories_some [of H p fs fs'] by (auto simp: changed_below_def)

lemma utilization_path_below: "has_prefix (names p) (names (RuntimeUtilizationPath p))"
proof -
  have "\<not> root (parse_path ''.drex_utilization'') \<and> names (parse_path ''.drex_utilization'') \<noteq> []" by code_simp
  then show ?thesis by (simp add: RuntimeUtilizationPath_def path_append_def)
qed

lemma write_utilization_changed:
  assumes "ServerWriteRuntimeUtilizationFile H (Some base) subdir u fs = (e, fs')"
  shows "changed_below (names (LexicallyNormalized base (parse_path subdir))) fs fs'"
proof -
  let ?w = "LexicallyNormalized base (parse_path subdir)"
  show ?thesis
  proof (cases "create_directories H ?w fs")
    case None
    then show ?thesis using assms by (auto simp: ServerWriteRuntimeUtilizationFile_def Let_def split: if_splits)
  next
    case (Some fs1)
    note c = create_dir_changed [OF Some]
    show ?thesis
    proof (cases "open_trunc H (RuntimeUtilizationPath ?w) fs1")
      case None
      then show ?thesis using assms Some c
        by (auto simp: ServerWriteRuntimeUtilizationFile_def Let_def split: if_splits)
    next
      case o: (Some fs2)
      note d = changed_below_trans [OF c open_changed [OF o utilization_path_below]]
      show ?thesis
      proof (cases "write_stream H (RuntimeUtilizationPath ?w) (to_string u @ newline) fs2")
        case None
        then show ?thesis using assms Some o d
          by (auto simp: ServerWriteRuntimeUtilizationFile_def Let_def split: if_splits)
      next
        case w: (Some fs3)
        note e = changed_below_trans [OF d write_changed [OF w utilization_path_below]]
        show ?thesis using assms Some o w e
          by (auto simp: ServerWriteRuntimeUtilizationFile_def Let_def split: if_splits)
      qed
    qed
  qed
qed

lemma UpdateUtilization_changed:
  assumes "UpdateUtilization H os (Some base) table subdir u fs = (status, response, fs')"
  shows "changed_below (names (LexicallyNormalized base (parse_path subdir))) fs fs'"
proof -
  obtain e fs1 where w: "ServerWriteRuntimeUtilizationFile H (Some base) subdir u fs = (e, fs1)" by (rule prod.exhaust)
  have "fs' = fs1" using assms w by (auto simp: UpdateUtilization_def Let_def split: if_splits option.splits)
  then show ?thesis using write_utilization_changed [OF w] by simp
qed

text \<open>The states of the service: steps of the calls, and updates between them.\<close>

inductive service_reachable :: "host \<Rightarrow> path \<Rightarrow> files \<Rightarrow> server \<Rightarrow> bool" for H base fs where
  service_start: "service_reachable H base fs (start_server fs)"
| service_call: "service_reachable H base fs srv \<Longrightarrow> server_step H base e srv = Some srv' \<Longrightarrow>
    service_reachable H base fs srv'"
| service_update: "service_reachable H base fs srv \<Longrightarrow>
    UpdateUtilization H os (Some base) table subdir u (sv_files (srv_state srv)) = (status, response, fs') \<Longrightarrow>
    service_reachable H base fs (with_files fs' srv)"

lemma server_service_reachable: "server_reachable H base fs srv \<Longrightarrow> service_reachable H base fs srv"
  by (induction rule: server_reachable.induct) (auto intro: service_start service_call)

lemma service_reachable_ok:
  "service_reachable H base fs srv \<Longrightarrow> abs_dir base \<Longrightarrow> server_ok base srv \<and> armed srv"
proof (induction rule: service_reachable.induct)
  case service_start
  show ?case using start_server_ok start_refines by blast
next
  case (service_call srv e srv')
  then have a: "server_ok base srv" "armed srv" by simp_all
  show ?case
    using server_step_ok [OF service_call.prems a(1) service_call.hyps(2)]
      server_step_refines [OF service_call.prems a service_call.hyps(2)] by blast
next
  case (service_update srv os table subdir u status response fs')
  then show ?case using with_files_ok with_files_armed by blast
qed

section \<open>A call among others\<close>

text \<open>
  From one state of the server to another with the requests rs of call i, and events of other calls and
  updates of other workspaces between them, which keep away from the directory W.
\<close>

inductive shared_run :: "host \<Rightarrow> path \<Rightarrow> nat \<Rightarrow> string list \<Rightarrow> server \<Rightarrow> TaskRequest list \<Rightarrow> server \<Rightarrow> bool"
  for H base i W srv where
  nothing_yet: "shared_run H base i W srv [] srv"
| own_request: "shared_run H base i W srv rs srv' \<Longrightarrow> server_step H base (Request i False r) srv' = Some srv'' \<Longrightarrow>
    shared_run H base i W srv (rs @ [r]) srv''"
| other_event: "shared_run H base i W srv rs srv' \<Longrightarrow> server_step H base e srv' = Some srv'' \<Longrightarrow> actor e \<noteq> i \<Longrightarrow>
    keeps_away W e srv' srv'' \<Longrightarrow> shared_run H base i W srv rs srv''"
| other_update: "shared_run H base i W srv rs srv' \<Longrightarrow>
    UpdateUtilization H os (Some base) table subdir u (sv_files (srv_state srv')) = (status, response, fs') \<Longrightarrow>
    outside [names (LexicallyNormalized base (parse_path subdir))] W \<Longrightarrow>
    shared_run H base i W srv rs (with_files fs' srv')"

lemma read_loop_snoc:
  "read_loop H (map (Pair False) (rs @ [r])) s S =
     (case read_loop H (map (Pair False) rs) s S of
        (None, s, S) \<Rightarrow> handle_request H r s S
      | (Some e, s, S) \<Rightarrow> (Some e, s, S))"
  by (induction rs arbitrary: s S) (auto split: prod.splits option.splits)

definition own_part :: "host \<Rightarrow> nat \<Rightarrow> string list \<Rightarrow> session \<Rightarrow> server_state \<Rightarrow> TaskRequest list \<Rightarrow> server \<Rightarrow> bool" where
  "own_part H i W s S rs srv \<longleftrightarrow>
     (case read_loop H (map (Pair False) rs) s S of
        (e, s', S') \<Rightarrow> srv_calls srv i = Some (s', if e = None then Uploading else Over) \<and>
          session_ok s' \<and> ss_received s' \<and> ss_paths s' = ss_paths s \<and> alike W (sv_files S') (sv_files (srv_state srv)))"

lemma own_part_request:
  assumes "own_part H i W s S rs srv" "W = names (rp_workspace_path (ss_paths s))"
    "server_step H base (Request i False r) srv = Some srv'"
  shows "own_part H i W s S (rs @ [r]) srv'"
proof -
  obtain e s1 S1 where l: "read_loop H (map (Pair False) rs) s S = (e, s1, S1)" by (rule prod_cases3)
  then have o: "srv_calls srv i = Some (s1, if e = None then Uploading else Over)" "session_ok s1" "ss_received s1"
      "ss_paths s1 = ss_paths s" "alike W (sv_files S1) (sv_files (srv_state srv))"
    using assms(1) by (simp_all add: own_part_def)
  have e: "e = None" using assms(3) o(1) by (auto split: if_splits)
  obtain x s2 S2 where h: "handle_request H r s1 S1 = (x, s2, S2)" by (rule prod_cases3)
  obtain T2 where t: "handle_request H r s1 (srv_state srv) = (x, s2, T2)" "alike W (sv_files S2) (sv_files T2)"
    using request_alike [OF o(2,3) _ o(5), of H r] h o(4) assms(2)
    by (cases "handle_request H r s1 (srv_state srv)") (auto simp: same_outcome_def)
  have st: "srv' = set_call i (Some (s2, if x = None then Uploading else Over)) T2 srv"
    using assms(3) o(1) e t(1) by simp
  have fr: "session_ok s2" "ss_received s2" "ss_paths s2 = ss_paths s1"
    using handle_request_frame [OF h o(2)] o(3) by (simp_all add: upload_frame_def)
  have l': "read_loop H (map (Pair False) (rs @ [r])) s S = (x, s2, S2)"
    unfolding read_loop_snoc using l e h by simp
  show ?thesis unfolding own_part_def l' using st fr t(2) o(4) by simp
qed

lemma own_part_other:
  assumes "own_part H i W s S rs srv" "srv_calls srv' i = srv_calls srv i"
    "alike W (sv_files (srv_state srv)) (sv_files (srv_state srv'))"
  shows "own_part H i W s S rs srv'"
  using assms alike_trans by (auto simp: own_part_def split: prod.splits)

text \<open>The invariant of the run; the server stays reachable.\<close>

lemma shared_run_inv:
  assumes "shared_run H base i W srv rs srv'" "service_reachable H base fs srv" "abs_dir base"
    "srv_calls srv i = Some (s, Uploading)" "ss_received s" "W = names (rp_workspace_path (ss_paths s))"
  shows "service_reachable H base fs srv' \<and> own_part H i W s (srv_state srv) rs srv'"
  using assms(1)
proof (induction rule: shared_run.induct)
  case nothing_yet
  have "session_ok s"
    using call_exists [OF _ assms(4)] service_reachable_ok [OF assms(2,3)] by (auto simp: call_ok_def)
  then show ?case using assms(2,4,5) by (simp add: own_part_def)
next
  case (own_request rs srv1 r srv2)
  then show ?case using service_call own_part_request [OF _ assms(6)] by blast
next
  case (other_event rs srv1 e srv2)
  have a: "service_reachable H base fs srv1" "own_part H i W s (srv_state srv) rs srv1" using other_event.IH by simp_all
  have ok: "server_ok base srv1" "armed srv1" using service_reachable_ok [OF a(1) assms(3)] by simp_all
  note k = other_event_alike [OF assms(3) ok other_event.hyps(2,4)]
  show ?case
    using service_call [OF a(1) other_event.hyps(2)]
      own_part_other [OF a(2) other_event_call [OF other_event.hyps(2,3)] k] by blast
next
  case (other_update rs srv1 os table subdir u status response fs')
  have a: "service_reachable H base fs srv1" "own_part H i W s (srv_state srv) rs srv1" using other_update.IH by simp_all
  have k: "alike W (sv_files (srv_state srv1)) (sv_files (srv_state (with_files fs' srv1)))"
    using changed_alike [OF UpdateUtilization_changed [OF other_update.hyps(2)]] other_update.hyps(3)
    by (simp add: outside_def)
  show ?case using service_update [OF a(1) other_update.hyps(2)] own_part_other [OF a(2) _ k] by simp
qed

text \<open>Such runs from a list of events.\<close>

lemma shared_run_append:
  "shared_run H base i W srv1 rs' srv2 \<Longrightarrow> shared_run H base i W srv rs srv1 \<Longrightarrow> shared_run H base i W srv (rs @ rs') srv2"
proof (induction rule: shared_run.induct)
  case (own_request rs' srv1 r srv2)
  then show ?case using shared_run.own_request [of H base i W srv "rs @ rs'"] by simp
next
  case (other_event rs' srv1 e srv2)
  then show ?case using shared_run.other_event [of H base i W srv "rs @ rs'"] by simp
next
  case (other_update rs' srv1 os table subdir u status response fs')
  then show ?case using shared_run.other_update [of H base i W srv "rs @ rs'"] by simp
qed simp

fun request_of :: "nat \<Rightarrow> server_event \<Rightarrow> TaskRequest list" where
  "request_of i (Request j c r) = (if j = i then [r] else [])"
| "request_of i _ = []"

fun mixed_event :: "nat \<Rightarrow> string list \<Rightarrow> server_event \<Rightarrow> server \<Rightarrow> bool" where
  "mixed_event i W (Request j c r) srv = (if j = i then \<not> c else outside (dirs_of srv j) W)"
| "mixed_event i W e srv = (actor e \<noteq> i \<and> \<not> task_event e \<and> outside (dirs_of srv (actor e)) W)"

fun mixed_run :: "host \<Rightarrow> path \<Rightarrow> nat \<Rightarrow> string list \<Rightarrow> server_event list \<Rightarrow> server \<Rightarrow> server option" where
  "mixed_run H base i W [] srv = Some srv"
| "mixed_run H base i W (e # es) srv =
     (if mixed_event i W e srv
      then (case server_step H base e srv of None \<Rightarrow> None | Some srv \<Rightarrow> mixed_run H base i W es srv) else None)"

lemma mixed_event_shared:
  assumes "mixed_event i W e srv" "server_step H base e srv = Some srv'"
  shows "shared_run H base i W srv (request_of i e) srv'"
proof (cases "\<exists>r. e = Request i False r")
  case True
  then show ?thesis using shared_run.own_request [OF shared_run.nothing_yet] assms(2) by fastforce
next
  case False
  then have "request_of i e = []" "actor e \<noteq> i" "keeps_away W e srv srv'"
    using assms(1) by (cases e; auto simp: keeps_away_def split: if_splits)+
  then show ?thesis using shared_run.other_event [OF shared_run.nothing_yet assms(2)] by simp
qed

lemma mixed_run_shared:
  "mixed_run H base i W es srv = Some srv' \<Longrightarrow> shared_run H base i W srv (concat (map (request_of i) es)) srv'"
proof (induction es arbitrary: srv)
  case Nil
  then show ?case by (simp add: shared_run.nothing_yet)
next
  case (Cons e es)
  then obtain srv1 where s: "mixed_event i W e srv" "server_step H base e srv = Some srv1"
      "mixed_run H base i W es srv1 = Some srv'"
    by (auto split: if_splits option.splits)
  show ?case using shared_run_append [OF Cons.IH [OF s(3)] mixed_event_shared [OF s(1,2)]] by simp
qed

section \<open>Properties\<close>

text \<open>C6. A call among others does what it does alone: after any interleaving of its requests with events of calls
  and updates of the utilization that keep away from its workspace directory, the call is in the state the read loop of the
  session alone comes to from where it was (going on, or over with the same error), and its
  workspace has the same files.\<close>

theorem shared_call_alone:
  assumes "shared_run H base i W srv rs srv'" "service_reachable H base fs srv" "abs_dir base"
    "srv_calls srv i = Some (s, Uploading)" "ss_received s" "W = names (rp_workspace_path (ss_paths s))"
  shows "case read_loop H (map (Pair False) rs) s (srv_state srv) of (e, s', S') \<Rightarrow>
    srv_calls srv' i = Some (s', if e = None then Uploading else Over) \<and>
    (\<forall>ns. sv_files (srv_state srv') (W @ ns) = sv_files S' (W @ ns))"
  using shared_run_inv [OF assms] unfolding own_part_def alike_def by (auto split: prod.splits)

definition mixed_events :: "server_event list" where
  "mixed_events = [Request 0 False (chunk_of ''f'' ''hi'' True False), Request 2 False (chunk_of ''f'' ''other'' True True),
     Request 0 False (chunk_of ''f'' ''!'' False True)]"

theorem shared_call_alone_witness:
  "\<exists>srv srv' s'. demo_run = Some srv \<and>
     mixed_run quiet_host demo_root 0 [''srv'', ''workspace'', ''a''] mixed_events srv = Some srv' \<and>
     srv_calls srv' 0 = Some (s', Uploading) \<and>
     sv_files (srv_state srv') [''srv'', ''workspace'', ''a'', ''f''] = Some (File ''hi!'')"
proof -
  let ?W = "[''srv'', ''workspace'', ''a'']"
  let ?rs = "[chunk_of ''f'' ''hi'' True False, chunk_of ''f'' ''!'' False True]"
  have "case demo_run of None \<Rightarrow> False | Some srv \<Rightarrow>
      mixed_run quiet_host demo_root 0 ?W mixed_events srv \<noteq> None \<and>
      (case srv_calls srv 0 of None \<Rightarrow> False | Some (s, ph) \<Rightarrow> ph = Uploading \<and> ss_received s \<and>
         names (rp_workspace_path (ss_paths s)) = ?W \<and>
         (case read_loop quiet_host (map (Pair False) ?rs) s (srv_state srv) of
            (e, s', S') \<Rightarrow> e = None \<and> sv_files S' (?W @ [''f'']) = Some (File ''hi!'')))"
    by code_simp
  then obtain srv srv' s s' S' where r: "demo_run = Some srv"
      "mixed_run quiet_host demo_root 0 ?W mixed_events srv = Some srv'"
      "srv_calls srv 0 = Some (s, Uploading)" "ss_received s" "names (rp_workspace_path (ss_paths s)) = ?W"
      "read_loop quiet_host (map (Pair False) ?rs) s (srv_state srv) = (None, s', S')"
      "sv_files S' (?W @ [''f'']) = Some (File ''hi!'')"
    by (auto simp del: read_loop.simps mixed_run.simps split: option.splits prod.splits)
  have "concat (map (request_of 0) mixed_events) = ?rs" by (simp add: mixed_events_def)
  then have run: "shared_run quiet_host demo_root 0 ?W srv ?rs srv'" using mixed_run_shared [OF r(2)] by simp
  note t = shared_call_alone [OF run server_service_reachable [OF demo_run_reachable [OF r(1)]] demo_root_abs r(3,4) r(5) [symmetric], unfolded r(6)]
  have "srv_calls srv' 0 = Some (s', Uploading)" using t by simp
  moreover have "sv_files (srv_state srv') (?W @ [''f'']) = Some (File ''hi!'')" using t r(7) by simp
  ultimately show ?thesis using r(1,2) by auto
qed


text \<open>The files of the example arrive while call 2 uploads to its own workspace.\<close>

definition shared_upload_events :: "server_event list" where
  "shared_upload_events =
     (case concat (map (file_messages 2 demo_files) demo_specs) of
        [] \<Rightarrow> []
      | r # rs \<Rightarrow> Request 0 False r # Request 2 False (chunk_of ''a'' ''other'' True True) # map (Request 0 False) rs)"

lemma own_requests [simp]: "concat (map (request_of i) (map (Request i False) rs)) = rs"
  by (induction rs) auto

lemma shared_requests:
  "concat (map (request_of 0) (case rs of [] \<Rightarrow> []
     | r # rs \<Rightarrow> Request 0 False r # Request 2 False c # map (Request 0 False) rs)) = rs"
  by (cases rs) (simp_all del: map_map)

text \<open>Calls and configurations leave the files as they are.\<close>

fun no_file_event :: "server_event \<Rightarrow> bool" where
  "no_file_event (Call i) = True"
| "no_file_event (Request i c (Config cfg)) = True"
| "no_file_event _ = False"

lemma HandleConfig_files: "sv_files (snd (snd (HandleConfig c s S))) = sv_files S"
  by (auto simp: HandleConfig_def Let_def split: sum.splits prod.splits option.splits)

lemma no_file_step:
  "no_file_event e \<Longrightarrow> server_step H base e srv = Some srv' \<Longrightarrow> sv_files (srv_state srv') = sv_files (srv_state srv)"
  using HandleConfig_files
  by (cases e rule: no_file_event.cases)
    (auto simp: handle_request_def split: option.splits phase.splits if_splits prod.splits, (metis snd_conv)+)

lemma no_file_run:
  "list_all no_file_event es \<Longrightarrow> run_events H base es srv = Some srv' \<Longrightarrow> sv_files (srv_state srv') = sv_files (srv_state srv)"
  by (induction es arbitrary: srv) (auto dest: no_file_step split: option.splits)

lemma demo_run_files: "demo_run = Some srv \<Longrightarrow> sv_files (srv_state srv) = sv_files demo_server"
  unfolding demo_run_def by (drule no_file_run [rotated]) (simp_all add: demo_events_def start_server_def)

lemma shared_upload_requests:
  "concat (map (request_of 0) shared_upload_events) = concat (map (file_messages 2 demo_files) demo_specs)"
  unfolding shared_upload_events_def by (rule shared_requests)


end
