(* ===== verification/LogPrinter.thy ===== *)
theory LogPrinter
  imports Prelude
begin

text \<open>
  The lambda print_log of DrainServerResponses in client/client_api.cc: each line of the remote
  output gets a colored prefix, lines of the server itself another color. The position in the
  data is what is left of it; the flag that a line is about to start lives across chunks.
\<close>

definition esc :: string where
  "esc = [CHR 0x1B]"

definition kPrefix :: string where
  "kPrefix = esc @ ''[34m[From server]'' @ esc @ ''[0m ''"

definition kRawPrefix :: string where
  "kRawPrefix = ''[From server] ''"

definition kStagePrefix :: string where
  "kStagePrefix = esc @ ''[34m[From server]'' @ esc @ ''[0m '' @ esc @ ''[33m''"

definition kColorReset :: string where
  "kColorReset = esc @ ''[0m''"

abbreviation nl :: char where "nl \<equiv> CHR 0x0A"

definition starts_with :: "string \<Rightarrow> string \<Rightarrow> bool" where
  "starts_with p s \<longleftrightarrow> take (length p) s = p"

text \<open>A line start: what is put out first, what of the data is skipped, and whether the line is colored.\<close>

definition line_start :: "string \<Rightarrow> string \<times> string \<times> bool" where
  "line_start rest =
     (if starts_with kRawPrefix rest then (kStagePrefix, drop (length kRawPrefix) rest, True)
      else if starts_with ''Command finished.'' rest then (kStagePrefix, rest, True)
      else (kPrefix, rest, False))"

lemma line_start_shrinks: "line_start rest = (pre, rest', stage) \<Longrightarrow> length rest' \<le> length rest"
  by (auto simp: line_start_def split: if_splits)

lemma line_shrinks:
  assumes "length rest' \<le> length rest" "nl \<in> set rest'"
  shows "length (tl (dropWhile (\<lambda>c. c \<noteq> nl) rest')) < length rest"
proof -
  have "length (dropWhile (\<lambda>c. c \<noteq> nl) rest') \<le> length rest'" by (rule length_dropWhile_le)
  moreover have "dropWhile (\<lambda>c. c \<noteq> nl) rest' \<noteq> []" using assms(2) by (simp add: dropWhile_eq_Nil_conv)
  ultimately show ?thesis using assms(1) by (cases "dropWhile (\<lambda>c. c \<noteq> nl) rest'") simp_all
qed

function decorate :: "bool \<Rightarrow> string \<Rightarrow> string \<times> bool" where
  "decorate log_line_start rest =
     (if rest = [] then ([], log_line_start)
      else if log_line_start \<and> hd rest = nl then
        (case decorate True (tl rest) of (out, b) \<Rightarrow> (nl # out, b))
      else
        (case (if log_line_start then line_start rest else ([], rest, False)) of
           (pre, rest', stage_line) \<Rightarrow>
             if nl \<notin> set rest' then (pre @ rest' @ (if stage_line then kColorReset else []), False)
             else (case decorate True (tl (dropWhile (\<lambda>c. c \<noteq> nl) rest')) of
                 (out, b) \<Rightarrow>
                   (pre @ takeWhile (\<lambda>c. c \<noteq> nl) rest' @ [nl] @ (if stage_line then kColorReset else []) @ out, b))))"
  by pat_completeness auto
termination
proof (relation "measure (\<lambda>(b, rest). length rest)", simp, goal_cases)
  case (1 b rest)
  then show ?case by (cases rest) auto
next
  case 2
  then show ?case by (auto intro!: line_shrinks [simplified] dest: line_start_shrinks [OF sym] split: if_splits)
qed

declare decorate.simps [simp del]

definition print_log :: "bool \<Rightarrow> bool \<Rightarrow> string \<Rightarrow> bool \<times> string \<Rightarrow> bool \<times> string" where
  "print_log raw_terminal_output enable_progress chunk st =
     (case st of (log_line_start, cout) \<Rightarrow>
        if chunk = [] then st
        else if raw_terminal_output \<or> \<not> enable_progress then (log_line_start, cout @ chunk)
        else (case decorate log_line_start chunk of (out, b) \<Rightarrow> (b, cout @ out)))"

section \<open>A reference: one character after another\<close>

text \<open>Prefix every line that is not empty.\<close>

fun prefix_lines :: "bool \<Rightarrow> string \<Rightarrow> string" where
  "prefix_lines b [] = []"
| "prefix_lines b (c # cs) =
     (if c = nl then nl # prefix_lines True cs
      else (if b then kPrefix else []) @ c # prefix_lines False cs)"

definition at_line_start :: "bool \<Rightarrow> string \<Rightarrow> bool" where
  "at_line_start b s = (if s = [] then b else last s = nl)"

text \<open>No line of the text starts like a line of the server.\<close>

fun no_markers :: "bool \<Rightarrow> string \<Rightarrow> bool" where
  "no_markers b [] = True"
| "no_markers b (c # cs) =
     ((b \<longrightarrow> \<not> starts_with kRawPrefix (c # cs) \<and> \<not> starts_with ''Command finished.'' (c # cs)) \<and> no_markers (c = nl) cs)"

lemma prefix_lines_append: "prefix_lines b (s @ t) = prefix_lines b s @ prefix_lines (at_line_start b s) t"
  by (induction s arbitrary: b) (simp_all add: at_line_start_def)

lemma prefix_lines_run: "nl \<notin> set s \<Longrightarrow> prefix_lines False s = s"
  by (induction s) auto

lemma no_markers_run: "no_markers b (s @ nl # t) \<Longrightarrow> no_markers True t"
  by (induction s arbitrary: b) auto

lemma split_line:
  assumes "nl \<in> set s"
  shows "s = takeWhile (\<lambda>c. c \<noteq> nl) s @ nl # tl (dropWhile (\<lambda>c. c \<noteq> nl) s)"
proof -
  obtain x xs where d: "dropWhile (\<lambda>c. c \<noteq> nl) s = x # xs" using assms
    by (cases "dropWhile (\<lambda>c. c \<noteq> nl) s") (auto simp: dropWhile_eq_Nil_conv)
  then have "x = nl" by (simp add: dropWhile_eq_Cons_conv)
  then show ?thesis using takeWhile_dropWhile_id [of "\<lambda>c. c \<noteq> nl" s] d by simp
qed

lemma line_start_plain:
  assumes "no_markers True (c # cs)"
  shows "line_start (c # cs) = (kPrefix, c # cs, False)"
  using assms by (simp add: line_start_def)

lemma prefix_lines_line:
  "s \<noteq> [] \<Longrightarrow> nl \<notin> set s \<Longrightarrow> prefix_lines b s = (if b then kPrefix else []) @ s"
  by (cases s) (auto simp: prefix_lines_run)

lemma decorate_plain:
  "no_markers b s \<Longrightarrow> decorate b s = (prefix_lines b s, at_line_start b s)"
proof (induction "length s" arbitrary: b s rule: less_induct)
  case less
  show ?case
  proof (cases s)
    case Nil
    then show ?thesis by (simp add: decorate.simps at_line_start_def)
  next
    case (Cons c cs)
    let ?line = "takeWhile (\<lambda>c. c \<noteq> nl) s" and ?later = "tl (dropWhile (\<lambda>c. c \<noteq> nl) s)"
    show ?thesis
    proof (cases "b \<and> c = nl")
      case True
      have "decorate True cs = (prefix_lines True cs, at_line_start True cs)"
        using less Cons True by simp
      then show ?thesis using Cons True by (subst decorate.simps) (simp add: at_line_start_def)
    next
      case False
      have st: "(if b then line_start s else ([], s, False)) = ((if b then kPrefix else []), s, False)"
        using less.prems Cons line_start_plain by (cases b) auto
      show ?thesis
      proof (cases "nl \<in> set s")
        case nonl: False
        have "decorate b s = ((if b then kPrefix else []) @ s, False)"
          using Cons False nonl st by (subst decorate.simps) auto
        moreover have "last s \<noteq> nl" using nonl Cons last_in_set [of s] by auto
        ultimately show ?thesis using nonl Cons prefix_lines_line [of s b] by (simp add: at_line_start_def)
      next
        case hasnl: True
        have s: "s = ?line @ nl # ?later" by (rule split_line [OF hasnl])
        have len: "length ?later < length s" using arg_cong [OF s, of length] by simp
        have "no_markers True ?later" using less.prems s no_markers_run by metis
        then have d: "decorate True ?later = (prefix_lines True ?later, at_line_start True ?later)"
          by (rule less.hyps [OF len])
        have "decorate b s = ((if b then kPrefix else []) @ ?line @ [nl] @ prefix_lines True ?later, at_line_start True ?later)"
          using Cons False hasnl st d by (subst decorate.simps) auto
        moreover have "prefix_lines b s = (if b then kPrefix else []) @ ?line @ [nl] @ prefix_lines True ?later"
        proof (cases "?line = []")
          case True
          then have "c = nl" using Cons by (auto split: if_splits)
          then have nb: "\<not> b" using False by simp
          have c: "c = nl" by fact
          then have "?later = cs" using Cons by simp
          then show ?thesis using True nb c Cons by simp
        next
          case ne: False
          have "nl \<notin> set ?line" by (auto dest: set_takeWhileD)
          then show ?thesis using prefix_lines_append [of b ?line "nl # ?later"] prefix_lines_line [OF ne, of b] s
            by simp
        qed
        moreover have "at_line_start b s = at_line_start True ?later"
          using arg_cong [OF s, of last] Cons by (simp add: at_line_start_def)
        ultimately show ?thesis by simp
      qed
    qed
  qed
qed

section \<open>Properties\<close>

text \<open>C24. The printed log is the log: as long as no line of the task looks like one of the server's own, what
  print_log puts out is the data with a prefix before every line that is not empty, nothing
  lost or changed.\<close>

theorem print_log_equivalent:
  assumes "no_markers b chunk"
  shows "print_log False True chunk (b, cout) = (at_line_start b chunk, cout @ prefix_lines b chunk)"
  using decorate_plain [OF assms] by (simp add: print_log_def at_line_start_def)

theorem print_log_equivalent_witness:
  "print_log False True (''a'' @ [nl, nl] @ ''b'') (True, []) = (False, kPrefix @ ''a'' @ [nl, nl] @ kPrefix @ ''b'')"
proof -
  have "no_markers True (''a'' @ [nl, nl] @ ''b'')" by (simp add: starts_with_def kRawPrefix_def)
  from print_log_equivalent [OF this, of "[]"] show ?thesis by (simp add: at_line_start_def)
qed

text \<open>It does not matter how the server cuts its log into chunks: two chunks print what their
  concatenation prints, under the same condition on the lines.\<close>

theorem print_log_chunks:
  assumes "no_markers b s" "no_markers (at_line_start b s) t" "no_markers b (s @ t)"
  shows "print_log False True t (print_log False True s (b, cout)) = print_log False True (s @ t) (b, cout)"
  using decorate_plain [OF assms(1)] decorate_plain [OF assms(2)] decorate_plain [OF assms(3)]
  by (auto simp: print_log_def prefix_lines_append at_line_start_def)

theorem print_log_chunks_witness:
  "print_log False True (''b'' @ [nl]) (print_log False True ''a'' (True, [])) = print_log False True (''ab'' @ [nl]) (True, [])"
proof -
  have 1: "no_markers True ''a''" by (simp add: starts_with_def kRawPrefix_def)
  have 2: "no_markers (at_line_start True ''a'') (''b'' @ [nl])" by (simp add: at_line_start_def)
  have 3: "no_markers True (''a'' @ ''b'' @ [nl])" by (simp add: starts_with_def kRawPrefix_def)
  from print_log_chunks [OF 1 2 3, of "[]"] show ?thesis by simp
qed

end
