(* ===== verification/ClientApi.thy ===== *)
theory ClientApi
  imports ClientStream LogPrinter TaskExecutor
begin

text \<open>
  The client library, client/client_api.cc, around the upload: the list of files of a directory,
  the checks on it, the responses of the server, and the two calls TaskSubmit and
  UpdateUtilization. The local file system and the two RPCs are parameters.
\<close>

section \<open>The files of a directory\<close>

record dir_entry =
  de_path :: string
  de_regular :: bool
  de_relative :: "string option"

record local_dir =
  ld_exists :: bool
  ld_is_directory :: bool
  ld_canonical :: bool
  ld_entries :: "dir_entry list"

definition collect_entry :: "dir_entry \<Rightarrow> UploadFileSpec list" where
  "collect_entry e =
     (if \<not> de_regular e then []
      else case de_relative e of
        None \<Rightarrow> []
      | Some rel \<Rightarrow> [\<lparr>local_path = de_path e, spec_relative_path = rel\<rparr>])"

definition CollectDirectoryFiles :: "local_dir \<Rightarrow> UploadFileSpec list option" where
  "CollectDirectoryFiles d =
     (if \<not> ld_exists d \<or> \<not> ld_is_directory d then None
      else if \<not> ld_canonical d then None
      else
        let files = concat (map collect_entry (ld_entries d))
        in if files = [] then None else Some files)"

record UploadStats =
  us_file_count :: nat
  us_total_bytes :: int

fun add_sizes :: "local_files \<Rightarrow> UploadFileSpec list \<Rightarrow> int \<Rightarrow> int option" where
  "add_sizes L [] t = Some t"
| "add_sizes L (f # fs) t =
     (case lf_size L (local_path f) of None \<Rightarrow> None | Some k \<Rightarrow> add_sizes L fs (t + int k))"

definition ComputeUploadStats :: "local_files \<Rightarrow> UploadFileSpec list \<Rightarrow> UploadStats option" where
  "ComputeUploadStats L files =
     map_option (\<lambda>t. \<lparr>us_file_count = length files, us_total_bytes = t\<rparr>) (add_sizes L files 0)"

fun ValidateUploadFiles :: "(string \<Rightarrow> bool) \<Rightarrow> (string \<Rightarrow> bool) \<Rightarrow> UploadFileSpec list \<Rightarrow> grpc_error option" where
  "ValidateUploadFiles exists regular [] = None"
| "ValidateUploadFiles exists regular (f # fs) =
     (if \<not> exists (local_path f) \<or> \<not> regular (local_path f)
      then Some (INVALID_ARGUMENT, ''Local file missing or not readable: '' @ local_path f)
      else ValidateUploadFiles exists regular fs)"

section \<open>The responses\<close>

datatype TaskResponse = LogChunk string | Result TaskResult | NoResponse

definition empty_result :: TaskResult where
  "empty_result = \<lparr>tr_success = True, tr_message = [], tr_archive = [], tr_archive_size = 0\<rparr>"

text \<open>The terminal and the last result received.\<close>

fun DrainServerResponses :: "TaskResponse list \<Rightarrow> bool \<Rightarrow> bool \<Rightarrow> bool \<times> string \<Rightarrow> TaskResult \<Rightarrow>
    (bool \<times> string) \<times> TaskResult" where
  "DrainServerResponses [] enable_progress raw st final_result = (st, final_result)"
| "DrainServerResponses (response # rs) enable_progress raw st final_result =
     (case response of
        LogChunk data \<Rightarrow> DrainServerResponses rs enable_progress raw (print_log raw enable_progress data st) final_result
      | Result r \<Rightarrow> DrainServerResponses rs enable_progress raw st r
      | NoResponse \<Rightarrow> DrainServerResponses rs enable_progress raw st final_result)"

section \<open>TaskSubmit\<close>

record TaskSubmitReport =
  rp_response :: TaskResult
  rp_bytes_sent :: int
  rp_output :: string

text \<open>The call as the client meets it: how many messages it takes, what comes back, the final status.\<close>

record rpc_call =
  rc_capacity :: nat
  rc_responses :: "TaskResponse list"
  rc_status :: "grpc_error option"

definition TaskSubmit :: "local_files \<Rightarrow> rpc_call \<Rightarrow> UploadFileSpec list \<Rightarrow> string \<Rightarrow> string \<Rightarrow> UploadStats option \<Rightarrow>
    bool \<Rightarrow> XSchedConfig option \<Rightarrow> grpc_error option \<times> TaskRequest list \<times> TaskSubmitReport option" where
  "TaskSubmit L call files ws cmd upload_stats enable_pty_arg xsched =
     (if files = [] then (Some (INVALID_ARGUMENT, ''No files specified for upload.''), [], None)
      else if cmd = [] then (Some (INVALID_ARGUMENT, ''Command must not be empty.''), [], None)
      else
        let effective_output_subdir = path_join ws ''output'';
            (ok, st) = SendTaskConfig ws cmd effective_output_subdir enable_pty_arg xsched
              \<lparr>sent = [], capacity = rc_capacity call\<rparr>
        in if \<not> ok then
             (Some (ABORTED, ''Failed to send task configuration to the server.''), sent st, None)
           else
             let progress = new_progress (case upload_stats of None \<Rightarrow> - 1 | Some s \<Rightarrow> us_total_bytes s);
                 enable_progress = (0 \<le> total_bytes progress);
                 (upload_status, st, progress) = StreamWorkspaceFiles kChunkSize L files st progress;
                 (out, final_result) = DrainServerResponses (rc_responses call) enable_progress enable_pty_arg
                   (True, []) empty_result;
                 report = \<lparr>rp_response = final_result, rp_bytes_sent = bytes_sent progress, rp_output = snd out\<rparr>
             in (case rc_status call of
                   Some e \<Rightarrow>
                     if \<not> tr_success final_result \<and> tr_message final_result \<noteq> []
                     then (Some (fst e, tr_message final_result), sent st, Some report)
                     else (Some e, sent st, Some report)
                 | None \<Rightarrow> (upload_status, sent st, Some report)))"

record update_call =
  uc_status :: "grpc_error option"
  uc_success :: bool
  uc_message :: string
  uc_pids :: "int list"

text \<open>The answer, and whether the request was sent.\<close>

definition ClientUpdateUtilization :: "update_call \<Rightarrow> string \<Rightarrow> int \<Rightarrow> grpc_error option \<times> bool" where
  "ClientUpdateUtilization call ws utilization =
     (if ws = [] then (Some (INVALID_ARGUMENT, ''workspace_subdir must not be empty.''), False)
      else if utilization < 0 \<or> utilization > 100 then
        (Some (INVALID_ARGUMENT, ''utilization must be in [0, 100].''), False)
      else (uc_status call, True))"

section \<open>Facts\<close>

definition results_of :: "TaskResponse list \<Rightarrow> TaskResult list" where
  "results_of rs = concat (map (\<lambda>x. case x of Result r \<Rightarrow> [r] | _ \<Rightarrow> []) rs)"

definition logs_of :: "TaskResponse list \<Rightarrow> string" where
  "logs_of rs = concat (map (\<lambda>x. case x of LogChunk data \<Rightarrow> data | _ \<Rightarrow> []) rs)"

lemma drain_result:
  "snd (DrainServerResponses rs p raw st r0) = (if results_of rs = [] then r0 else last (results_of rs))"
  by (induction rs arbitrary: st r0) (auto simp: results_of_def split: TaskResponse.splits)

lemma drain_raw:
  "raw \<or> \<not> p \<Longrightarrow> fst (DrainServerResponses rs p raw (b, cout) r0) = (b, cout @ logs_of rs)"
  by (induction rs arbitrary: cout r0) (auto simp: logs_of_def print_log_def split: TaskResponse.splits)

text \<open>The success case of a submission.\<close>

lemma TaskSubmit_ok:
  assumes "TaskSubmit L call files ws cmd stats pty xsched = (None, msgs, report)"
  shows "files \<noteq> [] \<and> cmd \<noteq> [] \<and> rc_status call = None \<and>
    (\<exists>rep. report = Some rep \<and>
      rp_response rep = (if results_of (rc_responses call) = [] then empty_result else last (results_of (rc_responses call))))"
proof -
  let ?st = "\<lparr>sent = [], capacity = rc_capacity call\<rparr>"
  let ?p = "new_progress (case stats of None \<Rightarrow> - 1 | Some s \<Rightarrow> us_total_bytes s)"
  have ne: "files \<noteq> []" "cmd \<noteq> []"
    using assms unfolding TaskSubmit_def by (cases "files = []"; cases "cmd = []"; simp)+
  obtain ok st where c: "SendTaskConfig ws cmd (path_join ws ''output'') pty xsched ?st = (ok, st)" by (rule prod.exhaust)
  have ok: ok using assms ne c unfolding TaskSubmit_def by (cases ok) simp_all
  obtain up st' p' where u: "StreamWorkspaceFiles kChunkSize L files st ?p = (up, st', p')" by (rule prod_cases3)
  obtain out fr where d: "DrainServerResponses (rc_responses call) (0 \<le> total_bytes ?p) pty (True, []) empty_result = (out, fr)"
    by (rule prod.exhaust)
  have fr: "fr = (if results_of (rc_responses call) = [] then empty_result else last (results_of (rc_responses call)))"
    using drain_result [of "rc_responses call" "0 \<le> total_bytes ?p" pty "(True, [])" empty_result] d by simp
  show ?thesis using assms ne c ok u d fr
    by (auto simp: TaskSubmit_def Let_def split: option.splits if_splits)
qed

section \<open>Properties\<close>

text \<open>A task's output reaches the user unchanged: with a terminal, or without the progress display, what
  the client prints is the concatenation of the log chunks of the server, in order, whatever
  results and empty messages come between them.\<close>

theorem drain_output_exact:
  assumes "raw \<or> \<not> p"
  shows "fst (DrainServerResponses rs p raw (True, []) r0) = (True, logs_of rs)"
  using drain_raw [OF assms, of rs True "[]" r0] by simp

theorem drain_output_exact_witness:
  "fst (DrainServerResponses [LogChunk ''a'', Result empty_result, LogChunk ''b''] False False (True, []) empty_result) =
    (True, ''ab'')"
  using drain_output_exact [of False False "[LogChunk ''a'', Result empty_result, LogChunk ''b'']" empty_result]
  by (simp add: logs_of_def)

text \<open>A missing result counts as success: the result that the client reports when the server sent none
  is the default message, whose status is the zero value kSuccess.\<close>

theorem missing_result_is_success:
  "snd (DrainServerResponses [LogChunk data] p raw st empty_result) = empty_result \<and> tr_success empty_result"
  by (simp add: empty_result_def)

end
