(* ===== verification/ClientOptions.thy ===== *)
theory ClientOptions
  imports ClientApi
begin

text \<open>
  The command lines of the clients: the flags of client/client.cc after absl has parsed them, the
  positional and the flag form of client/integrated_client.cc, and the flags of
  client/resource_client.cc. std::stoi is the decimal reader of CString with the range of int.
\<close>

definition stoi :: "string \<Rightarrow> int option" where
  "stoi s =
     (case parse_decimal s of
        None \<Rightarrow> None
      | Some (neg, m, rest) \<Rightarrow>
          let v = (if neg then - int m else int m)
          in if v < INT32_MIN \<or> INT32_MAX < v then None else Some v)"

section \<open>remote\_client\<close>

record ClientOptions =
  co_target :: string
  co_src_dir :: string
  co_workspace_subdir :: string
  co_command :: string
  co_enable_pty :: bool
  co_update_utilization :: bool
  co_xsched :: XSchedConfig

record client_flags =
  FLAGS_target :: string
  FLAGS_src_dir :: string
  FLAGS_workspace_subdir :: string
  FLAGS_command :: string
  FLAGS_pty :: bool
  FLAGS_utilization :: int
  FLAGS_update_utilization :: bool

definition default_flags :: client_flags where
  "default_flags = \<lparr>FLAGS_target = ''127.0.0.1:8063'', FLAGS_src_dir = ''./task'',
     FLAGS_workspace_subdir = ''uploaded_task'', FLAGS_command = [], FLAGS_pty = False,
     FLAGS_utilization = - 1, FLAGS_update_utilization = False\<rparr>"

definition LoadClientOptions :: "client_flags \<Rightarrow> ClientOptions" where
  "LoadClientOptions F =
     \<lparr>co_target = FLAGS_target F, co_src_dir = FLAGS_src_dir F, co_workspace_subdir = FLAGS_workspace_subdir F,
      co_command = FLAGS_command F, co_enable_pty = FLAGS_pty F,
      co_update_utilization = FLAGS_update_utilization F,
      co_xsched = \<lparr>xs_enabled = (FLAGS_utilization F \<ge> 0), xs_utilization = FLAGS_utilization F\<rparr>\<rparr>"

definition ValidateClientOptions :: "ClientOptions \<Rightarrow> bool" where
  "ValidateClientOptions opts =
     (if co_workspace_subdir opts = [] then False
      else if co_update_utilization opts then
        \<not> (xs_utilization (co_xsched opts) < 0 \<or> xs_utilization (co_xsched opts) > 100)
      else if co_src_dir opts = [] then False
      else if co_command opts = [] then False
      else if xs_utilization (co_xsched opts) < - 1 \<or> xs_utilization (co_xsched opts) > 100 then False
      else True)"

section \<open>integrated\_client\<close>

record ProgramOptions =
  po_controller_addr :: string
  po_src_dir :: string
  po_workspace_subdir :: string
  po_command :: string
  po_local_output_dir :: string
  po_resource_type :: string
  po_resource_count :: int
  po_mem_req :: int
  po_core_req :: int
  po_pid :: int
  po_pty :: bool
  po_update_utilization :: bool
  po_task_id :: string
  po_xsched :: XSchedConfig

definition initial_options :: ProgramOptions where
  "initial_options = \<lparr>po_controller_addr = [], po_src_dir = [], po_workspace_subdir = [], po_command = [],
     po_local_output_dir = [], po_resource_type = [], po_resource_count = 0, po_mem_req = - 1,
     po_core_req = - 1, po_pid = - 1, po_pty = False, po_update_utilization = False, po_task_id = [],
     po_xsched = \<lparr>xs_enabled = False, xs_utilization = - 1\<rparr>\<rparr>"

definition flag_value :: "string \<Rightarrow> string \<Rightarrow> string option" where
  "flag_value p arg = (if starts_with p arg then Some (drop (length p) arg) else None)"

text \<open>One argument of the flag form, the flags with a number and then all of them. None: an unknown
  argument, or a number that is none.\<close>

definition parse_number_flag :: "string \<Rightarrow> ProgramOptions \<Rightarrow> ProgramOptions option" where
  "parse_number_flag arg opts =
     (case flag_value ''--count='' arg of Some v \<Rightarrow> map_option (\<lambda>n. opts\<lparr>po_resource_count := n\<rparr>) (stoi v) | None \<Rightarrow>
     (case flag_value ''--mem='' arg of Some v \<Rightarrow> map_option (\<lambda>n. opts\<lparr>po_mem_req := n\<rparr>) (stoi v) | None \<Rightarrow>
     (case flag_value ''--cores='' arg of Some v \<Rightarrow> map_option (\<lambda>n. opts\<lparr>po_core_req := n\<rparr>) (stoi v) | None \<Rightarrow>
     (case flag_value ''--pid='' arg of Some v \<Rightarrow> map_option (\<lambda>n. opts\<lparr>po_pid := n\<rparr>) (stoi v) | None \<Rightarrow>
     (case flag_value ''--utilization='' arg of
        Some v \<Rightarrow> map_option (\<lambda>n. opts\<lparr>po_xsched := (po_xsched opts)\<lparr>xs_utilization := n\<rparr>\<rparr>) (stoi v)
      | None \<Rightarrow> None)))))"

definition parse_flag :: "string \<Rightarrow> ProgramOptions \<Rightarrow> ProgramOptions option" where
  "parse_flag arg opts =
     (if arg = ''--pty'' then Some (opts\<lparr>po_pty := True\<rparr>)
      else if arg = ''--update_utilization'' then Some (opts\<lparr>po_update_utilization := True\<rparr>)
      else case flag_value ''--controller='' arg of Some v \<Rightarrow> Some (opts\<lparr>po_controller_addr := v\<rparr>) | None \<Rightarrow>
      (case flag_value ''--src_dir='' arg of Some v \<Rightarrow> Some (opts\<lparr>po_src_dir := v\<rparr>) | None \<Rightarrow>
      (case flag_value ''--workspace_subdir='' arg of Some v \<Rightarrow> Some (opts\<lparr>po_workspace_subdir := v\<rparr>) | None \<Rightarrow>
      (case flag_value ''--command='' arg of Some v \<Rightarrow> Some (opts\<lparr>po_command := v\<rparr>) | None \<Rightarrow>
      (case flag_value ''--local_output_dir='' arg of Some v \<Rightarrow> Some (opts\<lparr>po_local_output_dir := v\<rparr>) | None \<Rightarrow>
      (case flag_value ''--type='' arg of Some v \<Rightarrow> Some (opts\<lparr>po_resource_type := v\<rparr>) | None \<Rightarrow>
      (case flag_value ''--task_id='' arg of Some v \<Rightarrow> Some (opts\<lparr>po_task_id := v\<rparr>) | None \<Rightarrow>
      parse_number_flag arg opts)))))))"

fun parse_flags :: "string list \<Rightarrow> ProgramOptions \<Rightarrow> ProgramOptions option" where
  "parse_flags [] opts = Some opts"
| "parse_flags (arg # args) opts =
     (case parse_flag arg opts of None \<Rightarrow> None | Some opts \<Rightarrow> parse_flags args opts)"

definition parse_positional :: "string list \<Rightarrow> ProgramOptions \<Rightarrow> ProgramOptions option" where
  "parse_positional args opts =
     (if length args < 7 then None
      else
        let opts = opts\<lparr>po_controller_addr := args ! 0, po_src_dir := args ! 1, po_workspace_subdir := args ! 2,
              po_command := args ! 3, po_local_output_dir := args ! 4, po_resource_type := args ! 5\<rparr>
        in map_option (\<lambda>n. opts\<lparr>po_resource_count := n\<rparr>) (stoi (args ! 6)))"

definition check_options :: "ProgramOptions \<Rightarrow> ProgramOptions option" where
  "check_options opts =
     (if po_update_utilization opts then
        (if po_controller_addr opts = [] then None
         else if po_workspace_subdir opts = [] then None
         else if po_task_id opts = [] then None
         else if xs_utilization (po_xsched opts) < 0 \<or> xs_utilization (po_xsched opts) > 100 then None
         else Some (opts\<lparr>po_xsched := (po_xsched opts)\<lparr>xs_enabled := True\<rparr>\<rparr>))
      else if po_command opts = [] then None
      else if po_local_output_dir opts = [] then None
      else if po_resource_type opts = [] then None
      else if po_resource_count opts \<le> 0 then None
      else if po_mem_req opts = 0 \<or> po_core_req opts = 0 then None
      else if po_mem_req opts < - 1 \<or> po_core_req opts < - 1 then None
      else if po_pid opts = 0 \<or> po_pid opts < - 1 then None
      else if xs_utilization (po_xsched opts) < - 1 \<or> xs_utilization (po_xsched opts) > 100 then None
      else Some (opts\<lparr>po_xsched := (po_xsched opts)\<lparr>xs_enabled := (xs_utilization (po_xsched opts) \<ge> 0)\<rparr>\<rparr>))"

text \<open>The arguments without the program name; getpid is a parameter.\<close>

definition ParseArguments :: "int \<Rightarrow> string list \<Rightarrow> ProgramOptions option" where
  "ParseArguments getpid args =
     (case args of
        [] \<Rightarrow> None
      | first # later \<Rightarrow>
          (case (if \<not> starts_with ''--'' first then parse_positional args initial_options
                 else parse_flags args
                   (initial_options\<lparr>po_resource_count := 1, po_local_output_dir := ''.'', po_pid := getpid\<rparr>)) of
             None \<Rightarrow> None
           | Some opts \<Rightarrow> check_options opts))"

section \<open>resource\_client\<close>

record ResourceRequest =
  rr_controller_addr :: string
  rr_resource_type :: string
  rr_resource_count :: int
  rr_mem_req :: int
  rr_core_req :: int
  rr_pid :: int

definition parse_resource_flag :: "string \<Rightarrow> ResourceRequest \<Rightarrow> ResourceRequest option" where
  "parse_resource_flag arg req =
     (case flag_value ''--controller='' arg of Some v \<Rightarrow> Some (req\<lparr>rr_controller_addr := v\<rparr>) | None \<Rightarrow>
     (case flag_value ''--type='' arg of Some v \<Rightarrow> Some (req\<lparr>rr_resource_type := v\<rparr>) | None \<Rightarrow>
     (case flag_value ''--count='' arg of Some v \<Rightarrow> map_option (\<lambda>n. req\<lparr>rr_resource_count := n\<rparr>) (stoi v) | None \<Rightarrow>
     (case flag_value ''--mem='' arg of Some v \<Rightarrow> map_option (\<lambda>n. req\<lparr>rr_mem_req := n\<rparr>) (stoi v) | None \<Rightarrow>
     (case flag_value ''--cores='' arg of Some v \<Rightarrow> map_option (\<lambda>n. req\<lparr>rr_core_req := n\<rparr>) (stoi v) | None \<Rightarrow>
     (case flag_value ''--pid='' arg of Some v \<Rightarrow> map_option (\<lambda>n. req\<lparr>rr_pid := n\<rparr>) (stoi v) | None \<Rightarrow> None))))))"

fun parse_resource_flags :: "string list \<Rightarrow> ResourceRequest \<Rightarrow> ResourceRequest option" where
  "parse_resource_flags [] req = Some req"
| "parse_resource_flags (arg # args) req =
     (case parse_resource_flag arg req of None \<Rightarrow> None | Some req \<Rightarrow> parse_resource_flags args req)"

definition ResourceParseArguments :: "int \<Rightarrow> string list \<Rightarrow> ResourceRequest option" where
  "ResourceParseArguments getpid args =
     (if length args < 3 then None
      else case parse_resource_flags args \<lparr>rr_controller_addr = [], rr_resource_type = [], rr_resource_count = 0,
             rr_mem_req = - 1, rr_core_req = - 1, rr_pid = - 1\<rparr> of
        None \<Rightarrow> None
      | Some req \<Rightarrow>
          if rr_controller_addr req = [] then None
          else if rr_resource_type req = [] then None
          else if rr_resource_count req \<le> 0 then None
          else if rr_mem_req req = 0 \<or> rr_core_req req = 0 then None
          else if rr_mem_req req < - 1 \<or> rr_core_req req < - 1 then None
          else if rr_pid req = 0 \<or> rr_pid req < - 1 then None
          else Some (if rr_pid req < 0 then req\<lparr>rr_pid := getpid\<rparr> else req))"

section \<open>Properties\<close>

lemma stoi_to_string: "INT32_MIN \<le> i \<Longrightarrow> i \<le> INT32_MAX \<Longrightarrow> stoi (to_string i) = Some i"
  by (cases "i < 0") (simp_all add: stoi_def to_string_def)

lemma stoi_range: "stoi s = Some n \<Longrightarrow> INT32_MIN \<le> n \<and> n \<le> INT32_MAX"
  by (auto simp: stoi_def Let_def split: option.splits if_splits)

text \<open>The flag form of given options.\<close>

definition render_flags :: "ProgramOptions \<Rightarrow> string list" where
  "render_flags opts =
     [''--controller='' @ po_controller_addr opts, ''--src_dir='' @ po_src_dir opts,
      ''--workspace_subdir='' @ po_workspace_subdir opts, ''--command='' @ po_command opts,
      ''--local_output_dir='' @ po_local_output_dir opts, ''--type='' @ po_resource_type opts,
      ''--task_id='' @ po_task_id opts, ''--count='' @ to_string (po_resource_count opts),
      ''--mem='' @ to_string (po_mem_req opts), ''--cores='' @ to_string (po_core_req opts),
      ''--pid='' @ to_string (po_pid opts), ''--utilization='' @ to_string (xs_utilization (po_xsched opts))] @
     (if po_pty opts then [''--pty''] else []) @
     (if po_update_utilization opts then [''--update_utilization''] else [])"

definition int32_options :: "ProgramOptions \<Rightarrow> bool" where
  "int32_options opts \<longleftrightarrow>
     list_all (\<lambda>n. INT32_MIN \<le> n \<and> n \<le> INT32_MAX)
       [po_resource_count opts, po_mem_req opts, po_core_req opts, po_pid opts, xs_utilization (po_xsched opts)]"

lemma parse_flag_strings [simp]:
  "parse_flag (''--controller='' @ v) opts = Some (opts\<lparr>po_controller_addr := v\<rparr>)"
  "parse_flag (''--src_dir='' @ v) opts = Some (opts\<lparr>po_src_dir := v\<rparr>)"
  "parse_flag (''--workspace_subdir='' @ v) opts = Some (opts\<lparr>po_workspace_subdir := v\<rparr>)"
  "parse_flag (''--command='' @ v) opts = Some (opts\<lparr>po_command := v\<rparr>)"
  "parse_flag (''--local_output_dir='' @ v) opts = Some (opts\<lparr>po_local_output_dir := v\<rparr>)"
  "parse_flag (''--type='' @ v) opts = Some (opts\<lparr>po_resource_type := v\<rparr>)"
  "parse_flag (''--task_id='' @ v) opts = Some (opts\<lparr>po_task_id := v\<rparr>)"
  by (simp_all add: parse_flag_def flag_value_def starts_with_def)

lemma parse_flag_numbers [simp]:
  "parse_flag (''--count='' @ v) opts = map_option (\<lambda>n. opts\<lparr>po_resource_count := n\<rparr>) (stoi v)"
  "parse_flag (''--mem='' @ v) opts = map_option (\<lambda>n. opts\<lparr>po_mem_req := n\<rparr>) (stoi v)"
  "parse_flag (''--cores='' @ v) opts = map_option (\<lambda>n. opts\<lparr>po_core_req := n\<rparr>) (stoi v)"
  "parse_flag (''--pid='' @ v) opts = map_option (\<lambda>n. opts\<lparr>po_pid := n\<rparr>) (stoi v)"
  "parse_flag (''--utilization='' @ v) opts =
     map_option (\<lambda>n. opts\<lparr>po_xsched := (po_xsched opts)\<lparr>xs_utilization := n\<rparr>\<rparr>) (stoi v)"
  by (simp_all add: parse_flag_def parse_number_flag_def flag_value_def starts_with_def)

lemma parse_flag_switches [simp]:
  "parse_flag ''--pty'' opts = Some (opts\<lparr>po_pty := True\<rparr>)"
  "parse_flag ''--update_utilization'' opts = Some (opts\<lparr>po_update_utilization := True\<rparr>)"
  by (simp_all add: parse_flag_def)

lemma parse_flags_append:
  "parse_flags (xs @ ys) opts = (case parse_flags xs opts of None \<Rightarrow> None | Some opts \<Rightarrow> parse_flags ys opts)"
  by (induction xs arbitrary: opts) (simp_all split: option.split)

text \<open>C33. Flags say what they mean: options written out in the flag form of the integrated client and parsed
  again are the options, checked; every string reaches its field unchanged, also one that holds
  an equals sign, and every number of 32 bits is read back.\<close>

theorem flags_roundtrip:
  assumes "int32_options opts" "\<not> xs_enabled (po_xsched opts)"
  shows "ParseArguments pid (render_flags opts) = check_options opts"
proof -
  have "parse_flags (render_flags opts)
      (initial_options\<lparr>po_resource_count := 1, po_local_output_dir := ''.'', po_pid := pid\<rparr>) = Some opts"
    using assms
    by (cases opts; cases "po_xsched opts"; cases "po_pty opts"; cases "po_update_utilization opts")
      (simp_all del: append.simps add: render_flags_def int32_options_def stoi_to_string initial_options_def
         parse_flags_append)
  moreover have "\<exists>as. render_flags opts = (''--controller='' @ po_controller_addr opts) # as"
    by (simp add: render_flags_def)
  ultimately show ?thesis by (auto simp: ParseArguments_def starts_with_def)
qed

definition demo_options :: ProgramOptions where
  "demo_options = initial_options\<lparr>po_controller_addr := ''c:1'', po_src_dir := ''src'', po_workspace_subdir := ''job'',
     po_command := ''make A=1'', po_local_output_dir := ''.'', po_resource_type := ''GPU'',
     po_resource_count := 2, po_pid := 77, po_xsched := \<lparr>xs_enabled = False, xs_utilization = 40\<rparr>\<rparr>"

theorem flags_roundtrip_witness:
  "ParseArguments 5 (render_flags demo_options) =
     Some (demo_options\<lparr>po_xsched := \<lparr>xs_enabled = True, xs_utilization = 40\<rparr>\<rparr>)"
proof -
  have a: "int32_options demo_options" by (simp add: int32_options_def demo_options_def initial_options_def)
  have b: "\<not> xs_enabled (po_xsched demo_options)" by (simp add: demo_options_def)
  show ?thesis
    by (subst flags_roundtrip [OF a b]) (simp add: check_options_def demo_options_def initial_options_def)
qed

lemma parse_number_range:
  assumes "parse_number_flag arg opts = Some opts'" "int32_options opts"
  shows "int32_options opts'"
  using assms by (auto simp: parse_number_flag_def int32_options_def dest: stoi_range split: option.splits)

lemma parse_flag_range:
  assumes "parse_flag arg opts = Some opts'" "int32_options opts"
  shows "int32_options opts'"
proof (cases "parse_number_flag arg opts = Some opts'")
  case True
  then show ?thesis using assms(2) by (rule parse_number_range)
next
  case False
  then show ?thesis
    using assms unfolding parse_flag_def int32_options_def by (simp split: if_splits option.splits) auto
qed

lemma parse_flags_range:
  assumes "parse_flags args opts = Some opts'" "int32_options opts"
  shows "int32_options opts'"
  using assms
proof (induction args arbitrary: opts)
  case (Cons arg args)
  obtain o1 where p: "parse_flag arg opts = Some o1" "parse_flags args o1 = Some opts'"
    using Cons.prems(1) by (auto split: option.splits)
  have "int32_options o1" by (rule parse_flag_range [OF p(1) Cons.prems(2)])
  then show ?case by (rule Cons.IH [OF p(2)])
qed simp

lemma initial_range: "INT32_MIN \<le> pid \<Longrightarrow> pid \<le> INT32_MAX \<Longrightarrow>
    int32_options (initial_options\<lparr>po_resource_count := 1, po_local_output_dir := d, po_pid := pid\<rparr>)"
  by (simp add: int32_options_def initial_options_def)

text \<open>What the options of a run satisfy, whatever form they came in.\<close>

definition well_formed_options :: "ProgramOptions \<Rightarrow> bool" where
  "well_formed_options opts =
     (int32_options opts \<and>
      (if po_update_utilization opts then
         po_controller_addr opts \<noteq> [] \<and> po_workspace_subdir opts \<noteq> [] \<and> po_task_id opts \<noteq> [] \<and>
         xs_enabled (po_xsched opts) \<and> xs_utilization (po_xsched opts) \<in> {0..100}
       else
         po_command opts \<noteq> [] \<and> po_local_output_dir opts \<noteq> [] \<and> po_resource_type opts \<noteq> [] \<and>
         0 < po_resource_count opts \<and>
         list_all (\<lambda>n. n = - 1 \<or> 0 < n) [po_mem_req opts, po_core_req opts, po_pid opts] \<and>
         xs_utilization (po_xsched opts) \<in> {- 1..100} \<and>
         xs_enabled (po_xsched opts) = (0 \<le> xs_utilization (po_xsched opts))))"

lemma check_options_well_formed:
  assumes "check_options opts = Some opts'" "int32_options opts"
  shows "well_formed_options opts'"
  using assms by (auto simp: check_options_def well_formed_options_def int32_options_def split: if_splits)

lemma parse_positional_range:
  assumes "parse_positional args opts = Some opts'" "int32_options opts"
  shows "int32_options opts'"
  using assms by (auto simp: parse_positional_def int32_options_def Let_def dest: stoi_range split: if_splits)

text \<open>C32. Accepted options are well formed: whatever the command line, the options that the integrated client
  runs with have numbers of 32 bits in their ranges, the strings their mode needs, and the
  scheduler switched on exactly when a utilization is given.\<close>

theorem ParseArguments_well_formed:
  assumes "ParseArguments pid args = Some opts" "0 < pid" "pid \<le> INT32_MAX"
  shows "well_formed_options opts"
proof -
  have i: "int32_options initial_options" by (simp add: int32_options_def initial_options_def)
  obtain o1 where c: "check_options o1 = Some opts" and r: "int32_options o1"
    using assms(1) parse_positional_range [OF _ i] parse_flags_range [OF _ initial_range [of pid "''.''"]] assms(2,3)
    by (auto simp: ParseArguments_def simp del: parse_flags.simps split: list.splits option.splits if_splits)
  show ?thesis by (rule check_options_well_formed [OF c r])
qed

theorem ParseArguments_well_formed_witness:
  "\<exists>opts. ParseArguments 5 (render_flags demo_options) = Some opts \<and> well_formed_options opts"
proof -
  have "ParseArguments 5 (render_flags demo_options) \<noteq> None" by code_simp
  then show ?thesis using ParseArguments_well_formed [of 5 "render_flags demo_options"] by auto
qed

text \<open>The positional form drops what follows its seven arguments: the usage text offers the optional flags
  after them, but whatever stands there, even a flag that does not exist, changes nothing.\<close>

theorem positional_ignores_flags:
  assumes "length args = 7" "\<not> starts_with ''--'' (hd args)"
  shows "ParseArguments pid (args @ extra) = ParseArguments pid args"
  using assms by (cases args) (auto simp: ParseArguments_def parse_positional_def nth_append nth_Cons')

theorem positional_ignores_flags_witness:
  "ParseArguments 5 ([''c:1'', ''src'', ''job'', ''make'', ''.'', ''GPU'', ''1''] @ [''--mem=512'', ''--no_such_flag'']) =
   ParseArguments 5 [''c:1'', ''src'', ''job'', ''make'', ''.'', ''GPU'', ''1'']"
  by (rule positional_ignores_flags) (simp_all add: starts_with_def)

text \<open>A number is what its first digits say: std::stoi stops at the first character that is no digit, and
  no caller looks at the position, so a count with a unit or a typing error is accepted.\<close>

theorem stoi_ignores_suffix:
  "ResourceParseArguments 5 [''--controller=c:1'', ''--type=GPU'', ''--count=2x'', ''--mem=16GB''] =
     Some \<lparr>rr_controller_addr = ''c:1'', rr_resource_type = ''GPU'', rr_resource_count = 2, rr_mem_req = 16,
       rr_core_req = - 1, rr_pid = 5\<rparr>"
  by code_simp

end
