(* ===== verification/RemoteClient.thy ===== *)
theory RemoteClient
  imports ClientOptions
begin

text \<open>
  client/client.cc after its flags are read: the preparation of the local directory, the update of
  a running task and the submission, each ending in an exit code. The local file system is a
  parameter, and so is what comes back from the service at a target address.
\<close>

record client_host =
  ch_dir :: "string \<Rightarrow> local_dir"
  ch_exists :: "string \<Rightarrow> bool"
  ch_regular :: "string \<Rightarrow> bool"
  ch_files :: local_files

record services =
  sr_submit :: "string \<Rightarrow> rpc_call"
  sr_update :: "string \<Rightarrow> update_call"

definition ClientPrepareWorkspace :: "client_host \<Rightarrow> ClientOptions \<Rightarrow> (UploadFileSpec list \<times> UploadStats) option" where
  "ClientPrepareWorkspace ch opts =
     (case CollectDirectoryFiles (ch_dir ch (co_src_dir opts)) of
        None \<Rightarrow> None
      | Some files \<Rightarrow>
          (case ValidateUploadFiles (ch_exists ch) (ch_regular ch) files of
             Some e \<Rightarrow> None
           | None \<Rightarrow>
               (case ComputeUploadStats (ch_files ch) files of
                  None \<Rightarrow> None
                | Some stats \<Rightarrow> Some (files, stats))))"

definition RunUpdateUtilization :: "services \<Rightarrow> ClientOptions \<Rightarrow> int" where
  "RunUpdateUtilization R opts =
     (let call = sr_update R (co_target opts)
      in case ClientUpdateUtilization call (co_workspace_subdir opts) (xs_utilization (co_xsched opts)) of
           (Some e, _) \<Rightarrow> 1
         | (None, _) \<Rightarrow> if \<not> uc_success call then 1 else 0)"

text \<open>The report is empty, with the default response, when TaskSubmit never fills it in.\<close>

definition report_response :: "TaskSubmitReport option \<Rightarrow> TaskResult" where
  "report_response report = (case report of None \<Rightarrow> empty_result | Some r \<Rightarrow> rp_response r)"

definition RunClientWorkflow :: "client_host \<Rightarrow> services \<Rightarrow> ClientOptions \<Rightarrow> UploadFileSpec list \<Rightarrow> UploadStats \<Rightarrow>
    int \<times> TaskRequest list" where
  "RunClientWorkflow ch R opts files stats =
     (case TaskSubmit (ch_files ch) (sr_submit R (co_target opts)) files (co_workspace_subdir opts) (co_command opts)
             (Some stats) (co_enable_pty opts) (Some (co_xsched opts)) of
        (Some e, messages, _) \<Rightarrow> (1, messages)
      | (None, messages, report) \<Rightarrow>
          if \<not> tr_success (report_response report) then (1, messages) else (0, messages))"

definition RunClient :: "client_host \<Rightarrow> services \<Rightarrow> ClientOptions \<Rightarrow> int \<times> TaskRequest list" where
  "RunClient ch R opts =
     (if co_update_utilization opts then (RunUpdateUtilization R opts, [])
      else case ClientPrepareWorkspace ch opts of
          None \<Rightarrow> (1, [])
        | Some (files, stats) \<Rightarrow> RunClientWorkflow ch R opts files stats)"

definition client_main :: "client_host \<Rightarrow> services \<Rightarrow> client_flags \<Rightarrow> int \<times> TaskRequest list" where
  "client_main ch R F =
     (let opts = LoadClientOptions F
      in if \<not> ValidateClientOptions opts then (1, []) else RunClient ch R opts)"

section \<open>Facts\<close>

text \<open>When the workflow exits with 0, the call was OK and its last result, if any, a success.\<close>

lemma workflow_zero:
  assumes "RunClientWorkflow ch R opts files stats = (0, messages)"
  shows "rc_status (sr_submit R (co_target opts)) = None \<and>
    tr_success (if results_of (rc_responses (sr_submit R (co_target opts))) = [] then empty_result
      else last (results_of (rc_responses (sr_submit R (co_target opts)))))"
proof -
  let ?call = "sr_submit R (co_target opts)"
  obtain st msgs report where t: "TaskSubmit (ch_files ch) ?call files (co_workspace_subdir opts) (co_command opts)
      (Some stats) (co_enable_pty opts) (Some (co_xsched opts)) = (st, msgs, report)" by (rule prod_cases3)
  have st: "st = None" using assms t by (cases st) (simp_all add: RunClientWorkflow_def)
  have s: "tr_success (report_response report)"
    using assms t st by (auto simp: RunClientWorkflow_def split: if_splits)
  from TaskSubmit_ok [OF t [unfolded st]] s show ?thesis by (auto simp: report_response_def)
qed

lemma collect_entry_file:
  "f \<in> set (collect_entry e) \<Longrightarrow> de_regular e \<and> local_path f = de_path e \<and> de_relative e = Some (spec_relative_path f)"
  by (cases "de_regular e"; cases "de_relative e") (auto simp: collect_entry_def)

text \<open>What is uploaded are regular files found in the directory.\<close>

lemma collected_files:
  assumes "CollectDirectoryFiles d = Some files"
  shows "files \<noteq> [] \<and> (\<forall>f\<in>set files. \<exists>e\<in>set (ld_entries d). f \<in> set (collect_entry e))"
proof -
  have ne: "files \<noteq> []" and files: "files = concat (map collect_entry (ld_entries d))"
    using assms by (auto simp: CollectDirectoryFiles_def Let_def split: if_splits)
  show ?thesis
  proof (intro conjI ballI)
    show "\<exists>e\<in>set (ld_entries d). f \<in> set (collect_entry e)" if "f \<in> set files" for f
      using that unfolding files by simp
  qed (rule ne)
qed

lemma validated_files:
  "ValidateUploadFiles ex reg files = None \<longleftrightarrow> (\<forall>f\<in>set files. ex (local_path f) \<and> reg (local_path f))"
  by (induction files) auto

section \<open>Properties\<close>

text \<open>Only what was checked is offered for upload: every file of a prepared workspace is a regular entry of
  the directory with a path relative to it, exists and is regular when it is checked, and the
  file count of the statistics is the number of files, which is not 0.\<close>

theorem prepared_files_checked:
  assumes "ClientPrepareWorkspace ch opts = Some (files, stats)"
  shows "us_file_count stats = length files \<and> 0 < length files \<and>
    (\<forall>f\<in>set files. ch_exists ch (local_path f) \<and> ch_regular ch (local_path f) \<and>
      (\<exists>e\<in>set (ld_entries (ch_dir ch (co_src_dir opts))). de_regular e \<and> de_path e = local_path f \<and>
        de_relative e = Some (spec_relative_path f)))"
proof -
  have c: "CollectDirectoryFiles (ch_dir ch (co_src_dir opts)) = Some files"
    and v: "ValidateUploadFiles (ch_exists ch) (ch_regular ch) files = None"
    and s: "ComputeUploadStats (ch_files ch) files = Some stats"
    using assms by (auto simp: ClientPrepareWorkspace_def split: option.splits)
  have "us_file_count stats = length files" using s by (auto simp: ComputeUploadStats_def)
  moreover have "\<exists>e\<in>set (ld_entries (ch_dir ch (co_src_dir opts))). de_regular e \<and> de_path e = local_path f \<and>
      de_relative e = Some (spec_relative_path f)" if f: "f \<in> set files" for f
  proof -
    obtain e where "e \<in> set (ld_entries (ch_dir ch (co_src_dir opts)))" "f \<in> set (collect_entry e)"
      using collected_files [OF c] f by blast
    then show ?thesis using collect_entry_file by (metis (no_types))
  qed
  ultimately show ?thesis using collected_files [OF c] v by (simp add: validated_files)
qed

definition demo_client_host :: client_host where
  "demo_client_host = \<lparr>ch_dir = \<lambda>_. \<lparr>ld_exists = True, ld_is_directory = True, ld_canonical = True,
       ld_entries = [\<lparr>de_path = ''/t/run'', de_regular = True, de_relative = Some ''run''\<rparr>,
         \<lparr>de_path = ''/t/lib'', de_regular = False, de_relative = Some ''lib''\<rparr>]\<rparr>,
     ch_exists = \<lambda>_. True, ch_regular = \<lambda>_. True,
     ch_files = \<lparr>lf_open = \<lambda>_. Some ''ok'', lf_size = \<lambda>_. Some 2\<rparr>\<rparr>"

definition demo_client_options :: ClientOptions where
  "demo_client_options = LoadClientOptions (default_flags\<lparr>FLAGS_command := ''./run''\<rparr>)"

theorem prepared_files_checked_witness:
  "\<exists>files stats. ClientPrepareWorkspace demo_client_host demo_client_options = Some (files, stats) \<and>
     us_file_count stats = length files \<and> length files = 1"
proof -
  let ?files = "[\<lparr>local_path = ''/t/run'', spec_relative_path = ''run''\<rparr>]"
  have p: "ClientPrepareWorkspace demo_client_host demo_client_options =
      Some (?files, \<lparr>us_file_count = 1, us_total_bytes = 2\<rparr>)" by code_simp
  then show ?thesis using prepared_files_checked [OF p] by simp
qed

end
