(* ===== verification/Controller.thy ===== *)
theory Controller
  imports ClientOptions
begin

text \<open>
  The messages of the resource controller (proto/resource\_control.proto, as the clients use
  them) and client/resource\_client.cc. The controller is not part of the repository: whether a
  channel to it opens and what it answers are functions of the calls made so far. The state of a
  client is the list of those calls, the tasks submitted and what is printed.
\<close>

section \<open>Messages\<close>

record hcp_status =
  errcode :: int
  errmsg :: string

record ApplyResourceRequest =
  ap_type :: string
  ap_nums :: int
  ap_memreq :: "int option"
  ap_corereq :: "int option"
  ap_pid :: "int option"
  ap_utilizationreq :: "int option"

record ApplyResourceResponse =
  ar_status :: "hcp_status option"
  ar_task_id :: string

record NodeId =
  nd_ip :: string
  nd_port :: int

record ResourceInfo =
  ri_node :: "NodeId option"
  ri_cgroup_path :: "string option"
  ri_cpu_cores :: "int list"

record QueryResourceResponse =
  qr_status :: "hcp_status option"
  qr_rinfos :: "ResourceInfo list"

datatype call =
    Apply ApplyResourceRequest
  | Query string
  | Release_task string
  | Update_task string int

text \<open>An RPC fails, with the text of the error, or brings a response.\<close>

type_synonym 'a answer = "string + 'a"

record controller =
  ct_channel :: "call list \<Rightarrow> bool"
  ct_apply :: "call list \<Rightarrow> ApplyResourceRequest \<Rightarrow> ApplyResourceResponse answer"
  ct_query :: "call list \<Rightarrow> string \<Rightarrow> QueryResourceResponse answer"
  ct_release :: "call list \<Rightarrow> string \<Rightarrow> hcp_status option answer"
  ct_update :: "call list \<Rightarrow> string \<Rightarrow> int \<Rightarrow> hcp_status option answer"

record client_world =
  cw_calls :: "call list"
  cw_submitted :: "(string \<times> TaskRequest list) list"
  cw_stdout :: string

definition new_client :: client_world where
  "new_client = \<lparr>cw_calls = [], cw_submitted = [], cw_stdout = []\<rparr>"

definition made :: "call \<Rightarrow> client_world \<Rightarrow> client_world" where
  "made c W = W\<lparr>cw_calls := cw_calls W @ [c]\<rparr>"

text \<open>The accessor status() of an absent message is the default message.\<close>

definition status_of :: "hcp_status option \<Rightarrow> hcp_status" where
  "status_of st = (case st of None \<Rightarrow> \<lparr>errcode = 0, errmsg = []\<rparr> | Some s \<Rightarrow> s)"

definition positive :: "int \<Rightarrow> int option" where
  "positive n = (if n > 0 then Some n else None)"

section \<open>resource\_client\<close>

text \<open>A failed RPC leaves the response, and with it the status, at its default.\<close>

definition CheckStep :: "'a answer \<Rightarrow> ('a \<Rightarrow> hcp_status option) \<Rightarrow> bool" where
  "CheckStep answer status =
     (case answer of Inl e \<Rightarrow> False | Inr res \<Rightarrow> if errcode (status_of (status res)) \<noteq> 0 then False else True)"

definition ApplyResource :: "controller \<Rightarrow> ResourceRequest \<Rightarrow> client_world \<Rightarrow> string option \<times> client_world" where
  "ApplyResource C req W =
     (let apply_req = \<lparr>ap_type = rr_resource_type req, ap_nums = rr_resource_count req,
            ap_memreq = positive (rr_mem_req req), ap_corereq = positive (rr_core_req req),
            ap_pid = positive (rr_pid req), ap_utilizationreq = None\<rparr>;
          answer = ct_apply C (cw_calls W) apply_req;
          W = made (Apply apply_req) W
      in if \<not> CheckStep answer ar_status then (None, W)
         else (case answer of Inl e \<Rightarrow> (None, W) | Inr res \<Rightarrow> (Some (ar_task_id res), W)))"

definition QueryResource :: "controller \<Rightarrow> string \<Rightarrow> client_world \<Rightarrow> QueryResourceResponse option \<times> client_world" where
  "QueryResource C task_id W =
     (let answer = ct_query C (cw_calls W) task_id;
          W = made (Query task_id) W
      in if \<not> CheckStep answer qr_status then (None, W)
         else (case answer of Inl e \<Rightarrow> (None, W) | Inr res \<Rightarrow> (Some res, W)))"

fun comma_join :: "string list \<Rightarrow> string" where
  "comma_join [] = []"
| "comma_join [s] = s"
| "comma_join (s # t # ss) = s @ '','' @ comma_join (t # ss)"

definition ResourceFormatCpuCores :: "ResourceInfo \<Rightarrow> string" where
  "ResourceFormatCpuCores info = comma_join (map to_string (ri_cpu_cores info))"

fun print_resources :: "nat \<Rightarrow> ResourceInfo list \<Rightarrow> string" where
  "print_resources i [] = []"
| "print_resources i (info # infos) =
     (case ri_node info of
        None \<Rightarrow> []
      | Some node \<Rightarrow>
          ''Resource['' @ to_dec i @ '']: IP='' @ nd_ip node @ '', Port='' @ to_string (nd_port node) @
          (case ri_cgroup_path info of None \<Rightarrow> [] | Some p \<Rightarrow> '', CGroup='' @ p) @
          (if ri_cpu_cores info = [] then [] else '', CPUCores='' @ ResourceFormatCpuCores info) @ [nl]) @
     print_resources (Suc i) infos"

definition PrintAllocatedResources :: "QueryResourceResponse \<Rightarrow> client_world \<Rightarrow> client_world" where
  "PrintAllocatedResources query_res W =
     W\<lparr>cw_stdout := cw_stdout W @ print_resources 0 (qr_rinfos query_res)\<rparr>"

definition RunResourceClient :: "controller \<Rightarrow> ResourceRequest \<Rightarrow> client_world \<Rightarrow> int \<times> client_world" where
  "RunResourceClient C req W =
     (if \<not> ct_channel C (cw_calls W) then (- 1, W)
      else case ApplyResource C req W of
          (None, W) \<Rightarrow> (- 1, W)
        | (Some task_id, W) \<Rightarrow>
            (case QueryResource C task_id W of
               (None, W) \<Rightarrow> (- 1, W)
             | (Some query_res, W) \<Rightarrow> (0, PrintAllocatedResources query_res W)))"

definition resource_main :: "controller \<Rightarrow> int \<Rightarrow> string list \<Rightarrow> int \<times> client_world" where
  "resource_main C getpid args =
     (case ResourceParseArguments getpid args of
        None \<Rightarrow> (- 1, new_client)
      | Some req \<Rightarrow> RunResourceClient C req new_client)"

lemma made_simps [simp]: "cw_calls (made c W) = cw_calls W @ [c]" "cw_submitted (made c W) = cw_submitted W"
  "cw_stdout (made c W) = cw_stdout W"
  by (simp_all add: made_def)

lemma new_client_simps [simp]: "cw_calls new_client = []" "cw_submitted new_client = []" "cw_stdout new_client = []"
  by (simp_all add: new_client_def)

section \<open>The list of cores read back\<close>

fun comma_split :: "string \<Rightarrow> string list" where
  "comma_split [] = [[]]"
| "comma_split (c # cs) =
     (if c = CHR '','' then [] # comma_split cs
      else case comma_split cs of [] \<Rightarrow> [[c]] | s # ss \<Rightarrow> (c # s) # ss)"

lemma comma_split_run: "CHR '','' \<notin> set s \<Longrightarrow> comma_split s = [s]"
  by (induction s) auto

lemma comma_split_join: "CHR '','' \<notin> set s \<Longrightarrow> comma_split (s @ CHR '','' # t) = s # comma_split t"
  by (induction s) auto

lemma comma_split_comma_join:
  "ss \<noteq> [] \<Longrightarrow> \<forall>s\<in>set ss. CHR '','' \<notin> set s \<Longrightarrow> comma_split (comma_join ss) = ss"
  by (induction ss rule: comma_join.induct) (simp_all add: comma_split_run comma_split_join)

lemma to_string_no_comma: "CHR '','' \<notin> set (to_string n)"
proof -
  have "CHR '','' \<notin> set (to_dec k)" for k
  proof
    assume "CHR '','' \<in> set (to_dec k)"
    then have "c_isdigit (CHR '','')" using to_dec_digits by blast
    then show False by (simp add: c_isdigit_def)
  qed
  then show ?thesis by (simp add: to_string_def)
qed

section \<open>Properties\<close>

text \<open>The printed list of cores can be read back: a script that splits it at the commas and reads the
  numbers has the cores of the allocation, in order.\<close>

theorem cpu_cores_roundtrip:
  assumes "ri_cpu_cores info \<noteq> []" "\<forall>n\<in>set (ri_cpu_cores info). INT32_MIN \<le> n \<and> n \<le> INT32_MAX"
  shows "map stoi (comma_split (ResourceFormatCpuCores info)) = map Some (ri_cpu_cores info)"
proof -
  have "comma_split (ResourceFormatCpuCores info) = map to_string (ri_cpu_cores info)"
    using assms(1) by (simp add: ResourceFormatCpuCores_def comma_split_comma_join to_string_no_comma)
  then show ?thesis using assms(2) by (simp add: stoi_to_string)
qed

theorem cpu_cores_roundtrip_witness:
  "map stoi (comma_split (ResourceFormatCpuCores \<lparr>ri_node = None, ri_cgroup_path = None, ri_cpu_cores = [0, 12]\<rparr>)) =
     [Some 0, Some 12]"
  using cpu_cores_roundtrip [of "\<lparr>ri_node = None, ri_cgroup_path = None, ri_cpu_cores = [0, 12]\<rparr>"] by simp

end
