(* ===== verification/Integrated.thy ===== *)
theory Integrated
  imports RemoteClient Controller
begin

text \<open>
  client/integrated\_client.cc: resources are reserved at the controller, the node is queried, the
  task is run there, and the reservation is given back. An exception is the left value of a sum;
  it ends in main, which returns 1.
\<close>

section \<open>The controller\<close>

record ResourceAllocation =
  al_ip :: string
  al_port :: int
  al_cgroup_path :: string
  al_cpu_cores :: "int list"

definition ReleaseResource :: "controller \<Rightarrow> string \<Rightarrow> client_world \<Rightarrow> bool \<times> client_world" where
  "ReleaseResource C task_id W =
     (if task_id = [] then (True, W)
      else if \<not> ct_channel C (cw_calls W) then (False, W)
      else
        let answer = ct_release C (cw_calls W) task_id;
            W = made (Release_task task_id) W
        in (case answer of
              Inl e \<Rightarrow> (False, W)
            | Inr None \<Rightarrow> (False, W)
            | Inr (Some st) \<Rightarrow> if errcode st \<noteq> 0 then (False, W) else (True, W)))"

definition UpdateResourceUtilization :: "controller \<Rightarrow> string \<Rightarrow> int \<Rightarrow> client_world \<Rightarrow> bool \<times> client_world" where
  "UpdateResourceUtilization C task_id utilization W =
     (if \<not> ct_channel C (cw_calls W) then (False, W)
      else
        let answer = ct_update C (cw_calls W) task_id utilization;
            W = made (Update_task task_id utilization) W
        in (case answer of
              Inl e \<Rightarrow> (False, W)
            | Inr None \<Rightarrow> (False, W)
            | Inr (Some st) \<Rightarrow> if errcode st \<noteq> 0 then (False, W) else (True, W)))"

definition BuildAllocation :: "ResourceInfo \<Rightarrow> string + ResourceAllocation" where
  "BuildAllocation resource =
     (case ri_node resource of
        None \<Rightarrow> Inl ''No node information returned.''
      | Some node \<Rightarrow>
          Inr \<lparr>al_ip = nd_ip node, al_port = nd_port node,
            al_cgroup_path = (case ri_cgroup_path resource of None \<Rightarrow> [] | Some p \<Rightarrow> p),
            al_cpu_cores = ri_cpu_cores resource\<rparr>)"

definition QueryResourceAllocation :: "controller \<Rightarrow> string \<Rightarrow> client_world \<Rightarrow> (string + ResourceAllocation) \<times> client_world" where
  "QueryResourceAllocation C task_id W =
     (if \<not> ct_channel C (cw_calls W) then (Inl ''Failed to initialize brpc channel.'', W)
      else
        let answer = ct_query C (cw_calls W) task_id;
            W = made (Query task_id) W
        in (case answer of
              Inl text \<Rightarrow> (Inl (''Query resource failed: '' @ text), W)
            | Inr res \<Rightarrow>
                if errcode (status_of (qr_status res)) \<noteq> 0
                then (Inl (''Query resource failed: '' @ errmsg (status_of (qr_status res))), W)
                else (case qr_rinfos res of
                    [] \<Rightarrow> (Inl ''No resource information returned.'', W)
                  | info # _ \<Rightarrow> (BuildAllocation info, W))))"

definition apply_request_of :: "string \<Rightarrow> int \<Rightarrow> int \<Rightarrow> int \<Rightarrow> int \<Rightarrow> XSchedConfig \<Rightarrow> ApplyResourceRequest" where
  "apply_request_of resource_type resource_count mem_req core_req pid xsched =
     \<lparr>ap_type = resource_type, ap_nums = resource_count,
      ap_memreq = (if mem_req > 0 then Some mem_req else None),
      ap_corereq = (if core_req > 0 then Some core_req else None),
      ap_pid = (if pid > 0 then Some pid else None),
      ap_utilizationreq = (if xs_enabled xsched then Some (xs_utilization xsched) else None)\<rparr>"

text \<open>The second component is task\_id\_out, as the caller's empty string left it or assigned.\<close>

definition ApplyResourceAndGetAllocation :: "controller \<Rightarrow> ApplyResourceRequest \<Rightarrow> client_world \<Rightarrow>
    (string + ResourceAllocation) \<times> string \<times> client_world" where
  "ApplyResourceAndGetAllocation C apply_request W =
     (if \<not> ct_channel C (cw_calls W) then (Inl ''Failed to initialize brpc channel.'', [], W)
      else
        let answer = ct_apply C (cw_calls W) apply_request;
            W = made (Apply apply_request) W
        in (case answer of
              Inl text \<Rightarrow> (Inl (''Apply resource failed: '' @ text), [], W)
            | Inr res \<Rightarrow>
                if errcode (status_of (ar_status res)) \<noteq> 0
                then (Inl (''Apply resource failed: '' @ errmsg (status_of (ar_status res))), [], W)
                else (case QueryResourceAllocation C (ar_task_id res) W of
                    (allocation, W) \<Rightarrow> (allocation, ar_task_id res, W))))"

section \<open>The workflow\<close>

definition PrepareWorkspace :: "client_host \<Rightarrow> ProgramOptions \<Rightarrow> (UploadFileSpec list \<times> UploadStats) option" where
  "PrepareWorkspace ch opts =
     (case CollectDirectoryFiles (ch_dir ch (po_src_dir opts)) of
        None \<Rightarrow> None
      | Some files \<Rightarrow>
          (case ValidateUploadFiles (ch_exists ch) (ch_regular ch) files of
             Some e \<Rightarrow> None
           | None \<Rightarrow>
               (case ComputeUploadStats (ch_files ch) files of
                  None \<Rightarrow> None
                | Some stats \<Rightarrow> Some (files, stats))))"

definition FormatNodeTarget :: "ResourceAllocation \<Rightarrow> string + string" where
  "FormatNodeTarget node =
     (if al_ip node = [] then Inl ''Controller returned an empty node IP.''
      else Inr (al_ip node @ '':'' @ to_string (al_port node)))"

definition ExecuteTask :: "client_host \<Rightarrow> services \<Rightarrow> string \<Rightarrow> UploadFileSpec list \<Rightarrow> UploadStats \<Rightarrow> ProgramOptions \<Rightarrow>
    client_world \<Rightarrow> int \<times> client_world" where
  "ExecuteTask ch R target files stats opts W =
     (case TaskSubmit (ch_files ch) (sr_submit R target) files (po_workspace_subdir opts) (po_command opts)
             (Some stats) (po_pty opts) (Some (po_xsched opts)) of
        (status, messages, report) \<Rightarrow>
          let W = W\<lparr>cw_submitted := cw_submitted W @ [(target, messages)]\<rparr>
          in (case status of
                Some e \<Rightarrow> (1, W)
              | None \<Rightarrow> if \<not> tr_success (report_response report) then (1, W) else (0, W)))"

definition UpdateRunningTaskUtilization :: "controller \<Rightarrow> services \<Rightarrow> ProgramOptions \<Rightarrow> client_world \<Rightarrow>
    (string + int) \<times> client_world" where
  "UpdateRunningTaskUtilization C R opts W =
     (case QueryResourceAllocation C (po_task_id opts) W of
        (Inl ex, W) \<Rightarrow> (Inl ex, W)
      | (Inr allocation, W) \<Rightarrow>
          (case FormatNodeTarget allocation of
             Inl ex \<Rightarrow> (Inl ex, W)
           | Inr target \<Rightarrow>
               let response = sr_update R target
               in (case ClientUpdateUtilization response (po_workspace_subdir opts) (xs_utilization (po_xsched opts)) of
                     (Some e, _) \<Rightarrow> (Inr 1, W)
                   | (None, _) \<Rightarrow>
                       if \<not> uc_success response then (Inr 1, W)
                       else (case UpdateResourceUtilization C (po_task_id opts) (xs_utilization (po_xsched opts)) W of
                           (ok, W) \<Rightarrow> (Inr (if ok then 0 else 1), W)))))"

definition RunIntegratedClient :: "client_host \<Rightarrow> controller \<Rightarrow> services \<Rightarrow> ProgramOptions \<Rightarrow> client_world \<Rightarrow>
    (string + int) \<times> client_world" where
  "RunIntegratedClient ch C R opts W =
     (if po_update_utilization opts then UpdateRunningTaskUtilization C R opts W
      else case PrepareWorkspace ch opts of
          None \<Rightarrow> (Inr 1, W)
        | Some (files, stats) \<Rightarrow>
            (case ApplyResourceAndGetAllocation C
                    (apply_request_of (po_resource_type opts) (po_resource_count opts) (po_mem_req opts)
                      (po_core_req opts) (po_pid opts) (po_xsched opts)) W of
               (Inl ex, task_id, W) \<Rightarrow> (Inl ex, W)
             | (Inr allocation, task_id, W) \<Rightarrow>
                 (case FormatNodeTarget allocation of
                    Inl ex \<Rightarrow> (Inl ex, W)
                  | Inr target \<Rightarrow>
                      (case ExecuteTask ch R target files stats opts W of
                         (rc, W) \<Rightarrow>
                           (case ReleaseResource C task_id W of (released, W) \<Rightarrow> (Inr rc, W))))))"

definition integrated_main :: "client_host \<Rightarrow> controller \<Rightarrow> services \<Rightarrow> int \<Rightarrow> string list \<Rightarrow> int \<times> client_world" where
  "integrated_main ch C R getpid args =
     (case ParseArguments getpid args of
        None \<Rightarrow> (1, new_client)
      | Some opts \<Rightarrow>
          (case RunIntegratedClient ch C R opts new_client of
             (Inr rc, W) \<Rightarrow> (rc, W)
           | (Inl ex, W) \<Rightarrow> (1, W)))"

section \<open>What each step calls\<close>

lemma query_calls:
  "QueryResourceAllocation C t W = (r, W') \<Longrightarrow>
     W' = (if ct_channel C (cw_calls W) then made (Query t) W else W) \<and> (\<not> ct_channel C (cw_calls W) \<longrightarrow> isl r)"
  by (auto simp: QueryResourceAllocation_def Let_def split: if_splits sum.splits list.splits)

lemma apply_calls:
  assumes "ApplyResourceAndGetAllocation C q W = (r, t, W')" "\<forall>h. ct_channel C h"
  shows "W' = made (Apply q) W \<and> t = [] \<and> isl r \<or> W' = made (Query t) (made (Apply q) W)"
  using assms query_calls
  by (fastforce simp: ApplyResourceAndGetAllocation_def Let_def split: if_splits sum.splits prod.splits)

lemma release_calls:
  assumes "ReleaseResource C t W = (ok, W')" "\<forall>h. ct_channel C h"
  shows "W' = (if t = [] then W else made (Release_task t) W)"
  using assms by (auto simp: ReleaseResource_def Let_def split: if_splits sum.splits option.splits)

lemma execute_calls:
  assumes "ExecuteTask ch R target files stats opts W = (rc, W')"
  shows "\<exists>messages. cw_calls W' = cw_calls W \<and> cw_submitted W' = cw_submitted W @ [(target, messages)] \<and> rc \<in> {0, 1}"
  using assms by (auto simp: ExecuteTask_def Let_def split: prod.splits option.splits if_splits)

text \<open>The three ends of a run that does not update: refused at home, ended by an exception, executed.\<close>

lemma run_cases:
  assumes "RunIntegratedClient ch C R opts W = (res, W')" "\<not> po_update_utilization opts" "\<forall>h. ct_channel C h"
  shows "(res = Inr 1 \<and> W' = W) \<or>
    (\<exists>q. isl res \<and> W' = made (Apply q) W) \<or>
    (\<exists>q t. isl res \<and> W' = made (Query t) (made (Apply q) W)) \<or>
    (\<exists>q t target messages rc. res = Inr rc \<and> rc \<in> {0, 1} \<and>
       cw_submitted W' = cw_submitted W @ [(target, messages)] \<and>
       cw_calls W' = cw_calls W @ [Apply q, Query t] @ (if t = [] then [] else [Release_task t]))"
proof (cases "PrepareWorkspace ch opts")
  case None
  then show ?thesis using assms by (simp add: RunIntegratedClient_def)
next
  case (Some fs)
  obtain files stats where fs: "fs = (files, stats)" by (rule prod.exhaust)
  let ?q = "apply_request_of (po_resource_type opts) (po_resource_count opts) (po_mem_req opts)
    (po_core_req opts) (po_pid opts) (po_xsched opts)"
  obtain r t V where a: "ApplyResourceAndGetAllocation C ?q W = (r, t, V)" by (rule prod_cases3)
  have ac: "V = made (Apply ?q) W \<and> t = [] \<and> isl r \<or> V = made (Query t) (made (Apply ?q) W)"
    by (rule apply_calls [OF a assms(3)])
  show ?thesis
  proof (cases r)
    case (Inl ex)
    then have "res = Inl ex \<and> W' = V" using assms(1,2) Some fs a by (simp add: RunIntegratedClient_def)
    then show ?thesis using ac by auto
  next
    case (Inr allocation)
    then have V: "V = made (Query t) (made (Apply ?q) W)" using ac by auto
    show ?thesis
    proof (cases "FormatNodeTarget allocation")
      case (Inl ex)
      then have "res = Inl ex \<and> W' = V" using assms(1,2) Some fs a Inr by (simp add: RunIntegratedClient_def)
      then show ?thesis using V by auto
    next
      case target: (Inr target)
      obtain rc X where e: "ExecuteTask ch R target files stats opts V = (rc, X)" by (rule prod.exhaust)
      obtain ok Y where l: "ReleaseResource C t X = (ok, Y)" by (rule prod.exhaust)
      have res: "res = Inr rc \<and> W' = Y" using assms(1,2) Some fs a Inr target e l by (simp add: RunIntegratedClient_def)
      obtain messages where x: "cw_calls X = cw_calls V" "cw_submitted X = cw_submitted V @ [(target, messages)]"
        "rc \<in> {0, 1}" using execute_calls [OF e] by blast
      have "cw_submitted W' = cw_submitted W @ [(target, messages)] \<and>
          cw_calls W' = cw_calls W @ [Apply ?q, Query t] @ (if t = [] then [] else [Release_task t])"
        using res x V release_calls [OF l assms(3)] by simp
      then show ?thesis using res x(3) by blast
    qed
  qed
qed

section \<open>Properties\<close>


text \<open>C37. A reservation can be left behind: when the controller grants a request and then cannot say where, the
  exception passes the release by, and the client exits with 1 while the task stays reserved.\<close>

theorem failed_query_keeps_reservation:
  assumes "\<not> po_update_utilization opts" "\<forall>h. ct_channel C h" "PrepareWorkspace ch opts \<noteq> None"
    "\<forall>h q. ct_apply C h q = Inr \<lparr>ar_status = Some \<lparr>errcode = 0, errmsg = []\<rparr>, ar_task_id = t\<rparr>"
    "\<forall>h. ct_query C h t = Inl text \<or> ct_query C h t = Inr \<lparr>qr_status = Some \<lparr>errcode = 0, errmsg = []\<rparr>, qr_rinfos = []\<rparr>"
  shows "\<exists>ex W q. RunIntegratedClient ch C R opts new_client = (Inl ex, W) \<and> cw_calls W = [Apply q, Query t]"
proof -
  obtain files stats where p: "PrepareWorkspace ch opts = Some (files, stats)" using assms(3) by auto
  show ?thesis
    using assms(1,2,4) p spec [OF assms(5), of "[Apply (apply_request_of (po_resource_type opts) (po_resource_count opts)
      (po_mem_req opts) (po_core_req opts) (po_pid opts) (po_xsched opts))]"]
    by (auto simp: RunIntegratedClient_def ApplyResourceAndGetAllocation_def QueryResourceAllocation_def status_of_def)
qed

text \<open>The controller's books follow the node: the client tells the controller a new utilization only after
  the node's server has taken it over, and then exits with 0 exactly when the controller agrees.\<close>

theorem update_after_server:
  assumes "UpdateRunningTaskUtilization C R opts new_client = (res, W)" "Update_task t u \<in> set (cw_calls W)"
  shows "t = po_task_id opts \<and> u = xs_utilization (po_xsched opts) \<and> 0 \<le> u \<and> u \<le> 100 \<and>
    (\<exists>target. uc_status (sr_update R target) = None \<and> uc_success (sr_update R target)) \<and> res \<in> {Inr 0, Inr 1}"
proof -
  obtain r V where q: "QueryResourceAllocation C (po_task_id opts) new_client = (r, V)" by (rule prod.exhaust)
  have V: "Update_task t u \<notin> set (cw_calls V)" using query_calls [OF q] by auto
  show ?thesis
    using assms q V
    by (auto simp: UpdateRunningTaskUtilization_def ClientUpdateUtilization_def UpdateResourceUtilization_def Let_def
        split: sum.splits if_splits option.splits prod.splits)
qed

definition demo_run_options :: ProgramOptions where
  "demo_run_options = demo_options\<lparr>po_xsched := \<lparr>xs_enabled = True, xs_utilization = 40\<rparr>\<rparr>"

definition ok_status :: "hcp_status option" where
  "ok_status = Some \<lparr>errcode = 0, errmsg = []\<rparr>"

definition demo_controller :: "ResourceInfo list \<Rightarrow> controller" where
  "demo_controller infos = \<lparr>ct_channel = \<lambda>_. True,
     ct_apply = \<lambda>h q. Inr \<lparr>ar_status = Some \<lparr>errcode = 0, errmsg = []\<rparr>, ar_task_id = ''t1''\<rparr>,
     ct_query = \<lambda>h t. Inr \<lparr>qr_status = Some \<lparr>errcode = 0, errmsg = []\<rparr>, qr_rinfos = infos\<rparr>,
     ct_release = \<lambda>h t. Inr ok_status, ct_update = \<lambda>h t u. Inr ok_status\<rparr>"

definition demo_info :: ResourceInfo where
  "demo_info = \<lparr>ri_node = Some \<lparr>nd_ip = ''10.0.0.7'', nd_port = 7\<rparr>, ri_cgroup_path = None, ri_cpu_cores = []\<rparr>"

definition demo_services :: services where
  "demo_services = \<lparr>sr_submit = \<lambda>_. \<lparr>rc_capacity = 100, rc_responses = [LogChunk ''hi'', Result empty_result], rc_status = None\<rparr>,
     sr_update = \<lambda>_. \<lparr>uc_status = None, uc_success = True, uc_message = [], uc_pids = [7]\<rparr>\<rparr>"

lemma demo_controller_channel: "\<forall>h. ct_channel (demo_controller infos) h"
  by (simp add: demo_controller_def)

text \<open>A host whose only file disappears between the check and the upload.\<close>

definition demo_vanishing_host :: client_host where
  "demo_vanishing_host = demo_client_host\<lparr>ch_files := \<lparr>lf_open = \<lambda>_. None, lf_size = \<lambda>_. Some 2\<rparr>\<rparr>"


theorem failed_query_keeps_reservation_witness:
  "\<exists>ex W q. RunIntegratedClient demo_client_host (demo_controller []) demo_services demo_run_options new_client = (Inl ex, W) \<and>
     cw_calls W = [Apply q, Query ''t1'']"
proof (rule failed_query_keeps_reservation [OF _ demo_controller_channel])
  show "\<not> po_update_utilization demo_run_options" by code_simp
  show "PrepareWorkspace demo_client_host demo_run_options \<noteq> None" by code_simp
qed (simp_all add: demo_controller_def)

theorem update_after_server_witness:
  "\<exists>res W target. UpdateRunningTaskUtilization (demo_controller [demo_info]) demo_services
      (demo_run_options\<lparr>po_task_id := ''t1''\<rparr>) new_client = (res, W) \<and>
    Update_task ''t1'' 40 \<in> set (cw_calls W) \<and> uc_success (sr_update demo_services target)"
proof -
  let ?run = "UpdateRunningTaskUtilization (demo_controller [demo_info]) demo_services
      (demo_run_options\<lparr>po_task_id := ''t1''\<rparr>) new_client"
  obtain res W where r: "?run = (res, W)" by (rule prod.exhaust)
  have "case ?run of (res, W) \<Rightarrow> cw_calls W = [Query ''t1'', Update_task ''t1'' 40]" by code_simp
  then have w: "Update_task ''t1'' 40 \<in> set (cw_calls W)" using r by simp
  from update_after_server [OF r w] r w show ?thesis by blast
qed

end
