(* ===== verification/EndToEnd.thy ===== *)
theory EndToEnd
  imports RemoteService RemoteClient
begin

text \<open>
  The client and the server put together: what a run of TaskSubmission sends back is what
  DrainServerResponses reads, and the status it returns is what Finish returns.
\<close>

definition sent_chunks :: "service_world \<Rightarrow> service_world \<Rightarrow> string list" where
  "sent_chunks W W' = drop (length (ps_log (ew_procs (sw_exec W)))) (ps_log (ew_procs (sw_exec W')))"

definition server_responses :: "service_world \<Rightarrow> service_world \<Rightarrow> TaskResponse list" where
  "server_responses W W' = map LogChunk (sent_chunks W W') @ map Result (drop (length (sw_results W)) (sw_results W'))"

definition connect :: "nat \<Rightarrow> grpc_error option \<Rightarrow> service_world \<Rightarrow> service_world \<Rightarrow> rpc_call" where
  "connect cap status W W' = \<lparr>rc_capacity = cap, rc_responses = server_responses W W', rc_status = status\<rparr>"

definition reported_zero :: "task_os \<Rightarrow> bool" where
  "reported_zero os \<longleftrightarrow> (\<exists>ob\<in>set (to_rounds os). ob_waitpid ob = Some (Exited 0)) \<or> eo_waitpid (to_final os) = Some (Exited 0)"

lemma monitor_reported_zero:
  assumes "MonitorChildProcess getenv now child final obs P = Some (None, m, P')"
  shows "(\<exists>ob\<in>set obs. ob_waitpid ob = Some (Exited 0)) \<or> eo_waitpid final = Some (Exited 0)"
proof -
  have "exited_by obs Q (start_monitor now) (EmitLogChunk s Q)" for s Q
    by (simp add: exited_by_def start_monitor_def EmitLogChunk_def)
  moreover have "exited_by obs P (start_monitor now) (EmitLogChunk s P)" for s
    by (simp add: exited_by_def start_monitor_def EmitLogChunk_def)
  ultimately show ?thesis using success_loop assms unfolding MonitorChildProcess_def
    by (fastforce simp: success_means_def)
qed

lemma run_reported_zero:
  assumes "RunCommand H os base config W = Some (None, out, W')"
  shows "reported_zero os"
proof -
  obtain res P where s: "StartChildProcess (to_start os) config (ew_procs W) = (res, P)" by (rule prod.exhaust)
  obtain child where res: "res = Inr child" using assms s by (cases res) (auto simp: RunCommand_def)
  have "\<exists>m P'. MonitorChildProcess (so_env (to_start os)) (to_now os) child (to_final os) (to_rounds os) P = Some (None, m, P')"
    using assms s res by (auto simp: RunCommand_def Let_def split: option.splits)
  then show ?thesis using monitor_reported_zero by (fastforce simp: reported_zero_def)
qed

lemma execute_reported_zero:
  assumes "Execute H os base config W = Some (Inr r, W')"
  shows "reported_zero os"
proof -
  obtain out X V where "RunCommand H os base config V = Some (None, out, X)"
    using assms by (auto simp: Execute_def Let_def split: if_splits option.splits prod.splits)
  then show ?thesis by (rule run_reported_zero)
qed

lemma submission_reported_zero:
  assumes "TaskSubmission H os W = Some (None, W')"
  shows "reported_zero (su_task os)"
proof (cases "su_root os")
  case None
  then show ?thesis using assms by (simp add: TaskSubmission_def)
next
  case (Some base)
  obtain res s S where d: "DownloadWorkspace H (su_incoming os) (su_cancelled os) base
      \<lparr>sv_locked = sw_locked W, sv_files = ew_files (sw_exec W)\<rparr> = (res, s, S)" by (rule prod_cases3)
  obtain config r V X where "Execute H (su_task os) base config V = Some (Inr r, X)"
    using assms Some d by (auto simp: TaskSubmission_def Let_def split: sum.splits option.splits prod.splits)
  then show ?thesis by (rule execute_reported_zero)
qed

lemma submission_ok_result:
  assumes "TaskSubmission H os W = Some (None, W')"
  shows "\<exists>r. sw_results W' = sw_results W @ [r] \<and> tr_success r"
proof (cases "su_root os")
  case None
  then show ?thesis using assms by (simp add: TaskSubmission_def)
next
  case (Some base)
  obtain res s S where d: "DownloadWorkspace H (su_incoming os) (su_cancelled os) base
      \<lparr>sv_locked = sw_locked W, sv_files = ew_files (sw_exec W)\<rparr> = (res, s, S)" by (rule prod_cases3)
  from submission_cases [OF assms Some d] show ?thesis by (auto simp: SendResult_def)
qed

lemma results_of_responses:
  "results_of (server_responses W W') = drop (length (sw_results W)) (sw_results W')"
proof -
  have "results_of (map LogChunk cs @ map Result rs) = rs" for cs rs
    by (induction cs; induction rs) (simp_all add: results_of_def)
  then show ?thesis by (simp add: server_responses_def)
qed

lemma logs_of_responses: "logs_of (server_responses W W') = concat (sent_chunks W W')"
proof -
  have "logs_of (map Result rs) = []" for rs by (induction rs) (simp_all add: logs_of_def)
  then have "logs_of (map LogChunk cs @ map Result rs) = concat cs" for cs rs
    by (induction cs) (simp_all add: logs_of_def)
  then show ?thesis by (simp add: server_responses_def)
qed

section \<open>Properties\<close>

text \<open>C1. Exit code 0 of the client means what the user reads into it: connected to a run of the server, the
  client exits with 0 only when the server returned OK with a successful result, and then the
  kernel reported that the command exited with status 0.\<close>

theorem client_zero_means_success:
  assumes "TaskSubmission H os W = Some (status, W')" "sr_submit R (co_target opts) = connect cap status W W'"
    "RunClientWorkflow ch R opts files stats = (0, messages)"
  shows "status = None \<and> reported_zero (su_task os) \<and> (\<exists>r. sw_results W' = sw_results W @ [r] \<and> tr_success r)"
proof -
  have s: "status = None" using workflow_zero [OF assms(3)] assms(2) by (simp add: connect_def)
  show ?thesis
    using submission_reported_zero [OF assms(1) [unfolded s]] submission_ok_result [OF assms(1) [unfolded s]] s by simp
qed

text \<open>A client whose directory holds one empty file; its chunk size is never needed.\<close>

definition demo_connected :: "grpc_error option \<Rightarrow> service_world \<Rightarrow> services" where
  "demo_connected status W' = \<lparr>sr_submit = \<lambda>_. connect 5 status demo_service W',
     sr_update = \<lambda>_. \<lparr>uc_status = None, uc_success = True, uc_message = [], uc_pids = []\<rparr>\<rparr>"

definition demo_end_run :: "(int \<times> TaskRequest list) option" where
  "demo_end_run =
     (case TaskSubmission quiet_host (demo_submission ''job'') demo_service of
        None \<Rightarrow> None
      | Some (status, W') \<Rightarrow>
          Some (RunClientWorkflow (demo_client_host\<lparr>ch_files := \<lparr>lf_open = \<lambda>_. Some [], lf_size = \<lambda>_. Some 0\<rparr>\<rparr>)
            (demo_connected status W') demo_client_options
            [\<lparr>local_path = ''/t/run'', spec_relative_path = ''run''\<rparr>] \<lparr>us_file_count = 1, us_total_bytes = 0\<rparr>))"

theorem client_zero_means_success_witness:
  "\<exists>W'. TaskSubmission quiet_host (demo_submission ''job'') demo_service = Some (None, W') \<and>
     reported_zero (su_task (demo_submission ''job'')) \<and> (\<exists>r. sw_results W' = [r] \<and> tr_success r)"
proof -
  have c: "case demo_end_run of None \<Rightarrow> False | Some x \<Rightarrow> fst x = 0" by code_simp
  then obtain status W' where t: "TaskSubmission quiet_host (demo_submission ''job'') demo_service = Some (status, W')"
    by (auto simp: demo_end_run_def split: option.splits prod.splits)
  obtain messages where r: "RunClientWorkflow (demo_client_host\<lparr>ch_files := \<lparr>lf_open = \<lambda>_. Some [], lf_size = \<lambda>_. Some 0\<rparr>\<rparr>)
      (demo_connected status W') demo_client_options [\<lparr>local_path = ''/t/run'', spec_relative_path = ''run''\<rparr>]
      \<lparr>us_file_count = 1, us_total_bytes = 0\<rparr> = (0, messages)"
    using c t by (auto simp: demo_end_run_def prod_eq_iff)
  have k: "sr_submit (demo_connected status W') (co_target demo_client_options) = connect 5 status demo_service W'"
    by (simp add: demo_connected_def)
  have "sw_results demo_service = []" by (simp add: demo_service_def)
  then show ?thesis using client_zero_means_success [OF t k r] t by simp
qed

end
