(* ===== verification/ClientTerminal.thy ===== *)
theory ClientTerminal
  imports CString
begin

text \<open>
  ScopedClientCancellation of client/client\_api.cc, which turns SIGINT into the cancellation of the call, as a
  machine whose steps are those of the thread that makes the call, of the watcher thread and of the signal.
\<close>

section \<open>Cancellation\<close>

text \<open>The object: before its constructor, after each statement of it, and after those of its destructor. The
  watcher: not started, at the head of its loop, past the test of the stop flag, ended.\<close>

datatype object_phase = Before | FlagReset | Installed | Running | Stopping | Joined | Restored
datatype watcher_phase = NoWatcher | AtLoop | PastStop | Ended

record cancellation =
  cn_context :: bool
  cn_phase :: object_phase
  cn_watcher :: watcher_phase
  cn_handler :: bool
  cn_requested :: bool
  cn_stop :: bool
  cn_cancels :: nat
  cn_handled :: nat
  cn_previous :: nat

definition HandleClientInterrupt :: "bool \<Rightarrow> cancellation \<Rightarrow> cancellation" where
  "HandleClientInterrupt is_sigint s = (if is_sigint then s\<lparr>cn_requested := True\<rparr> else s)"

text \<open>cn\_handled counts the signals since the flag was reset that reach the handler of the client,
  cn\_previous those that reach the handler from before.\<close>

datatype cancel_event = Sigint | Caller | Watcher

definition caller_step :: "cancellation \<Rightarrow> cancellation option" where
  "caller_step s =
     (case cn_phase s of
        Before \<Rightarrow> Some (s\<lparr>cn_requested := False, cn_phase := FlagReset\<rparr>)
      | FlagReset \<Rightarrow> Some (s\<lparr>cn_handler := True, cn_phase := Installed\<rparr>)
      | Installed \<Rightarrow> Some (s\<lparr>cn_watcher := (if cn_context s then AtLoop else NoWatcher), cn_phase := Running\<rparr>)
      | Running \<Rightarrow> Some (s\<lparr>cn_stop := True, cn_phase := Stopping\<rparr>)
      | Stopping \<Rightarrow> if cn_watcher s \<in> {NoWatcher, Ended} then Some (s\<lparr>cn_phase := Joined\<rparr>) else None
      | Joined \<Rightarrow> Some (s\<lparr>cn_handler := False, cn_phase := Restored\<rparr>)
      | Restored \<Rightarrow> None)"

definition watcher_step :: "cancellation \<Rightarrow> cancellation option" where
  "watcher_step s =
     (case cn_watcher s of
        AtLoop \<Rightarrow> Some (s\<lparr>cn_watcher := (if cn_stop s then Ended else PastStop)\<rparr>)
      | PastStop \<Rightarrow>
          if cn_requested s then Some (s\<lparr>cn_cancels := cn_cancels s + 1, cn_watcher := Ended\<rparr>)
          else Some (s\<lparr>cn_watcher := AtLoop\<rparr>)
      | _ \<Rightarrow> None)"

definition signal_step :: "cancellation \<Rightarrow> cancellation" where
  "signal_step s =
     (if cn_handler s then HandleClientInterrupt True (s\<lparr>cn_handled := cn_handled s + 1\<rparr>)
      else s\<lparr>cn_previous := cn_previous s + 1\<rparr>)"

definition cancel_step :: "cancel_event \<Rightarrow> cancellation \<Rightarrow> cancellation option" where
  "cancel_step ev s =
     (case ev of Sigint \<Rightarrow> Some (signal_step s) | Caller \<Rightarrow> caller_step s | Watcher \<Rightarrow> watcher_step s)"

definition cancel_start :: "bool \<Rightarrow> bool \<Rightarrow> cancellation" where
  "cancel_start ctx requested =
     \<lparr>cn_context = ctx, cn_phase = Before, cn_watcher = NoWatcher, cn_handler = False, cn_requested = requested,
      cn_stop = False, cn_cancels = 0, cn_handled = 0, cn_previous = 0\<rparr>"

inductive cancel_reach :: "bool \<Rightarrow> bool \<Rightarrow> cancellation \<Rightarrow> bool" for ctx requested where
  cancel_begin: "cancel_reach ctx requested (cancel_start ctx requested)"
| cancel_next: "cancel_reach ctx requested s \<Longrightarrow> cancel_step ev s = Some s' \<Longrightarrow> cancel_reach ctx requested s'"

inductive_cases cancel_reachE: "cancel_reach ctx requested s"

fun cancel_run :: "cancel_event list \<Rightarrow> cancellation \<Rightarrow> cancellation option" where
  "cancel_run [] s = Some s"
| "cancel_run (ev # evs) s = (case cancel_step ev s of None \<Rightarrow> None | Some s' \<Rightarrow> cancel_run evs s')"

text \<open>The handler is installed from the second statement of the constructor to the end of the destructor; the
  watcher cancels once, and only after a signal.\<close>

definition cancel_inv :: "bool \<Rightarrow> cancellation \<Rightarrow> bool" where
  "cancel_inv ctx s \<longleftrightarrow> cn_context s = ctx \<and>
     (cn_handler s \<longleftrightarrow> cn_phase s \<in> {Installed, Running, Stopping, Joined}) \<and>
     (cn_stop s \<longleftrightarrow> cn_phase s \<in> {Stopping, Joined, Restored}) \<and>
     (cn_phase s \<in> {Before, FlagReset, Installed} \<longrightarrow> cn_watcher s = NoWatcher) \<and>
     (cn_phase s \<in> {Running, Stopping} \<longrightarrow> (cn_watcher s = NoWatcher \<longleftrightarrow> \<not> ctx)) \<and>
     (cn_phase s \<in> {Joined, Restored} \<longrightarrow> cn_watcher s = (if ctx then Ended else NoWatcher)) \<and>
     (cn_phase s \<in> {Before, FlagReset} \<longrightarrow> cn_handled s = 0) \<and>
     (cn_phase s \<noteq> Before \<longrightarrow> (cn_requested s \<longleftrightarrow> 0 < cn_handled s)) \<and>
     (cn_watcher s \<noteq> Ended \<longrightarrow> cn_cancels s = 0) \<and> cn_cancels s \<le> 1 \<and>
     (cn_cancels s = 1 \<longrightarrow> 0 < cn_handled s) \<and>
     (cn_watcher s = Ended \<longrightarrow> cn_cancels s = 1 \<or> cn_stop s)"

lemma signal_step_inv: "cancel_inv c s \<Longrightarrow> cancel_inv c (signal_step s)"
proof (cases s)
  case (fields a ph w h r st n m k)
  assume "cancel_inv c s"
  then show ?thesis unfolding fields
    by (cases ph; cases w; cases st; simp add: cancel_inv_def signal_step_def HandleClientInterrupt_def)
qed

lemma caller_step_inv: "cancel_inv c s \<Longrightarrow> caller_step s = Some s' \<Longrightarrow> cancel_inv c s'"
proof (cases s)
  case (fields a ph w h r st n m k)
  assume "cancel_inv c s" "caller_step s = Some s'"
  then show ?thesis unfolding fields
    by (cases ph; cases w; cases c; cases st; simp add: cancel_inv_def caller_step_def; clarsimp)
qed

lemma watcher_step_cases:
  assumes "watcher_step s = Some s'"
  obtains "cn_watcher s = AtLoop" "cn_stop s" "s' = s\<lparr>cn_watcher := Ended\<rparr>"
  | "cn_watcher s = AtLoop" "\<not> cn_stop s" "s' = s\<lparr>cn_watcher := PastStop\<rparr>"
  | "cn_watcher s = PastStop" "cn_requested s" "s' = s\<lparr>cn_cancels := cn_cancels s + 1, cn_watcher := Ended\<rparr>"
  | "cn_watcher s = PastStop" "\<not> cn_requested s" "s' = s\<lparr>cn_watcher := AtLoop\<rparr>"
  using assms by (cases "cn_watcher s"; simp add: watcher_step_def split: if_splits)

lemma watcher_step_inv: "cancel_inv c s \<Longrightarrow> watcher_step s = Some s' \<Longrightarrow> cancel_inv c s'"
  by (erule watcher_step_cases; hypsubst; cases "cn_phase s"; cases c; simp add: cancel_inv_def)

lemma cancel_inv_step: "cancel_inv c s \<Longrightarrow> cancel_step ev s = Some s' \<Longrightarrow> cancel_inv c s'"
  by (cases ev; simp add: cancel_step_def)
    (blast intro: signal_step_inv caller_step_inv watcher_step_inv)+

lemma cancel_reach_inv: "cancel_reach c r s \<Longrightarrow> cancel_inv c s"
proof (induction rule: cancel_reach.induct)
  case cancel_begin
  then show ?case by (simp add: cancel_inv_def cancel_start_def)
next
  case (cancel_next s ev s')
  then show ?case by (blast intro: cancel_inv_step)
qed

lemma requested_watcher_cancels:
  assumes "cn_requested s" "\<not> cn_stop s" "cn_watcher s \<in> {AtLoop, PastStop}" "cn_cancels s = 0"
  shows "\<exists>n\<le>2. \<exists>s'. cancel_run (replicate n Watcher) s = Some s' \<and> cn_cancels s' = 1"
proof (cases "cn_watcher s = AtLoop")
  case True
  then show ?thesis using assms
    by (intro exI [of _ 2]) (simp add: numeral_2_eq_2 cancel_step_def watcher_step_def)
next
  case False
  then show ?thesis using assms
    by (intro exI [of _ 1]) (simp add: cancel_step_def watcher_step_def)
qed

text \<open>Interrupts of the user: in every interleaving of the calling thread, the watcher thread and the signals,
  the call is cancelled at most once and only after a SIGINT that arrived while the handler of the client was installed;
  when the object is gone the former handler is back and no watcher thread is left.\<close>

theorem cancel_safe:
  assumes "cancel_reach ctx requested s"
  shows "cn_cancels s \<le> 1 \<and> (cn_cancels s = 1 \<longrightarrow> ctx \<and> 0 < cn_handled s) \<and>
    (cn_phase s = Restored \<longrightarrow> \<not> cn_handler s \<and> cn_watcher s \<in> {NoWatcher, Ended})"
proof -
  have inv: "cancel_inv ctx s" by (rule cancel_reach_inv [OF assms])
  have "cn_cancels s = 1 \<longrightarrow> ctx"
  proof (rule impI, rule ccontr)
    assume c: "cn_cancels s = 1" and n: "\<not> ctx"
    from c inv have w: "cn_watcher s = Ended" by (auto simp: cancel_inv_def)
    show False using inv n w by (cases "cn_phase s"; simp add: cancel_inv_def)
  qed
  moreover have "cn_cancels s \<le> 1" "cn_cancels s = 1 \<longrightarrow> 0 < cn_handled s" using inv by (simp_all add: cancel_inv_def)
  moreover have "cn_phase s = Restored \<longrightarrow> \<not> cn_handler s \<and> cn_watcher s \<in> {NoWatcher, Ended}"
    using inv by (cases ctx; simp add: cancel_inv_def)
  ultimately show ?thesis by blast
qed

lemma interrupt_reaches:
  assumes "cancel_reach True requested s" "cn_phase s = Running" "0 < cn_handled s"
  shows "\<exists>n\<le>2. \<exists>s'. cancel_run (replicate n Watcher) s = Some s' \<and> cn_cancels s' = 1"
proof -
  have inv: "cancel_inv True s" by (rule cancel_reach_inv [OF assms(1)])
  have st: "\<not> cn_stop s" "cn_requested s" "cn_watcher s \<noteq> NoWatcher"
    using inv assms(2,3) by (simp_all add: cancel_inv_def)
  show ?thesis
  proof (cases "cn_watcher s = Ended")
    case True
    then have "cn_cancels s = 1" using inv st(1) by (simp add: cancel_inv_def)
    then show ?thesis by (intro exI [of _ 0]) simp
  next
    case False
    then have "cn_cancels s = 0" "cn_watcher s \<in> {AtLoop, PastStop}"
      using inv st(3) by (cases "cn_watcher s"; simp add: cancel_inv_def)+
    then show ?thesis using requested_watcher_cancels st by blast
  qed
qed

text \<open>C23. A SIGINT is not lost while the call runs: two steps of the watcher are enough for the cancellation.\<close>

theorem interrupt_cancels:
  assumes "cancel_reach True requested s" "cn_phase s = Running" "0 < cn_handled s"
  shows "\<exists>n\<le>2. \<exists>s'. cancel_run (replicate n Watcher) s = Some s' \<and> cn_cancels s' = 1"
  by (rule interrupt_reaches [OF assms])

text \<open>The destructor always ends: from the moment it has set the stop flag, two steps of the watcher let it join the
  thread and put the former handler back.\<close>

theorem destructor_ends:
  assumes "cancel_reach ctx requested s" "cn_phase s = Stopping"
  shows "\<exists>n\<le>2. \<exists>s'. cancel_run (replicate n Watcher @ [Caller, Caller]) s = Some s' \<and> cn_phase s' = Restored \<and>
    \<not> cn_handler s'"
proof -
  have inv: "cancel_inv ctx s" by (rule cancel_reach_inv [OF assms(1)])
  then have st: "cn_stop s" using assms(2) by (simp add: cancel_inv_def)
  show ?thesis
  proof (cases "cn_watcher s")
    case NoWatcher
    then show ?thesis using assms(2) by (intro exI [of _ 0]) (simp add: cancel_step_def caller_step_def)
  next
    case AtLoop
    then show ?thesis using assms(2) st
      by (intro exI [of _ 1]) (simp add: cancel_step_def caller_step_def watcher_step_def)
  next
    case PastStop
    show ?thesis
    proof (cases "cn_requested s")
      case True
      then show ?thesis using assms(2) st PastStop
        by (intro exI [of _ 1]) (simp add: cancel_step_def caller_step_def watcher_step_def)
    next
      case False
      then show ?thesis using assms(2) st PastStop
        by (intro exI [of _ 2]) (simp add: numeral_2_eq_2 cancel_step_def caller_step_def watcher_step_def)
    qed
  next
    case Ended
    then show ?thesis using assms(2) by (intro exI [of _ 0]) (simp add: cancel_step_def caller_step_def)
  qed
qed

text \<open>A SIGINT between the last look of the watcher at the flag and the end of the destructor is taken by the handler
  of the client and has no effect at all: no cancellation, and the former handler (which ends the program) never
  sees it.\<close>

theorem late_interrupt_lost:
  "\<exists>s. cancel_run [Caller, Caller, Caller, Watcher, Watcher, Caller, Sigint, Watcher, Caller, Caller]
      (cancel_start True False) = Some s \<and>
    cn_phase s = Restored \<and> cn_handled s = 1 \<and> cn_cancels s = 0 \<and> cn_previous s = 0"
  by (simp add: cancel_start_def cancel_step_def caller_step_def watcher_step_def signal_step_def HandleClientInterrupt_def)

lemma demo_cancel_reach: "cancel_reach True False s \<Longrightarrow> cancel_run evs s = Some s' \<Longrightarrow> cancel_reach True False s'"
  by (induction evs arbitrary: s) (auto split: option.splits intro: cancel_next)

theorem interrupt_cancels_witness:
  "\<exists>s. cancel_run [Caller, Caller, Caller, Sigint] (cancel_start True False) = Some s \<and>
     (\<exists>n\<le>2. \<exists>s'. cancel_run (replicate n Watcher) s = Some s' \<and> cn_cancels s' = 1)"
proof -
  define s where "s = the (cancel_run [Caller, Caller, Caller, Sigint] (cancel_start True False))"
  have r: "cancel_run [Caller, Caller, Caller, Sigint] (cancel_start True False) = Some s"
    by (simp add: s_def cancel_start_def cancel_step_def caller_step_def signal_step_def HandleClientInterrupt_def)
  have "cancel_reach True False s" using demo_cancel_reach [OF cancel_begin r] .
  moreover have "cn_phase s = Running" "0 < cn_handled s"
    by (simp_all add: s_def cancel_start_def cancel_step_def caller_step_def signal_step_def HandleClientInterrupt_def)
  ultimately show ?thesis using interrupt_cancels r by blast
qed

theorem cancel_safe_witness:
  "cn_cancels (cancel_start True False) \<le> 1 \<and> (cn_cancels (cancel_start True False) = 1 \<longrightarrow>
     True \<and> 0 < cn_handled (cancel_start True False)) \<and>
   (cn_phase (cancel_start True False) = Restored \<longrightarrow>
     \<not> cn_handler (cancel_start True False) \<and> cn_watcher (cancel_start True False) \<in> {NoWatcher, Ended})"
  by (rule cancel_safe [OF cancel_begin])

theorem destructor_ends_witness:
  "\<exists>s. cancel_run [Caller, Caller, Caller, Caller] (cancel_start True False) = Some s \<and>
     (\<exists>n\<le>2. \<exists>s'. cancel_run (replicate n Watcher @ [Caller, Caller]) s = Some s' \<and> cn_phase s' = Restored \<and>
       \<not> cn_handler s')"
proof -
  define s where "s = the (cancel_run [Caller, Caller, Caller, Caller] (cancel_start True False))"
  have r: "cancel_run [Caller, Caller, Caller, Caller] (cancel_start True False) = Some s" and p: "cn_phase s = Stopping"
    by (simp_all add: s_def cancel_start_def cancel_step_def caller_step_def)
  have "cancel_reach True False s" using demo_cancel_reach [OF cancel_begin r] .
  then show ?thesis using destructor_ends p r by blast
qed

end
