(* ===== verification/Interrupts.thy ===== *)
theory Interrupts
  imports RemoteService ClientTerminal
begin

text \<open>
  Cancellation from end to end: what the monitor loop of task\_executor.cc does to the task when the call
  is cancelled, what the submission answers then, and the interrupt of the client
  (ClientTerminal) that causes it.
\<close>

section \<open>The monitor loop when the call is cancelled\<close>

text \<open>The signals of one end of a process group.\<close>

definition group_end :: "pid \<Rightarrow> (pid \<times> signal) list" where
  "group_end p = [(p, SIGTERM), (p, SIGKILL)]"

definition cancel_signals :: "pid \<Rightarrow> proc_state \<Rightarrow> monitor_state \<Rightarrow> proc_state \<Rightarrow> bool" where
  "cancel_signals p P m S \<longleftrightarrow> ps_signals S = ps_signals P @ (if ms_cancelled m then group_end p else [])"

definition cancelled_result :: "pid \<Rightarrow> proc_state \<Rightarrow> monitor_result \<Rightarrow> bool" where
  "cancelled_result p P x \<longleftrightarrow> (case x of (r, m, S) \<Rightarrow>
     ps_signals S = ps_signals P @ (if ms_cancelled m then group_end p else []) @
       (if is_deadline r then group_end p else []) \<and>
     (ms_cancelled m \<longrightarrow> (\<exists>e. r = Some e \<and> fst e \<in> {CANCELLED, DEADLINE_EXCEEDED, INTERNAL})))"

lemma exit_outcome_cancelled [simp]: "exit_outcome True st out = Some (CANCELLED, ''Client cancelled request.'')"
  by (simp add: exit_outcome_def)

lemma cancelled_loop:
  assumes "monitor_loop child t final obs m S = Some x" "cancel_signals (child_pid child) P m S"
  shows "cancelled_result (child_pid child) P x"
proof (rule monitor_loop_rule [where I = "cancel_signals (child_pid child) P"
      and Q = "cancelled_result (child_pid child) P", OF assms])
  fix seen m S m' S'
  assume "cancel_signals (child_pid child) P m S" "cancel_thread (child_pid child) seen m S = (m', S')"
  then show "cancel_signals (child_pid child) P m' S'"
    by (auto simp: cancel_signals_def cancel_thread_def group_end_def split: if_splits)
next
  fix ob m S m' S'
  assume "cancel_signals (child_pid child) P m S" "wait_nohang (child_pid child) ob m S = (m', S')"
  then show "cancel_signals (child_pid child) P m' S'"
    by (auto simp: cancel_signals_def wait_nohang_def split: if_splits option.splits)
next
  fix rs m S e m' S'
  assume "cancel_signals (child_pid child) P m S" "read_output (child_use_pty child) rs m S = (e, m', S')"
  then show "cancel_signals (child_pid child) P m' S'"
    using read_output_keeps [of "child_use_pty child" rs m S e m' S'] by (simp add: cancel_signals_def)
next
  fix i m S
  assume c: "cancel_signals (child_pid child) P m S"
  show "cancelled_result (child_pid child) P (failed_exit child e m S)" for e
    using c by (simp add: cancelled_result_def cancel_signals_def failed_exit_def)
  show "cancelled_result (child_pid child) P (idle_timeout_exit child i m S)"
    using c by (simp add: cancelled_result_def cancel_signals_def idle_timeout_exit_def group_end_def)
  obtain r m' S' where f: "finish_monitor child final m S = (r, m', S')" by (rule prod_cases3)
  note ff = finish_monitor_fields [OF f]
  have "ms_cancelled m \<longrightarrow> (\<exists>e. r = Some e \<and> fst e \<in> {CANCELLED, DEADLINE_EXCEEDED, INTERNAL})"
    using ff by (cases "ms_exited m"; cases "eo_waitpid final") auto
  then show "cancelled_result (child_pid child) P (finish_monitor child final m S)"
    using ff c unfolding f by (simp add: cancelled_result_def cancel_signals_def)
qed

text \<open>What the cancellation thread has seen when it is joined counts, and it sees nothing else.\<close>

lemma exit_state [simp]:
  "fst (snd (finish_monitor child final m S)) = m"
  "fst (snd (failed_exit child e m S)) = m"
  "fst (snd (idle_timeout_exit child i m S)) = m"
  by (simp_all add: finish_monitor_def failed_exit_def idle_timeout_exit_def Let_def split: option.split)

definition seen_cancelled :: "end_os \<Rightarrow> bool \<Rightarrow> bool \<Rightarrow> bool" where
  "seen_cancelled final before after \<longleftrightarrow> (eo_cancelled final \<longrightarrow> after) \<and> (after \<longrightarrow> before \<or> eo_cancelled final)"

lemma leave_loop_seen:
  assumes "leave_loop child final k m S = Some x" "\<And>m S. fst (snd (k m S)) = m"
  shows "seen_cancelled final (ms_cancelled m) (ms_cancelled (fst (snd x)))"
  using assms by (auto simp: leave_loop_def cancel_thread_def seen_cancelled_def split: if_splits)

lemma wait_nohang_cancelled: "wait_nohang p ob m S = (m', S') \<Longrightarrow> ms_cancelled m' = ms_cancelled m"
  by (auto simp: wait_nohang_def split: if_splits option.splits)

lemma cancel_thread_cancelled: "cancel_thread p seen m S = (m', S') \<Longrightarrow> ms_cancelled m' = (ms_cancelled m \<or> seen)"
  by (auto simp: cancel_thread_def split: if_splits)

lemma seen_cancelled_weaken: "seen_cancelled final b a \<Longrightarrow> (b \<Longrightarrow> b') \<Longrightarrow> seen_cancelled final b' a"
  by (auto simp: seen_cancelled_def)

text \<open>One round: on to the next one, or out of the loop.\<close>

lemma monitor_round:
  assumes "monitor_loop child t final (ob # obs) m S = Some x"
  obtains m' S' where "ms_cancelled m' = (ms_cancelled m \<or> ob_cancelled ob)" "monitor_loop child t final obs m' S' = Some x"
  | k m' S' where "ms_cancelled m' = (ms_cancelled m \<or> ob_cancelled ob)" "leave_loop child final k m' S' = Some x"
      "\<And>m S. fst (snd (k m S)) = m"
proof -
  obtain m1 S1 where c: "cancel_thread (child_pid child) (ob_cancelled ob) m S = (m1, S1)" by (rule prod.exhaust)
  obtain m2 S2 where w: "wait_nohang (child_pid child) ob m1 S1 = (m2, S2)" by (rule prod.exhaust)
  have m2: "ms_cancelled m2 = (ms_cancelled m \<or> ob_cancelled ob)"
    using cancel_thread_cancelled [OF c] wait_nohang_cancelled [OF w] by simp
  note l = assms [unfolded monitor_loop.simps c Let_def prod.case w]
  note go = that(1) [OF m2] that(2) [OF m2, OF _ exit_state(1)] that(2) [OF m2, OF _ exit_state(2)]
    that(2) [OF m2, OF _ exit_state(3)]
  show ?thesis
  proof (cases "ob_poll ob")
    case (Poll_error eintr)
    then show ?thesis using l go by (auto split: if_splits)
  next
    case (Poll_timeout now)
    then show ?thesis using l go by (auto split: if_splits)
  next
    case (Poll_ready readable rs)
    obtain e m3 S3 where r: "read_output (child_use_pty child) rs m2 S2 = (e, m3, S3)" by (rule prod_cases3)
    have m3: "ms_cancelled m3 = (ms_cancelled m \<or> ob_cancelled ob)" using read_output_keeps [OF r] m2 by simp
    note go3 = that(1) [OF m3] that(2) [OF m3, OF _ exit_state(1)] that(2) [OF m3, OF _ exit_state(2)]
    show ?thesis using l Poll_ready r go go3 by (cases readable; cases e) auto
  qed
qed

lemma monitor_loop_seen:
  "monitor_loop child t final obs m S = Some x \<Longrightarrow>
     seen_cancelled final (ms_cancelled m \<or> (\<exists>ob\<in>set obs. ob_cancelled ob)) (ms_cancelled (fst (snd x)))"
proof (induction obs arbitrary: m S)
  case (Cons ob obs)
  from Cons.prems show ?case
  proof (cases rule: monitor_round)
    case (1 m' S')
    show ?thesis by (rule seen_cancelled_weaken [OF Cons.IH [OF 1(2)]]) (use 1(1) in auto)
  next
    case (2 k m' S')
    show ?thesis by (rule seen_cancelled_weaken [OF leave_loop_seen [OF 2(2,3)]]) (use 2(1) in auto)
  qed
qed simp

text \<open>An early cancellation counts too: the flag is never taken back.\<close>

lemma monitor_first_cancelled:
  assumes "monitor_loop child t final obs m S = Some x" "ms_cancelled m"
  shows "ms_cancelled (fst (snd x))"
  using assms
proof (induction obs arbitrary: m S)
  case (Cons ob obs)
  from Cons.prems(1) show ?case
  proof (cases rule: monitor_round)
    case (1 m' S')
    then show ?thesis using Cons.IH Cons.prems(2) by blast
  next
    case (2 k m' S')
    then show ?thesis using Cons.prems(2) by (auto simp: leave_loop_def cancel_thread_def split: if_splits)
  qed
qed simp

section \<open>The submission\<close>

lemma monitor_cancelled:
  assumes "MonitorChildProcess getenv now child final obs P = Some (r, m, P')"
  shows "cancelled_result (child_pid child) P (r, m, P')"
    and "seen_cancelled final (\<exists>ob\<in>set obs. ob_cancelled ob) (ms_cancelled m)"
proof -
  have c: "cancel_signals (child_pid child) P (start_monitor now) (EmitLogChunk t P)" for t
    by (simp add: cancel_signals_def start_monitor_def)
  show "cancelled_result (child_pid child) P (r, m, P')"
    by (rule cancelled_loop [OF assms [unfolded MonitorChildProcess_def] c])
  show "seen_cancelled final (\<exists>ob\<in>set obs. ob_cancelled ob) (ms_cancelled m)"
    using monitor_loop_seen [OF assms [unfolded MonitorChildProcess_def]] by (simp add: start_monitor_def)
qed

lemma Execute_cancelled:
  assumes "Execute H os base config W = Some (x, W')" "eo_cancelled (to_final os)"
  shows "\<exists>e. x = Inl e"
proof -
  have no: "RunCommand H os base config V = Some (None, out, V') \<Longrightarrow> False" for V out V'
    using monitor_cancelled assms(2)
    by (fastforce simp: RunCommand_def Let_def cancelled_result_def seen_cancelled_def
        split: prod.splits sum.splits option.splits)
  then show ?thesis using assms(1)
    by (auto simp: Execute_def Let_def split: if_splits option.splits prod.splits dest: no)
qed

lemma submission_cancelled:
  assumes "TaskSubmission H os W = Some (status, W')" "eo_cancelled (to_final (su_task os))"
  shows "\<exists>e. status = Some e"
  using assms Execute_cancelled [OF _ assms(2)]
  by (fastforce simp: TaskSubmission_def Let_def split: option.splits prod.splits sum.splits)

section \<open>Properties\<close>



text \<open>An interrupt of the client reaches its task: when SIGINT arrives while the call runs, two steps of the
  watcher cancel the call. If gRPC tells the server of it before the monitor of the task
  stops looking, the submission fails, its lock is given back, and no success is sent.\<close>

theorem interrupted_submission:
  assumes "cancel_reach True requested s" "cn_phase s = Running" "0 < cn_handled s"
    "\<And>n s'. cancel_run (replicate n Watcher) s = Some s' \<Longrightarrow> cn_cancels s' = 1 \<Longrightarrow> eo_cancelled (to_final (su_task os))"
    "TaskSubmission H os W = Some (status, W')"
  shows "(\<exists>n\<le>2. \<exists>s'. cancel_run (replicate n Watcher) s = Some s' \<and> cn_cancels s' = 1) \<and>
    (\<exists>e. status = Some e \<and> (sw_results W' = sw_results W \<or>
       (\<exists>r. sw_results W' = sw_results W @ [r] \<and> \<not> tr_success r \<and> tr_message r = snd e)))"
proof -
  have n: "\<exists>n\<le>2. \<exists>s'. cancel_run (replicate n Watcher) s = Some s' \<and> cn_cancels s' = 1"
    by (rule interrupt_reaches [OF assms(1-3)])
  then have "eo_cancelled (to_final (su_task os))" using assms(4) by blast
  then obtain e where e: "status = Some e" using submission_cancelled [OF assms(5)] by blast
  show ?thesis using n submission_answers [OF assms(5)] e by (auto split: if_splits)
qed

end
