(* ===== verification/ClientDisplay.thy ===== *)
theory ClientDisplay
  imports LogPrinter CString ShellText
begin

text \<open>
  What the client displays beside the output of the task: the texts of byte counts (HumanReadableBytes of
  client/client\_api.cc; FormatBytes of client/client.cc and, the same text, of
  client/integrated\_client.cc) with the rounding of double written out, and the line that shows how
  long the server has been silent (the idle thread and clear\_idle\_line of DrainServerResponses).
\<close>

section \<open>Byte counts\<close>

text \<open>round\_even is the nearest integer of a quotient, the even one of two; to\_double is the conversion of an
  integer to a double of 53 bits. Divisions by 1024 are exact, so the value after u of them is the
  double over 1024 ^ u.\<close>

definition round_even :: "nat \<Rightarrow> nat \<Rightarrow> nat" where
  "round_even n d =
     (let q = n div d; r = n mod d in if 2 * r < d \<or> (2 * r = d \<and> even q) then q else q + 1)"

fun double_shift :: "nat \<Rightarrow> nat" where
  "double_shift n = (if n < 2 ^ 53 then 0 else Suc (double_shift (n div 2)))"

definition to_double :: "nat \<Rightarrow> nat" where
  "to_double n = (let s = double_shift n in round_even n (2 ^ s) * 2 ^ s)"

definition kUnits :: "string list" where
  "kUnits = [''B'', ''KB'', ''MB'', ''GB'', ''TB'']"

function unit_loop :: "nat \<Rightarrow> nat \<Rightarrow> nat" where
  "unit_loop v unit = (if 1024 * 1024 ^ unit \<le> v \<and> unit + 1 < length kUnits then unit_loop v (unit + 1) else unit)"
  by pat_completeness auto
termination by (relation "measure (\<lambda>(v, unit). length kUnits - unit)") auto

declare double_shift.simps [simp del] unit_loop.simps [simp del]

fun fraction_digits :: "nat \<Rightarrow> nat \<Rightarrow> string" where
  "fraction_digits 0 q = []"
| "fraction_digits (Suc p) q = fraction_digits p (q div 10) @ [digit_char (q mod 10)]"

definition fixed_text :: "nat \<Rightarrow> nat \<Rightarrow> nat \<Rightarrow> string" where
  "fixed_text precision v d =
     (let q = round_even (v * 10 ^ precision) d
      in to_dec (q div 10 ^ precision) @ ''.'' @ fraction_digits precision q)"

definition HumanReadableBytes :: "int \<Rightarrow> string" where
  "HumanReadableBytes bytes =
     (if bytes \<le> 0 then ''0 B''
      else
        let v = to_double (nat bytes); unit = unit_loop v 0
        in if unit = 0 then to_dec v @ '' '' @ kUnits ! unit
           else fixed_text 1 v (1024 ^ unit) @ '' '' @ kUnits ! unit)"

text \<open>Without the test for values that are not positive: those stay in the first unit.\<close>

definition FormatBytes :: "int \<Rightarrow> string" where
  "FormatBytes bytes =
     (let v = to_double (nat \<bar>bytes\<bar>); unit = (if bytes < 0 then 0 else unit_loop v 0)
      in if unit = 0 then to_string (if bytes < 0 then - int v else int v) @ '' '' @ kUnits ! unit
         else fixed_text 2 v (1024 ^ unit) @ '' '' @ kUnits ! unit)"

lemma round_even_near: "0 < d \<Longrightarrow> 2 * \<bar>int (round_even n d) * int d - int n\<bar> \<le> int d"
proof -
  assume d: "0 < d"
  have n: "int n = int (n div d) * int d + int (n mod d)" by (metis div_mult_mod_eq of_nat_add of_nat_mult)
  have r: "int (n mod d) < int d" using d by simp
  show ?thesis
  proof (cases "round_even n d = n div d")
    case True
    then have "2 * (n mod d) \<le> d" using d by (auto simp: round_even_def Let_def split: if_splits)
    then have "2 * int (n mod d) \<le> int d" by linarith
    then show ?thesis using True n by simp
  next
    case False
    then have q: "round_even n d = n div d + 1" "\<not> 2 * (n mod d) < d"
      by (auto simp: round_even_def Let_def split: if_splits)
    then show ?thesis using n r by (simp add: abs_if distrib_right)
  qed
qed

lemma to_double_exact: "n < 2 ^ 53 \<Longrightarrow> to_double n = n"
  by (simp add: to_double_def double_shift.simps [of n] round_even_def)

lemma unit_loop_bounds:
  assumes "u < length kUnits" "1024 ^ u \<le> v"
  shows "unit_loop v u < length kUnits \<and> 1024 ^ unit_loop v u \<le> v \<and>
    (v < 1024 ^ (unit_loop v u + 1) \<or> unit_loop v u + 1 = length kUnits)"
  using assms
proof (induction v u rule: unit_loop.induct)
  case (1 v u)
  show ?case
  proof (cases "1024 * 1024 ^ u \<le> v \<and> u + 1 < length kUnits")
    case True
    then have "unit_loop v u = unit_loop v (u + 1)" by (subst unit_loop.simps) simp
    then show ?thesis using 1(1) True by simp
  next
    case False
    then have "unit_loop v u = u" by (subst unit_loop.simps) (rule if_not_P)
    then show ?thesis using False 1(2,3) by auto
  qed
qed

text \<open>The texts of byte counts name the right unit and are rounded correctly: for every count below
  2 ^ 53 the unit is the largest of the five that fits, and the number printed differs from the exact quotient by at
  most half of the last digit.\<close>

theorem human_bytes_exact:
  assumes "0 < bytes" "bytes < 2 ^ 53"
  shows "\<exists>unit q. unit < 5 \<and> 1024 ^ unit \<le> bytes \<and> (bytes < 1024 ^ (unit + 1) \<or> unit = 4) \<and>
    HumanReadableBytes bytes =
      (if unit = 0 then to_dec (nat bytes) else to_dec (q div 10) @ ''.'' @ [digit_char (q mod 10)]) @ '' '' @ kUnits ! unit \<and>
    2 * \<bar>int q * 1024 ^ unit - 10 * bytes\<bar> \<le> 1024 ^ unit"
proof -
  obtain n where n: "bytes = int n" using assms(1) by (metis less_imp_le nonneg_int_cases)
  define u where "u = unit_loop n 0"
  define q where "q = round_even (n * 10) (1024 ^ u)"
  have dbl: "to_double n = n" using assms n by (intro to_double_exact) simp
  have b: "u < length kUnits \<and> 1024 ^ u \<le> n \<and> (n < 1024 ^ (u + 1) \<or> u + 1 = length kUnits)"
    unfolding u_def using assms(1) n by (intro unit_loop_bounds) (simp_all add: kUnits_def)
  have near: "2 * \<bar>int q * int (1024 ^ u) - int (n * 10)\<bar> \<le> int (1024 ^ u)" unfolding q_def by (rule round_even_near) simp
  have low: "1024 ^ u \<le> bytes" using b n by (metis of_nat_le_iff of_nat_numeral of_nat_power)
  have high: "bytes < 1024 ^ (u + 1) \<or> u = 4"
  proof (cases "u = 4")
    case False
    then have "n < 1024 ^ (u + 1)" using b by (simp add: kUnits_def)
    then show ?thesis using n by (metis of_nat_less_iff of_nat_numeral of_nat_power)
  qed simp
  have text_is: "HumanReadableBytes bytes =
      (if u = 0 then to_dec (nat bytes) else to_dec (q div 10) @ ''.'' @ [digit_char (q mod 10)]) @ '' '' @ kUnits ! u"
    using assms(1) n dbl by (simp add: HumanReadableBytes_def Let_def u_def q_def fixed_text_def)
  have "2 * \<bar>int q * 1024 ^ u - 10 * bytes\<bar> \<le> 1024 ^ u" using near n by (simp add: mult.commute)
  with low high text_is b show ?thesis by (intro exI [of _ u] exI [of _ q]) (simp add: kUnits_def)
qed

text \<open>A count just below a unit is rounded up to it without a change of the unit.\<close>

lemma digit_chars:
  "digit_char 0 = CHR ''0''" "digit_char (Suc 0) = CHR ''1''" "digit_char 2 = CHR ''2''" "digit_char 4 = CHR ''4''"
  by code_simp+

lemma human_bytes_boundary: "HumanReadableBytes 1048575 = ''1024.0 KB'' \<and> HumanReadableBytes 1048576 = ''1.0 MB''"
proof -
  have u: "unit_loop 1048575 0 = 1" "unit_loop 1048576 0 = 2"
    by (simp_all add: unit_loop.simps [of _ 0] unit_loop.simps [of _ "Suc 0"] unit_loop.simps [of _ "Suc (Suc 0)"] kUnits_def)
  show ?thesis
    by (simp add: HumanReadableBytes_def Let_def u to_double_exact fixed_text_def round_even_def to_dec.simps kUnits_def
        digit_chars)
qed

section \<open>Lists of cores\<close>

text \<open>FormatCpuCores of client/integrated\_client.cc.\<close>

fun FormatCpuCores :: "int list \<Rightarrow> string" where
  "FormatCpuCores [] = []"
| "FormatCpuCores [c] = to_string c"
| "FormatCpuCores (c # cs) = to_string c @ '','' @ FormatCpuCores cs"

lemma getline_pieces_sep:
  "sep \<notin> set xs \<Longrightarrow> getline_pieces sep cur (xs @ sep # ys) = (cur @ xs) # getline_pieces sep [] ys"
  by (induction xs arbitrary: cur) auto

lemma getline_pieces_last: "sep \<notin> set xs \<Longrightarrow> cur @ xs \<noteq> [] \<Longrightarrow> getline_pieces sep cur xs = [cur @ xs]"
  by (induction xs arbitrary: cur) auto

lemma core_text_no_comma: "CHR '','' \<notin> set (to_string c)"
proof -
  have "\<not> c_isdigit (CHR '','')" by (simp add: c_isdigit_def)
  then have "CHR '','' \<notin> set (to_dec n)" for n using to_dec_digits by blast
  then show ?thesis by (simp add: to_string_def)
qed

lemma to_string_not_empty: "to_string c \<noteq> []"
  using to_dec_nonempty by (simp add: to_string_def)

text \<open>The pieces between the commas are the cores.\<close>

theorem FormatCpuCores_pieces: "getline_pieces (CHR '','') [] (FormatCpuCores cs) = map to_string cs"
proof (induction cs rule: FormatCpuCores.induct)
  case (2 c)
  show ?case using getline_pieces_last [OF core_text_no_comma, of "[]" c] to_string_not_empty by simp
next
  case (3 c d cs)
  then show ?case using getline_pieces_sep [OF core_text_no_comma, of "[]" c] by simp
qed simp

section \<open>The idle line\<close>

text \<open>The times are microseconds of the steady clock. The idle thread looks (idle\_look: one turn of its loop up
  to the flag) and then writes (idle\_write); print\_log takes the time of the output, takes the flag
  back (take\_flag) and wipes the line (wipe). id\_pending is the line the idle thread has decided to write.\<close>

record idle_display =
  id_last_log_us :: int
  id_last_print_sec :: int
  id_visible :: bool
  id_pending :: "int option"
  id_wiping :: bool
  id_cerr :: string

definition cr :: char where "cr = CHR 0x0D"

definition idle_start :: "int \<Rightarrow> idle_display" where
  "idle_start now = \<lparr>id_last_log_us = now, id_last_print_sec = - 1, id_visible = False, id_pending = None,
     id_wiping = False, id_cerr = []\<rparr>"

definition idle_text :: "int \<Rightarrow> string" where
  "idle_text idle_sec = ''    [client] waiting for remote output... (idle '' @ to_string idle_sec @ ''s)''"

definition idle_look :: "int \<Rightarrow> idle_display \<Rightarrow> idle_display" where
  "idle_look now_us d =
     (let idle_us = now_us - id_last_log_us d
      in if idle_us < 1200 * 1000 then d
         else
           let idle_sec = idle_us div 1000000
           in if idle_sec = id_last_print_sec d then d
              else d\<lparr>id_last_print_sec := idle_sec, id_visible := True, id_pending := Some idle_sec\<rparr>)"

definition idle_write :: "idle_display \<Rightarrow> idle_display" where
  "idle_write d =
     (case id_pending d of
        None \<Rightarrow> d
      | Some s \<Rightarrow> d\<lparr>id_pending := None, id_cerr := id_cerr d @ cr # idle_text s\<rparr>)"

definition log_arrives :: "int \<Rightarrow> idle_display \<Rightarrow> idle_display" where
  "log_arrives now_us d = d\<lparr>id_last_log_us := now_us\<rparr>"

definition take_flag :: "idle_display \<Rightarrow> idle_display" where
  "take_flag d = d\<lparr>id_visible := False, id_wiping := id_visible d\<rparr>"

definition wipe :: "idle_display \<Rightarrow> idle_display" where
  "wipe d = (if id_wiping d then d\<lparr>id_wiping := False, id_cerr := id_cerr d @ cr # replicate 96 (CHR '' '') @ [cr]\<rparr> else d)"

definition clear_idle_line :: "idle_display \<Rightarrow> idle_display" where
  "clear_idle_line d = wipe (take_flag d)"

datatype idle_event = Look int | Write_line | Output int

fun idle_step :: "idle_event \<Rightarrow> idle_display \<Rightarrow> idle_display" where
  "idle_step (Look now) d = idle_look now d"
| "idle_step Write_line d = idle_write d"
| "idle_step (Output now) d = clear_idle_line (log_arrives now d)"

text \<open>What a terminal line shows: a carriage return goes back to the first column, other characters overwrite.\<close>

fun put_columns :: "string \<Rightarrow> string \<times> nat \<Rightarrow> string \<times> nat" where
  "put_columns [] t = t"
| "put_columns (c # cs) (shown, col) =
     (if c = cr then put_columns cs (shown, 0)
      else put_columns cs (if col < length shown then shown[col := c] else shown @ [c], Suc col))"

abbreviation screen :: "idle_display \<Rightarrow> string" where
  "screen d \<equiv> fst (put_columns (id_cerr d) ([], 0))"

lemma put_columns_append: "put_columns (xs @ ys) t = put_columns ys (put_columns xs t)"
  by (induction xs t rule: put_columns.induct) auto

lemma put_columns_length:
  "cr \<notin> set cs \<Longrightarrow> col \<le> length shown \<Longrightarrow>
     length (fst (put_columns cs (shown, col))) = max (length shown) (col + length cs)"
  by (induction cs "(shown, col)" arbitrary: shown col rule: put_columns.induct) auto

lemma put_blanks:
  "col \<le> length shown \<Longrightarrow> length shown \<le> col + n \<Longrightarrow> set (take col shown) \<subseteq> {CHR '' ''} \<Longrightarrow>
     set (fst (put_columns (replicate n (CHR '' '')) (shown, col))) \<subseteq> {CHR '' ''}"
proof (induction n arbitrary: shown col)
  case 0
  then show ?case by simp
next
  case (Suc n)
  have b: "CHR '' '' \<noteq> cr" by (simp add: cr_def)
  show ?case
  proof (cases "col < length shown")
    case True
    then have "take (Suc col) (shown[col := CHR '' '']) = take col shown @ [CHR '' '']"
      by (simp add: take_Suc_conv_app_nth)
    then show ?thesis using True Suc.prems b Suc.IH [of "Suc col" "shown[col := CHR '' '']"] by simp
  next
    case False
    then show ?thesis using Suc.prems b Suc.IH [of "Suc col" "shown @ [CHR '' '']"] by simp
  qed
qed

lemma to_dec_length: "n < 10 ^ Suc k \<Longrightarrow> length (to_dec n) \<le> Suc k"
proof (induction k arbitrary: n)
  case 0
  then show ?case by (simp add: to_dec.simps)
next
  case (Suc k)
  have "n div 10 < 10 ^ Suc k" using Suc.prems by (simp add: less_mult_imp_div_less)
  from Suc.IH [OF this] show ?case by (subst to_dec.simps) simp
qed

lemma idle_text_fits:
  assumes "0 \<le> sec" "sec < 10 ^ 19"
  shows "cr \<notin> set (idle_text sec)" "length (idle_text sec) \<le> 96"
proof -
  have "\<not> c_isdigit cr" by (simp add: cr_def c_isdigit_def)
  then have "cr \<notin> set (to_dec (nat sec))" using to_dec_digits by blast
  then show "cr \<notin> set (idle_text sec)" using assms(1) by (simp add: idle_text_def to_string_def cr_def)
  have "nat sec < 10 ^ Suc 18" using assms by (simp add: nat_less_iff)
  from to_dec_length [OF this] show "length (idle_text sec) \<le> 96"
    using assms(1) by (simp add: idle_text_def to_string_def)
qed

lemma put_line:
  "cr \<notin> set cs \<Longrightarrow> length (fst (put_columns (xs @ cr # cs) ([], 0))) =
     max (length (fst (put_columns xs ([], 0)))) (length cs)"
  by (cases "put_columns xs ([], 0)") (simp add: put_columns_append put_columns_length)

text \<open>The events of a run in which the output of the server does not fall between the two statements of the idle
  thread that set the flag and write the line.\<close>

fun undisturbed :: "idle_event list \<Rightarrow> bool" where
  "undisturbed [] = True"
| "undisturbed (Look now # Write_line # es) = (0 \<le> now \<and> now < 2 ^ 63 \<and> undisturbed es)"
| "undisturbed (Output now # es) = (0 \<le> now \<and> now < 2 ^ 63 \<and> undisturbed es)"
| "undisturbed (_ # es) = False"

definition idle_inv :: "idle_display \<Rightarrow> bool" where
  "idle_inv d \<longleftrightarrow> 0 \<le> id_last_log_us d \<and> id_pending d = None \<and> \<not> id_wiping d \<and> length (screen d) \<le> 96 \<and>
     (id_visible d \<or> set (screen d) \<subseteq> {CHR '' ''})"

lemma idle_turn_inv:
  assumes "idle_inv d" "0 \<le> now" "now < 2 ^ 63"
  shows "idle_inv (idle_write (idle_look now d))"
proof (cases "now - id_last_log_us d < 1200000 \<or> (now - id_last_log_us d) div 1000000 = id_last_print_sec d")
  case True
  then have "idle_look now d = d" by (auto simp: idle_look_def Let_def)
  then show ?thesis using assms(1) by (simp add: idle_write_def idle_inv_def)
next
  case False
  define sec where "sec = (now - id_last_log_us d) div 1000000"
  have le: "now - id_last_log_us d < 2 ^ 63" using assms by (simp add: idle_inv_def)
  have r: "0 \<le> sec" "sec < 10 ^ 19" using False le by (simp_all add: sec_def div_less_iff_less_mult pos_imp_zdiv_nonneg_iff)
  have st: "idle_write (idle_look now d) =
      d\<lparr>id_last_print_sec := sec, id_visible := True, id_pending := None, id_cerr := id_cerr d @ cr # idle_text sec\<rparr>"
    using False by (simp add: idle_look_def idle_write_def Let_def sec_def)
  show ?thesis unfolding st using assms(1) put_line [OF idle_text_fits(1) [OF r]] idle_text_fits(2) [OF r]
    by (simp add: idle_inv_def)
qed

lemma clear_inv:
  assumes "idle_inv d"
  shows "idle_inv (clear_idle_line d)" "set (screen (clear_idle_line d)) \<subseteq> {CHR '' ''}"
proof -
  obtain shown col where t: "put_columns (id_cerr d) ([], 0) = (shown, col)" by (cases "put_columns (id_cerr d) ([], 0)")
  have len: "length shown \<le> 96" using assms t by (simp add: idle_inv_def)
  have ncr: "cr \<notin> set (replicate 96 (CHR '' ''))" by (simp add: cr_def)
  have blank: "set (fst (put_columns (replicate 96 (CHR '' '')) (shown, 0))) \<subseteq> {CHR '' ''}"
    using len by (intro put_blanks) simp_all
  obtain shown' col' where w: "put_columns (replicate 96 (CHR '' '')) (shown, 0) = (shown', col')"
    by (cases "put_columns (replicate 96 (CHR '' '')) (shown, 0)")
  have len': "length shown' = 96" using put_columns_length [OF ncr, of 0 shown] w len by simp
  have cleared: "screen (clear_idle_line d) = (if id_visible d then shown' else shown)"
    using t w by (simp add: clear_idle_line_def take_flag_def wipe_def put_columns_append)
  then show b: "set (screen (clear_idle_line d)) \<subseteq> {CHR '' ''}" using blank w t assms by (auto simp: idle_inv_def)
  have "length (screen (clear_idle_line d)) \<le> 96" using cleared len len' by simp
  then show "idle_inv (clear_idle_line d)"
    using b assms by (simp add: idle_inv_def clear_idle_line_def take_flag_def wipe_def split: if_splits)
qed

lemma undisturbed_inv: "undisturbed evs \<Longrightarrow> idle_inv d \<Longrightarrow> idle_inv (fold idle_step evs d)"
proof (induction evs arbitrary: d rule: undisturbed.induct)
  case (2 now es)
  then show ?case by (simp add: idle_turn_inv)
next
  case (3 now es)
  have "idle_inv (log_arrives now d)" using 3 by (simp add: idle_inv_def log_arrives_def)
  then show ?case using 3 by (simp add: clear_inv(1))
qed simp_all

text \<open>The idle line leaves nothing behind: as long as the output of the server does not fall between the two
  statements of the idle thread, the line is blank again whenever clear\_idle\_line is done, at the latest
  when the last response has been read.\<close>

theorem idle_line_erased:
  assumes "undisturbed evs" "0 \<le> start"
  shows "set (screen (clear_idle_line (fold idle_step evs (idle_start start)))) \<subseteq> {CHR '' ''}"
proof -
  have "idle_inv (idle_start start)" using assms(2) by (simp add: idle_inv_def idle_start_def)
  from clear_inv(2) [OF undisturbed_inv [OF assms(1) this]] show ?thesis .
qed

text \<open>Between the flag and the line there is a race: the output takes the flag back before the line is written, and
  the line then stays on the terminal, because nothing wipes it when the call ends.\<close>

theorem idle_line_stays:
  "take 51 (screen (clear_idle_line (fold idle_step [Look 2000000, Output 2000001, Write_line] (idle_start 0)))) =
     ''    [client] waiting for remote output... (idle 2s)''"
  by code_simp

theorem idle_line_erased_witness:
  "set (screen (clear_idle_line (fold idle_step [Look 2000000, Write_line, Output 2000001] (idle_start 0)))) \<subseteq> {CHR '' ''} \<and>
   undisturbed [Look 2000000, Write_line, Output 2000001]"
  using idle_line_erased [of "[Look 2000000, Write_line, Output 2000001]" 0] by simp

theorem human_bytes_exact_witness:
  "\<exists>unit q. unit < 5 \<and> 1024 ^ unit \<le> (1536::int) \<and> ((1536::int) < 1024 ^ (unit + 1) \<or> unit = 4) \<and>
    HumanReadableBytes 1536 =
      (if unit = 0 then to_dec (nat 1536) else to_dec (q div 10) @ ''.'' @ [digit_char (q mod 10)]) @ '' '' @ kUnits ! unit \<and>
    2 * \<bar>int q * 1024 ^ unit - 10 * 1536\<bar> \<le> (1024::int) ^ unit"
  by (rule human_bytes_exact) simp_all

end
