(* ===== verification/Endings.thy ===== *)
theory Endings
  imports Prelude
begin

text \<open>
  How a call of the C++ programs ends: it returns, ends the process with abort (ERRO and ASSERT of the
  GPU programs' include/utils.h), leaves with an exception that nothing catches, or has no defined
  behaviour in C++; and the loops over such calls.
\<close>

datatype 'a ending = Done 'a | Aborted | Thrown | Undefined

fun bind_o :: "'a ending \<Rightarrow> ('a \<Rightarrow> 'b ending) \<Rightarrow> 'b ending" where
  "bind_o (Done a) f = f a"
| "bind_o Aborted f = Aborted"
| "bind_o Thrown f = Thrown"
| "bind_o Undefined f = Undefined"

fun fold_o :: "('a \<Rightarrow> 's \<Rightarrow> 's ending) \<Rightarrow> 'a list \<Rightarrow> 's \<Rightarrow> 's ending" where
  "fold_o f [] s = Done s"
| "fold_o f (x # xs) s = bind_o (f x s) (fold_o f xs)"

definition assert_o :: "bool \<Rightarrow> 'a \<Rightarrow> 'a ending" where
  "assert_o b a = (if b then Done a else Aborted)"

definition defined_o :: "'a option \<Rightarrow> 'a ending" where
  "defined_o x = (case x of Some a \<Rightarrow> Done a | None \<Rightarrow> Undefined)"

lemma bind_o_Done [simp]: "bind_o x f = Done b \<longleftrightarrow> (\<exists>a. x = Done a \<and> f a = Done b)"
  by (cases x) auto

lemma assert_o_Done [simp]: "assert_o b a = Done x \<longleftrightarrow> b \<and> x = a"
  by (auto simp: assert_o_def)

lemma defined_o_Done [simp]: "defined_o x = Done a \<longleftrightarrow> x = Some a"
  by (auto simp: defined_o_def split: option.splits)

lemma fold_o_append: "fold_o f (xs @ ys) s = bind_o (fold_o f xs s) (fold_o f ys)"
proof (induction xs arbitrary: s)
  case (Cons x xs)
  then show ?case by (cases "f x s") auto
qed simp

text \<open>An invariant of every step is one of the loop.\<close>

lemma fold_o_inv:
  assumes "fold_o f xs s = Done s'" "P s" "\<And>x s s'. x \<in> set xs \<Longrightarrow> P s \<Longrightarrow> f x s = Done s' \<Longrightarrow> P s'"
  shows "P s'"
  using assms by (induction xs arbitrary: s) auto

end
