(* ===== verification/Logging.thy ===== *)
theory Logging
  imports CString RemoteService Endings
begin

text \<open>
  The loggers of the two programs (server/server\_logging.cc, client/client\_logging.cc) and the start of
  the server (server/server.cc). A logger is what its sinks have written: the lines with their level; the
  time stamps and colors of the pattern are left out. The logging library opens the log file through an
  argument (None: it throws), and gRPC tells by an argument whether the server could be started.
\<close>

section \<open>The contract of a logger\<close>

datatype log_level = Debug | Info | Warn | Error

text \<open>The levels in their order.\<close>

fun severity :: "log_level \<Rightarrow> nat" where
  "severity Debug = 0"
| "severity Info = 1"
| "severity Warn = 2"
| "severity Error = 3"

lemma severity_inject: "severity l = severity m \<Longrightarrow> l = m"
  by (cases l; cases m) auto

instantiation log_level :: linorder
begin

definition less_eq_log_level :: "log_level \<Rightarrow> log_level \<Rightarrow> bool" where
  "less_eq_log_level l m \<longleftrightarrow> severity l \<le> severity m"

definition less_log_level :: "log_level \<Rightarrow> log_level \<Rightarrow> bool" where
  "less_log_level l m \<longleftrightarrow> severity l < severity m"

instance
  by standard (auto simp: less_eq_log_level_def less_log_level_def dest: severity_inject)

end

definition at_least_info :: "log_level \<Rightarrow> bool" where
  "at_least_info l \<longleftrightarrow> Info \<le> l"

lemma at_least_info_simps [simp]:
  "\<not> at_least_info Debug" "at_least_info Info" "at_least_info Warn" "at_least_info Error"
  by (simp_all add: at_least_info_def less_eq_log_level_def)

text \<open>What is written at a level is written at every higher one.\<close>

lemma at_least_info_mono: "l \<le> m \<Longrightarrow> at_least_info l \<Longrightarrow> at_least_info m"
  unfolding at_least_info_def by (rule order_trans)

text \<open>A logger that is not ready drops what it is given; one that is ready writes what reaches its level and stays
  ready.\<close>

locale logger =
  fixes log :: "log_level \<Rightarrow> string \<Rightarrow> 's \<Rightarrow> 's"
    and ready :: "'s \<Rightarrow> bool"
    and written :: "'s \<Rightarrow> (log_level \<times> string) list"
  assumes not_ready: "\<not> ready s \<Longrightarrow> log l m s = s"
    and log_ready: "ready s \<Longrightarrow> ready (log l m s)"
    and log_writes: "ready s \<Longrightarrow> written (log l m s) = written s @ (if at_least_info l then [(l, m)] else [])"
begin

lemma log_all:
  "ready s \<Longrightarrow> ready (fold (\<lambda>(l, m). log l m) ms s) \<and>
     written (fold (\<lambda>(l, m). log l m) ms s) = written s @ filter (\<lambda>(l, m). at_least_info l) ms"
  by (induction ms arbitrary: s) (auto simp: log_ready log_writes)

lemma log_dropped: "\<not> ready s \<Longrightarrow> fold (\<lambda>(l, m). log l m) ms s = s"
  by (induction ms) (auto simp: not_ready)

end

section \<open>Client\<close>

record client_log =
  cl_logger :: "string option"
  cl_stdout :: "(log_level \<times> string) list"

definition InitializeClientLogging :: "string \<Rightarrow> client_log \<Rightarrow> client_log" where
  "InitializeClientLogging logger_name s = (if cl_logger s \<noteq> None then s else s\<lparr>cl_logger := Some logger_name\<rparr>)"

definition log_client :: "log_level \<Rightarrow> string \<Rightarrow> client_log \<Rightarrow> client_log" where
  "log_client l message s =
     (if cl_logger s \<noteq> None then (if at_least_info l then s\<lparr>cl_stdout := cl_stdout s @ [(l, message)]\<rparr> else s) else s)"

abbreviation "LogClientInfo \<equiv> log_client Info"
abbreviation "LogClientWarn \<equiv> log_client Warn"
abbreviation "LogClientError \<equiv> log_client Error"

interpretation client: logger log_client "\<lambda>s. cl_logger s \<noteq> None" cl_stdout
  by unfold_locales (auto simp: log_client_def)

section \<open>Server\<close>

text \<open>sl\_logger is the logger with the path of its file, if it has one; sl\_stdout and sl\_file are the lines of the
  two sinks.\<close>

record server_log =
  sl_once :: bool
  sl_logger :: "path option option"
  sl_stdout :: "(log_level \<times> string) list"
  sl_file :: "(log_level \<times> string) list"
  sl_files :: files

definition InitializeServerLogging :: "host \<Rightarrow> (path \<Rightarrow> files \<Rightarrow> files option) \<Rightarrow> path \<Rightarrow> server_log \<Rightarrow> server_log ending" where
  "InitializeServerLogging H open_log workspace_root s =
     (if sl_once s then Done s
      else
        case create_directories H workspace_root (sl_files s) of
          None \<Rightarrow> Done (s\<lparr>sl_once := True, sl_logger := Some None\<rparr>)
        | Some fs \<Rightarrow>
            let log_path = path_append workspace_root (parse_path ''server.log'')
            in case open_log log_path fs of
                 None \<Rightarrow> Thrown
               | Some fs \<Rightarrow> Done (s\<lparr>sl_once := True, sl_logger := Some (Some log_path), sl_files := fs\<rparr>))"

definition GetServerLogger :: "server_log \<Rightarrow> path option option" where
  "GetServerLogger s = sl_logger s"

definition log_server :: "log_level \<Rightarrow> string \<Rightarrow> server_log \<Rightarrow> server_log" where
  "log_server l message s =
     (case sl_logger s of
        None \<Rightarrow> s
      | Some file \<Rightarrow>
          if at_least_info l then
            s\<lparr>sl_stdout := sl_stdout s @ [(l, message)],
              sl_file := (if file = None then sl_file s else sl_file s @ [(l, message)])\<rparr>
          else s)"

abbreviation "LogServerDebug \<equiv> log_server Debug"
abbreviation "LogServerInfo \<equiv> log_server Info"
abbreviation "LogServerWarn \<equiv> log_server Warn"
abbreviation "LogServerError \<equiv> log_server Error"

interpretation server_stdout: logger log_server "\<lambda>s. sl_logger s \<noteq> None" sl_stdout
  by unfold_locales (auto simp: log_server_def split: option.splits)

text \<open>The file has the same lines once it is open.\<close>

lemma server_file_same:
  "sl_logger s = Some (Some p) \<Longrightarrow> sl_file s = sl_stdout s \<Longrightarrow>
     sl_logger (fold (\<lambda>(l, m). log_server l m) ms s) = Some (Some p) \<and>
     sl_file (fold (\<lambda>(l, m). log_server l m) ms s) = sl_stdout (fold (\<lambda>(l, m). log_server l m) ms s)"
  by (induction ms arbitrary: s) (auto simp: log_server_def)

section \<open>Start of the server\<close>

definition kDefaultPort :: int where "kDefaultPort = 8063"
definition kDefaultAddress :: string where "kDefaultAddress = ''0.0.0.0''"

definition new_server_log :: "files \<Rightarrow> server_log" where
  "new_server_log fs = \<lparr>sl_once = False, sl_logger = None, sl_stdout = [], sl_file = [], sl_files = fs\<rparr>"

text \<open>The workspace of the log is the one below the current directory. A server that could not be started is a null
  pointer, whose Wait has no defined behaviour.\<close>

definition RunServer :: "host \<Rightarrow> (path \<Rightarrow> files \<Rightarrow> files option) \<Rightarrow> path \<Rightarrow> bool \<Rightarrow> string \<Rightarrow> int \<Rightarrow> server_log \<Rightarrow>
    server_log \<times> unit ending" where
  "RunServer H open_log cwd started address port s =
     (let server_address = address @ '':'' @ to_string port
      in case InitializeServerLogging H open_log (path_append cwd (parse_path ''workspace'')) s of
           Done s \<Rightarrow>
             let s = LogServerInfo (''remote_server listening on '' @ server_address) s
             in (s, if started then Done () else Undefined)
         | Aborted \<Rightarrow> (s, Aborted) | Thrown \<Rightarrow> (s, Thrown) | Undefined \<Rightarrow> (s, Undefined))"

definition server_main :: "host \<Rightarrow> (path \<Rightarrow> files \<Rightarrow> files option) \<Rightarrow> path \<Rightarrow> bool \<Rightarrow> string option \<Rightarrow> int option \<Rightarrow>
    files \<Rightarrow> server_log \<times> int ending" where
  "server_main H open_log cwd started address port fs =
     (case RunServer H open_log cwd started (case address of None \<Rightarrow> kDefaultAddress | Some a \<Rightarrow> a)
         (case port of None \<Rightarrow> kDefaultPort | Some p \<Rightarrow> p) (new_server_log fs) of
        (s, e) \<Rightarrow> (s, bind_o e (\<lambda>_. Done 0)))"

lemma initialized_logger:
  "InitializeServerLogging H open_log dir s = Done s' \<Longrightarrow> \<not> sl_once s \<Longrightarrow>
     sl_once s' \<and> sl_logger s' \<noteq> None \<and> sl_stdout s' = sl_stdout s \<and> sl_file s' = sl_file s"
  by (auto simp: InitializeServerLogging_def Let_def split: option.splits)

text \<open>A server that could not be started (the port is taken) reports that it is listening, in both logs, before
  it uses the null pointer gRPC returned.\<close>

theorem failed_start_reported_listening:
  assumes "RunServer H open_log cwd False address port (new_server_log fs) = (s, e)" "e \<noteq> Thrown"
  shows "e = Undefined \<and> sl_stdout s = [(Info, ''remote_server listening on '' @ address @ '':'' @ to_string port)] \<and>
    (sl_file s = [] \<or> sl_file s = sl_stdout s)"
  using assms
  by (auto simp: RunServer_def Let_def log_server_def new_server_log_def InitializeServerLogging_def
      split: option.splits)

text \<open>Messages of the server once the loggers are set up: both sinks have the same lines, those of the given messages
  that reach the level info, in their order, and none is lost.\<close>

theorem server_log_complete:
  assumes "InitializeServerLogging H open_log dir (new_server_log fs) = Done s"
  shows "sl_stdout (fold (\<lambda>(l, m). log_server l m) ms s) = filter (\<lambda>(l, m). at_least_info l) ms \<and>
    (GetServerLogger s \<noteq> Some None \<longrightarrow>
       sl_file (fold (\<lambda>(l, m). log_server l m) ms s) = filter (\<lambda>(l, m). at_least_info l) ms)"
proof -
  have i: "sl_logger s \<noteq> None" "sl_stdout s = []" "sl_file s = []"
    using initialized_logger [OF assms] by (simp_all add: new_server_log_def)
  note out = server_stdout.log_all [OF i(1), of ms]
  show ?thesis
  proof (cases "sl_logger s = Some None")
    case True
    then show ?thesis using out i by (simp add: GetServerLogger_def)
  next
    case False
    then obtain p where "sl_logger s = Some (Some p)" using i(1) by auto
    from server_file_same [OF this] show ?thesis using out i by simp
  qed
qed

definition logged_files :: "files option" where
  "logged_files =
     (case InitializeServerLogging quiet_host (open_trunc quiet_host) demo_root (new_server_log (sv_files demo_server)) of
        Done s \<Rightarrow> Some (sl_files s) | _ \<Rightarrow> None)"

definition log_submission :: submission_os where
  "log_submission = (demo_submission ''server.log'')\<lparr>su_incoming := [(False, Config (task_in ''server.log'' []))]\<rparr>"

text \<open>The log file lies in the workspace the tasks are given: a client that names the directory of its task
  server.log is accepted, its task cannot be started, and at the end of the call the clean-up removes the log
  of the server.\<close>

theorem submission_removes_log:
  "\<exists>fs W. logged_files = Some fs \<and> fs [''srv'', ''workspace'', ''server.log''] = Some (File []) \<and>
     TaskSubmission quiet_host log_submission (demo_service\<lparr>sw_exec := demo_world\<lparr>ew_files := fs\<rparr>\<rparr>) =
       Some (Some (INTERNAL, ''Failed to prepare workspace directory for execution!''), W) \<and>
     ew_files (sw_exec W) [''srv'', ''workspace'', ''server.log''] = None"
proof -
  have c: "case logged_files of None \<Rightarrow> False | Some fs \<Rightarrow>
      fs [''srv'', ''workspace'', ''server.log''] = Some (File []) \<and>
      (case TaskSubmission quiet_host log_submission (demo_service\<lparr>sw_exec := demo_world\<lparr>ew_files := fs\<rparr>\<rparr>) of
         None \<Rightarrow> False
       | Some (status, W) \<Rightarrow>
           status = Some (INTERNAL, ''Failed to prepare workspace directory for execution!'') \<and>
           ew_files (sw_exec W) [''srv'', ''workspace'', ''server.log''] = None)"
    by code_simp
  then show ?thesis by (auto split: option.splits)
qed

theorem failed_start_reported_listening_witness:
  "\<exists>s. RunServer quiet_host (open_trunc quiet_host) (parse_path ''/srv'') False kDefaultAddress 80
      (new_server_log (sv_files demo_server)) = (s, Undefined) \<and>
    sl_stdout s = [(Info, ''remote_server listening on 0.0.0.0:80'')]"
proof -
  obtain s e where r: "RunServer quiet_host (open_trunc quiet_host) (parse_path ''/srv'') False kDefaultAddress 80
      (new_server_log (sv_files demo_server)) = (s, e)" by (cases "RunServer quiet_host (open_trunc quiet_host)
        (parse_path ''/srv'') False kDefaultAddress 80 (new_server_log (sv_files demo_server))")
  have "case snd (RunServer quiet_host (open_trunc quiet_host) (parse_path ''/srv'') False kDefaultAddress 80
      (new_server_log (sv_files demo_server))) of Undefined \<Rightarrow> True | _ \<Rightarrow> False" by code_simp
  then have "e \<noteq> Thrown" using r by auto
  moreover have "kDefaultAddress @ '':'' @ to_string 80 = ''0.0.0.0:80''" by code_simp
  ultimately show ?thesis using failed_start_reported_listening [OF r] r by simp
qed

theorem server_log_complete_witness:
  "\<exists>s. InitializeServerLogging quiet_host (open_trunc quiet_host) demo_root (new_server_log (sv_files demo_server)) = Done s \<and>
    sl_stdout (fold (\<lambda>(l, m). log_server l m) [(Debug, ''a''), (Warn, ''b'')] s) = [(Warn, ''b'')]"
proof -
  have "case InitializeServerLogging quiet_host (open_trunc quiet_host) demo_root (new_server_log (sv_files demo_server)) of
      Done s \<Rightarrow> True | _ \<Rightarrow> False" by code_simp
  then obtain s where s: "InitializeServerLogging quiet_host (open_trunc quiet_host) demo_root
      (new_server_log (sv_files demo_server)) = Done s" by (auto split: ending.splits)
  show ?thesis using server_log_complete [OF s, of "[(Debug, ''a''), (Warn, ''b'')]"] s by simp
qed

end
