(* ===== verification/ContextLog.thy ===== *)
theory ContextLog
  imports Logging OutputArchive
begin

text \<open>
  LogExecutionContext of server/task\_executor.cc, which Execute calls before a task: three messages about the
  environment, the files of the workspace and the script, at the level debug. The listing of the directory and
  the answers about the script come from the host.
\<close>

text \<open>A listing that cannot be started leaves the text of its error; one that fails on the way, and a file whose
  existence cannot be told (None), throw.\<close>

datatype dir_listing = Cannot_list string | Listed "path list" | Listing_throws

definition QuoteForLog :: "string \<Rightarrow> string" where
  "QuoteForLog v = [CHR 0x27] @ v @ [CHR 0x27]"

fun JoinPaths :: "path list \<Rightarrow> string" where
  "JoinPaths [] = []"
| "JoinPaths [p] = filename p"
| "JoinPaths (p # ps) = filename p @ '', '' @ JoinPaths ps"

definition bool_text :: "bool \<Rightarrow> string" where
  "bool_text b = (if b then ''true'' else ''false'')"

definition context_text :: "env \<Rightarrow> (string \<Rightarrow> bool) \<Rightarrow> path \<Rightarrow> string" where
  "context_text getenv exists run_dir =
     ''execution context: cwd='' @ QuoteForLog (path_string run_dir) @
     '' path='' @ QuoteForLog (case getenv ''PATH'' of None \<Rightarrow> ''<unset>'' | Some p \<Rightarrow> p) @
     '' shell='' @ QuoteForLog (FindCommandInPath getenv exists ''sh'') @
     '' bash='' @ QuoteForLog (FindCommandInPath getenv exists ''bash'') @
     '' g++='' @ QuoteForLog (FindCommandInPath getenv exists ''g++'') @
     '' taskset='' @ QuoteForLog (FindCommandInPath getenv exists ''taskset'') @
     '' nice='' @ QuoteForLog (FindCommandInPath getenv exists ''nice'')"

definition script_text :: "path \<Rightarrow> bool \<Rightarrow> bool \<Rightarrow> string" where
  "script_text script_path there executable =
     ''script check: path='' @ QuoteForLog (path_string script_path) @ '' exists='' @ bool_text there @
     '' executable='' @ bool_text executable"

definition LogExecutionContext :: "env \<Rightarrow> (string \<Rightarrow> bool) \<Rightarrow> dir_listing \<Rightarrow> bool option \<Rightarrow> bool \<Rightarrow> path \<Rightarrow>
    server_log \<Rightarrow> server_log \<times> unit ending" where
  "LogExecutionContext getenv exists listing script_there executable run_dir s =
     (let s = LogServerDebug (context_text getenv exists run_dir) s
      in case listing of
           Listing_throws \<Rightarrow> (s, Thrown)
         | _ \<Rightarrow>
             let s = LogServerDebug (''workspace files: '' @
                   (case listing of Cannot_list e \<Rightarrow> ''<failed to enumerate: '' @ e @ ''>''
                    | Listed entries \<Rightarrow> JoinPaths entries | Listing_throws \<Rightarrow> [])) s
             in case script_there of
                  None \<Rightarrow> (s, Thrown)
                | Some b \<Rightarrow>
                    (LogServerDebug (script_text (path_append run_dir (parse_path ''run_low.sh'')) b executable) s, Done ()))"

lemma debug_dropped [simp]: "log_server Debug m s = s"
  by (simp add: log_server_def split: option.splits)

text \<open>The call writes no line, in whatever state the logger is, and still it can throw out of Execute: when the
  listing fails on the way or the existence of the script cannot be told.\<close>

theorem execution_context_silent:
  "case LogExecutionContext getenv exists listing script_there executable run_dir s of
     (s', e) \<Rightarrow> s' = s \<and> e = (if listing = Listing_throws \<or> script_there = None then Thrown else Done ())"
  by (cases listing; cases script_there) (simp_all add: LogExecutionContext_def)

end
