(* ===== verification/TokenThrottle.thy ===== *)
theory TokenThrottle
  imports RemoteService
begin

text \<open>
  The token throttle of application/gpu\_token\_up/main/up\_loop.cpp, which slows a GPU workload down
  to the utilization the server writes into the file DREX\_UTILIZATION\_FILE. Times are the
  nanoseconds of the steady clock; tokens are integers, for quota units whose product with 100
  fits a long.
\<close>

definition ParsePositiveLong :: "string option \<Rightarrow> int \<Rightarrow> int" where
  "ParsePositiveLong val fallback =
     (case val of
        None \<Rightarrow> fallback
      | Some s \<Rightarrow>
          let r = strtol s
          in if st_end r = s \<or> st_end r \<noteq> [] \<or> st_value r \<le> 0 then fallback else st_value r)"

definition ParseEnabled :: "string option \<Rightarrow> bool" where
  "ParseEnabled val =
     (case val of
        None \<Rightarrow> False
      | Some s \<Rightarrow> s = ''1'' \<or> s = ''true'' \<or> s = ''TRUE'' \<or> s = ''on'' \<or> s = ''ON'')"

record throttle =
  th_enabled :: bool
  th_quota_unit :: int
  th_window_ms :: int
  th_utilization_file :: string
  th_utilization :: int
  th_tokens :: int
  th_window_end :: int

text \<open>The file as a reader finds it; None: it cannot be opened.\<close>

definition ReadUtilization :: "throttle \<Rightarrow> string option \<Rightarrow> int" where
  "ReadUtilization th content =
     (if th_utilization_file th = [] then 100
      else case content of
        None \<Rightarrow> th_utilization th
      | Some s \<Rightarrow>
          (case read_long s of
             None \<Rightarrow> th_utilization th
           | Some (v, _) \<Rightarrow> if v < 0 then 0 else if v > 100 then 100 else v))"

definition window_ns :: "throttle \<Rightarrow> int" where
  "window_ns th = th_window_ms th * 1000000"

definition Refill :: "int \<Rightarrow> string option \<Rightarrow> throttle \<Rightarrow> throttle" where
  "Refill now content th =
     (if \<not> th_enabled th then th
      else
        let u = ReadUtilization th content
        in th\<lparr>th_utilization := u, th_tokens := max 1 (u * th_quota_unit th),
              th_window_end := now + window_ns th\<rparr>)"

definition new_throttle :: "env \<Rightarrow> bool \<Rightarrow> int \<Rightarrow> int \<Rightarrow> string option \<Rightarrow> throttle" where
  "new_throttle getenv enabled init now content =
     Refill now content
       \<lparr>th_enabled = enabled, th_quota_unit = ParsePositiveLong (getenv ''GPU_TOKEN_UP_TOKEN_QUOTA_UNIT'') 1,
        th_window_ms = ParsePositiveLong (getenv ''GPU_TOKEN_UP_TOKEN_WINDOW_MS'') 1000,
        th_utilization_file = (case getenv ''DREX_UTILIZATION_FILE'' of None \<Rightarrow> [] | Some f \<Rightarrow> f),
        th_utilization = 100, th_tokens = 100, th_window_end = init\<rparr>"

section \<open>Acquire\<close>

text \<open>
  One round of the loop: the stop flag, the clock, and, when the round refills, the clock after
  the sleep and the file.
\<close>

record round =
  rd_stop :: bool
  rd_now :: int
  rd_wake :: int
  rd_file :: "string option"

datatype step_result = Stopped | Refilled throttle | Taken throttle

definition acquire_step :: "throttle \<Rightarrow> round \<Rightarrow> step_result" where
  "acquire_step th r =
     (if rd_stop r then Stopped
      else if rd_now r \<ge> th_window_end th \<or> th_tokens th \<le> 0 then Refilled (Refill (rd_wake r) (rd_file r) th)
      else Taken (th\<lparr>th_tokens := th_tokens th - 1\<rparr>))"

definition sleeps :: "throttle \<Rightarrow> round \<Rightarrow> bool" where
  "sleeps th r \<longleftrightarrow> rd_now r < th_window_end th \<and> th_tokens th \<le> 0"

text \<open>Whether a token was taken, the throttle, the rounds left; None: the rounds are used up.\<close>

fun acquire_loop :: "throttle \<Rightarrow> round list \<Rightarrow> (bool \<times> throttle \<times> round list) option" where
  "acquire_loop th [] = None"
| "acquire_loop th (r # rs) =
     (case acquire_step th r of
        Stopped \<Rightarrow> Some (False, th, rs)
      | Refilled th' \<Rightarrow> acquire_loop th' rs
      | Taken th' \<Rightarrow> Some (True, th', rs))"

definition ThrottleAcquire :: "throttle \<Rightarrow> round list \<Rightarrow> (bool \<times> throttle \<times> round list) option" where
  "ThrottleAcquire th rs = (if \<not> th_enabled th then Some (False, th, rs) else acquire_loop th rs)"

text \<open>The tokens taken by a workload that acquires again and again.\<close>

fun grants :: "throttle \<Rightarrow> round list \<Rightarrow> nat" where
  "grants th [] = 0"
| "grants th (r # rs) =
     (case acquire_step th r of
        Stopped \<Rightarrow> 0
      | Refilled th' \<Rightarrow> grants th' rs
      | Taken th' \<Rightarrow> Suc (grants th' rs))"

text \<open>The clock does not go back, and a sleep lasts at least until the end of the window.\<close>

fun clock_ok :: "throttle \<Rightarrow> int \<Rightarrow> round list \<Rightarrow> bool" where
  "clock_ok th t [] = True"
| "clock_ok th t (r # rs) =
     (t \<le> rd_now r \<and> rd_now r \<le> rd_wake r \<and> (\<not> sleeps th r \<or> th_window_end th \<le> rd_wake r) \<and>
      (case acquire_step th r of
         Stopped \<Rightarrow> True
       | Refilled th' \<Rightarrow> clock_ok th' (rd_wake r) rs
       | Taken th' \<Rightarrow> clock_ok th' (rd_wake r) rs))"

fun end_time :: "throttle \<Rightarrow> int \<Rightarrow> round list \<Rightarrow> int" where
  "end_time th t [] = t"
| "end_time th t (r # rs) =
     (case acquire_step th r of
        Stopped \<Rightarrow> rd_wake r
      | Refilled th' \<Rightarrow> end_time th' (rd_wake r) rs
      | Taken th' \<Rightarrow> end_time th' (rd_wake r) rs)"

definition file_at_most :: "int \<Rightarrow> string option \<Rightarrow> bool" where
  "file_at_most u content \<longleftrightarrow>
     (case content of None \<Rightarrow> True
      | Some s \<Rightarrow> (case read_long s of None \<Rightarrow> True | Some (v, _) \<Rightarrow> v \<le> u))"

text \<open>What a run of the workload keeps: the settings, and a utilization of at most u.\<close>

definition throttled :: "int \<Rightarrow> int \<Rightarrow> int \<Rightarrow> throttle \<Rightarrow> bool" where
  "throttled u q w th \<longleftrightarrow> th_enabled th \<and> th_quota_unit th = q \<and> window_ns th = w \<and>
     th_utilization_file th \<noteq> [] \<and> th_utilization th \<le> u"

lemma throttled_refill:
  assumes "throttled u q w th" "file_at_most u content" "0 \<le> u" "0 \<le> q"
  shows "throttled u q w (Refill now content th) \<and> th_tokens (Refill now content th) \<le> max 1 (u * q) \<and>
    th_window_end (Refill now content th) = now + w"
proof -
  have r: "ReadUtilization th content \<le> u"
    using assms(1-3) by (auto simp: throttled_def ReadUtilization_def file_at_most_def split: option.splits)
  then have "ReadUtilization th content * q \<le> u * q" using assms(4) by (rule mult_right_mono)
  then show ?thesis using assms(1) r by (auto simp: throttled_def Refill_def window_ns_def Let_def)
qed

lemma throttled_take:
  "throttled u q w th \<Longrightarrow> throttled u q w (th\<lparr>th_tokens := n\<rparr>)"
  by (simp add: throttled_def window_ns_def)

lemma end_time_later: "clock_ok th t rs \<Longrightarrow> t \<le> end_time th t rs"
proof (induction rs arbitrary: th t)
  case (Cons r rs)
  then show ?case by (cases "acquire_step th r") fastforce+
qed simp

lemma grants_bound:
  assumes "throttled u q w th" "clock_ok th t rs" "\<forall>r\<in>set rs. file_at_most u (rd_file r)" "0 \<le> u" "0 \<le> q" "0 < w"
  shows "int (grants th rs) * w \<le> max 0 (th_tokens th) * w + max 1 (u * q) * max 0 (end_time th t rs + w - th_window_end th)"
  using assms(1-3)
proof (induction rs arbitrary: th t)
  case Nil
  have "0 \<le> max 1 (u * q) * max 0 (t + w - th_window_end th)" by (intro mult_nonneg_nonneg) auto
  moreover have "0 \<le> max 0 (th_tokens th) * w" using assms(6) by simp
  ultimately show ?case by simp
next
  case (Cons r rs)
  let ?M = "max 1 (u * q)"
  have M: "0 \<le> ?M" by simp
  have nn: "0 \<le> ?M * max 0 x" "0 \<le> max 0 (th_tokens th) * w" for x :: int
    using assms(6) by (intro mult_nonneg_nonneg; simp)+
  show ?case
  proof (cases "acquire_step th r")
    case Stopped
    then show ?thesis using nn by simp
  next
    case (Taken th')
    then have th': "th' = th\<lparr>th_tokens := th_tokens th - 1\<rparr>" and pos: "0 < th_tokens th"
      by (auto simp: acquire_step_def split: if_splits)
    have "throttled u q w th'" unfolding th' by (rule throttled_take [OF Cons.prems(1)])
    moreover have c: "clock_ok th' (rd_wake r) rs" using Cons.prems(2) Taken by simp
    ultimately have "int (grants th' rs) * w \<le>
        max 0 (th_tokens th') * w + ?M * max 0 (end_time th' (rd_wake r) rs + w - th_window_end th')"
      by (rule Cons.IH) (use Cons.prems(3) in simp)
    moreover have "max 0 (th_tokens th') * w + w = max 0 (th_tokens th) * w" using pos th' by (simp add: algebra_simps)
    moreover have "th_window_end th' = th_window_end th" using th' by simp
    ultimately show ?thesis using Taken by (simp add: algebra_simps)
  next
    case (Refilled th')
    then have th': "th' = Refill (rd_wake r) (rd_file r) th" and due: "rd_now r \<ge> th_window_end th \<or> th_tokens th \<le> 0"
      by (auto simp: acquire_step_def split: if_splits)
    have later: "th_window_end th \<le> rd_wake r" using Cons.prems(2) due by (auto simp: sleeps_def)
    have f: "file_at_most u (rd_file r)" using Cons.prems(3) by simp
    note R = throttled_refill [OF Cons.prems(1) f assms(4,5), of "rd_wake r", folded th']
    have c: "clock_ok th' (rd_wake r) rs" using Cons.prems(2) Refilled by simp
    have "int (grants th' rs) * w \<le>
        max 0 (th_tokens th') * w + ?M * max 0 (end_time th' (rd_wake r) rs + w - th_window_end th')"
      by (rule Cons.IH) (use Cons.prems(3) R c in simp_all)
    also have "\<dots> \<le> ?M * w + ?M * (end_time th' (rd_wake r) rs - rd_wake r)"
      using R end_time_later [OF c] assms(6) by (intro add_mono mult_right_mono) auto
    also have "\<dots> = ?M * (end_time th' (rd_wake r) rs + w - rd_wake r)" by (simp add: algebra_simps)
    also have "\<dots> \<le> ?M * max 0 (end_time th' (rd_wake r) rs + w - th_window_end th)"
      using later M by (intro mult_left_mono) auto
    finally show ?thesis using Refilled nn(2) by simp
  qed
qed

section \<open>From the server's file to the throttle\<close>

lemma parse_decimal_line:
  "0 \<le> u \<Longrightarrow> parse_decimal (to_string u @ newline) = Some (False, nat u, newline)"
proof -
  assume u: "0 \<le> u"
  have n: "to_dec (nat u) \<noteq> []" using to_string_nonempty [of u] u by (simp add: to_string_def)
  have h: "c_isdigit (hd (to_dec (nat u)))" using to_dec_digits hd_in_set [OF n] by blast
  have p: "parse_decimal (CHR '' '' # to_string u @ newline) = Some (u < 0, nat \<bar>u\<bar>, newline)"
    by (rule parse_decimal_then) (simp add: newline_def c_isdigit_def)
  have "\<not> c_isspace (hd (to_dec (nat u)))" using h by (auto simp: c_isspace_def c_isdigit_def)
  then have "dropWhile c_isspace (to_string u @ newline) = to_string u @ newline"
    using n u by (cases "to_dec (nat u)") (auto simp: to_string_def)
  moreover have "c_isspace (CHR '' '')" by (simp add: c_isspace_def)
  ultimately show ?thesis using p u by (simp add: parse_decimal_def)
qed

lemma read_long_line: "0 \<le> u \<Longrightarrow> u \<le> 100 \<Longrightarrow> read_long (to_string u @ newline) = Some (u, newline)"
  by (simp add: read_long_def parse_decimal_line Let_def)

lemma utilization_file_written:
  assumes "ServerWriteRuntimeUtilizationFile H (Some base) subdir u fs = (None, fs')"
  shows "0 \<le> u \<and> u \<le> 100 \<and>
    fs' (names (RuntimeUtilizationPath (LexicallyNormalized base (parse_path subdir)))) = Some (File (to_string u @ newline))"
proof -
  let ?p = "RuntimeUtilizationPath (LexicallyNormalized base (parse_path subdir))"
  obtain fs1 fs2 fs3 where o: "open_trunc H ?p fs1 = Some fs2"
      "write_stream H ?p (to_string u @ newline) fs2 = Some fs3" "fs' = fs3" and u: "0 \<le> u" "u \<le> 100"
    using assms by (auto simp: ServerWriteRuntimeUtilizationFile_def Let_def split: if_splits option.splits)
  have "fs2 (names ?p) = Some (File [])" using o(1) by (auto simp: open_trunc_def split: if_splits)
  then have "fs3 (names ?p) = Some (File (to_string u @ newline))"
    using o(2) by (auto simp: write_stream_def split: if_splits)
  then show ?thesis using o(3) u by simp
qed

section \<open>Properties\<close>

text \<open>The throttle keeps the rate: while the utilization file says at most u, a workload that starts with a
  fresh window takes, whatever its own speed, in any time at most max 1 (u * quota) tokens for
  each window of that time and one window more.\<close>

theorem throttle_rate:
  assumes "throttled u q w th0" "th = Refill t content th0" "clock_ok th t rs"
    "file_at_most u content" "\<forall>r\<in>set rs. file_at_most u (rd_file r)" "0 \<le> u" "0 \<le> q" "0 < w"
  shows "int (grants th rs) * w \<le> max 1 (u * q) * (end_time th t rs - t + w)"
proof -
  let ?M = "max 1 (u * q)"
  note R = throttled_refill [OF assms(1,4,6,7), of t, folded assms(2)]
  have e: "t \<le> end_time th t rs" by (rule end_time_later [OF assms(3)])
  have "int (grants th rs) * w \<le> max 0 (th_tokens th) * w + ?M * max 0 (end_time th t rs + w - th_window_end th)"
    by (rule grants_bound [OF _ assms(3,5-8)]) (use R in simp)
  also have "\<dots> \<le> ?M * w + ?M * (end_time th t rs - t)"
    using R e assms(8) by (intro add_mono mult_right_mono) auto
  also have "\<dots> = ?M * (end_time th t rs - t + w)" by (simp add: algebra_simps)
  finally show ?thesis .
qed

definition demo_throttle :: throttle where
  "demo_throttle = \<lparr>th_enabled = True, th_quota_unit = 1, th_window_ms = 1, th_utilization_file = ''u'',
     th_utilization = 2, th_tokens = 0, th_window_end = 0\<rparr>"

definition demo_throttle_rounds :: "round list" where
  "demo_throttle_rounds = [\<lparr>rd_stop = False, rd_now = 1, rd_wake = 1, rd_file = None\<rparr>,
     \<lparr>rd_stop = False, rd_now = 2, rd_wake = 2, rd_file = None\<rparr>,
     \<lparr>rd_stop = False, rd_now = 3, rd_wake = 1000000, rd_file = Some ''1''\<rparr>,
     \<lparr>rd_stop = False, rd_now = 1000000, rd_wake = 1000000, rd_file = None\<rparr>]"

theorem throttle_rate_witness:
  "int (grants (Refill 0 (Some ''2'') demo_throttle) demo_throttle_rounds) * 1000000 \<le> 2 * (1000000 + 1000000)"
proof -
  let ?th = "Refill 0 (Some ''2'') demo_throttle"
  have r: "read_long ''2'' = Some (2, [])" "read_long ''1'' = Some (1, [])"
    by (simp_all add: read_long_def parse_decimal_def c_isspace_def c_isdigit_def digits_value_def digit_val_def)
  have th: "?th = demo_throttle\<lparr>th_tokens := 2, th_window_end := 1000000\<rparr>"
    by (simp add: Refill_def ReadUtilization_def demo_throttle_def window_ns_def r Let_def)
  have 1: "throttled 2 1 1000000 demo_throttle" by (simp add: throttled_def demo_throttle_def window_ns_def)
  have 2: "clock_ok ?th 0 demo_throttle_rounds"
    unfolding th by (simp add: demo_throttle_rounds_def acquire_step_def sleeps_def demo_throttle_def Refill_def
        window_ns_def ReadUtilization_def r Let_def)
  have e: "end_time ?th 0 demo_throttle_rounds = 1000000"
    unfolding th by (simp add: demo_throttle_rounds_def acquire_step_def demo_throttle_def Refill_def
        window_ns_def ReadUtilization_def r Let_def)
  have f: "file_at_most 2 (Some ''2'')" "\<forall>x\<in>set demo_throttle_rounds. file_at_most 2 (rd_file x)"
    by (simp_all add: file_at_most_def demo_throttle_rounds_def r)
  show ?thesis using throttle_rate [OF 1 refl 2 f] e by simp
qed

text \<open>The number the server writes is the number the workload obeys: after UpdateUtilization has written
  the file of a workspace without an error, a throttle that reads that file runs at exactly the
  requested utilization.\<close>

theorem utilization_reaches_throttle:
  assumes "ServerWriteRuntimeUtilizationFile H (Some base) subdir u fs = (None, fs')" "th_utilization_file th \<noteq> []"
  shows "\<exists>s. fs' (names (RuntimeUtilizationPath (LexicallyNormalized base (parse_path subdir)))) = Some (File s) \<and>
    ReadUtilization th (Some s) = u"
proof -
  note w = utilization_file_written [OF assms(1)]
  then have "ReadUtilization th (Some (to_string u @ newline)) = u"
    using assms(2) by (simp add: ReadUtilization_def read_long_line)
  then show ?thesis using w by blast
qed

theorem utilization_reaches_throttle_witness:
  "\<exists>fs' s. ServerWriteRuntimeUtilizationFile quiet_host (Some demo_root) ''job'' 40 (sv_files demo_server) = (None, fs') \<and>
     fs' [''srv'', ''workspace'', ''job'', ''.drex_utilization''] = Some (File s) \<and> ReadUtilization demo_throttle (Some s) = 40"
proof -
  let ?run = "ServerWriteRuntimeUtilizationFile quiet_host (Some demo_root) ''job'' 40 (sv_files demo_server)"
  have "fst ?run = None" by code_simp
  then have r: "?run = (None, snd ?run)" by (simp add: prod_eq_iff)
  have n: "names (RuntimeUtilizationPath (LexicallyNormalized demo_root (parse_path ''job''))) =
      [''srv'', ''workspace'', ''job'', ''.drex_utilization'']" by code_simp
  have f: "th_utilization_file demo_throttle \<noteq> []" by (simp add: demo_throttle_def)
  from utilization_reaches_throttle [OF r f] show ?thesis using r unfolding n by metis
qed

text \<open>A throttled workload goes on: with at least one token for every window, whatever the file says, a
  caller of Acquire that looks at the clock before its new window is over has its token after at
  most two rounds.\<close>

theorem acquire_two_rounds:
  assumes "th_enabled th" "\<not> rd_stop r" "\<not> rd_stop r'" "rd_now r' < rd_wake r + window_ns th"
    "rd_now r' < th_window_end th \<or> rd_now r \<ge> th_window_end th \<or> th_tokens th \<le> 0"
  shows "\<exists>th' rs'. ThrottleAcquire th (r # r' # rs) = Some (True, th', rs')"
  using assms by (auto simp: ThrottleAcquire_def acquire_step_def Refill_def window_ns_def Let_def)

theorem acquire_two_rounds_witness:
  "\<exists>th' rs'. ThrottleAcquire demo_throttle
     (\<lparr>rd_stop = False, rd_now = 5, rd_wake = 6, rd_file = None\<rparr> # \<lparr>rd_stop = False, rd_now = 7, rd_wake = 7, rd_file = None\<rparr> # []) =
     Some (True, th', rs')"
  by (rule acquire_two_rounds) (simp_all add: demo_throttle_def window_ns_def)

end
