(* ===== verification/WindowSync.thy ===== *)
theory WindowSync
  imports Prelude
begin

text \<open>
  The benchmark of application/gpu\_dynamic\_up: two processes measure in windows that
  ProcessSync (include/utils.h) keeps in step through a counter in shared memory. The windows
  of main/up\_loop.cpp, and the processes as a machine whose steps are a process's arrival at
  Sync and its leaving of it.
\<close>

section \<open>The windows\<close>

definition window_count :: "int \<Rightarrow> int \<Rightarrow> int" where
  "window_count duration_sec window_sec = (duration_sec + window_sec - 1) div window_sec"

definition current_window_sec :: "int \<Rightarrow> int \<Rightarrow> int \<Rightarrow> int" where
  "current_window_sec duration_sec window_sec window_idx =
     min window_sec (duration_sec - (window_idx - 1) * window_sec)"

definition start_target :: "int \<Rightarrow> int" where
  "start_target window_idx = 4 + (window_idx - 1) * 4 + 2"

definition stop_target :: "int \<Rightarrow> int" where
  "stop_target window_idx = 4 + (window_idx - 1) * 4 + 4"

text \<open>The target of each call of Sync that a process makes, from 0: after the model is built, after the
  warm-up, and at the start and the end of each window.\<close>

definition sync_target :: "nat \<Rightarrow> int" where
  "sync_target j =
     (if j = 0 then 2 else if j = 1 then 4
      else if even j then start_target (int (j div 2)) else stop_target (int (j div 2)))"

lemma sync_target_eq: "sync_target j = 2 * (int j + 1)"
proof (cases "even j")
  case True
  then obtain k where "j = 2 * k" by (rule evenE)
  then show ?thesis by (simp add: sync_target_def start_target_def)
next
  case False
  then obtain k where "j = 2 * k + 1" by (rule oddE)
  then show ?thesis by (simp add: sync_target_def stop_target_def)
qed

section \<open>ProcessSync\<close>

record sync_proc =
  sp_returned :: nat
  sp_waiting :: bool

record sync_state =
  ss_count :: int
  ss_proc :: "bool \<Rightarrow> sync_proc"

definition set_proc :: "bool \<Rightarrow> sync_proc \<Rightarrow> sync_state \<Rightarrow> sync_state" where
  "set_proc i p s = s\<lparr>ss_proc := (ss_proc s)(i := p)\<rparr>"

text \<open>The call of Sync up to its wait, under the mutex, and the end of the wait.\<close>

definition sync_arrive :: "bool \<Rightarrow> sync_state \<Rightarrow> sync_state option" where
  "sync_arrive i s =
     (if sp_waiting (ss_proc s i) then None
      else Some (set_proc i ((ss_proc s i)\<lparr>sp_waiting := True\<rparr>) (s\<lparr>ss_count := ss_count s + 1\<rparr>)))"

definition sync_leave :: "bool \<Rightarrow> sync_state \<Rightarrow> sync_state option" where
  "sync_leave i s =
     (if \<not> sp_waiting (ss_proc s i) \<or> ss_count s < sync_target (sp_returned (ss_proc s i)) then None
      else Some (set_proc i \<lparr>sp_returned = sp_returned (ss_proc s i) + 1, sp_waiting = False\<rparr> s))"

definition sync_start :: "int \<Rightarrow> sync_state" where
  "sync_start n = \<lparr>ss_count = n, ss_proc = \<lambda>_. \<lparr>sp_returned = 0, sp_waiting = False\<rparr>\<rparr>"

inductive sync_reach :: "int \<Rightarrow> sync_state \<Rightarrow> bool" for n where
  begin_run: "sync_reach n (sync_start n)"
| arrive: "sync_reach n s \<Longrightarrow> sync_arrive i s = Some s' \<Longrightarrow> sync_reach n s'"
| leave: "sync_reach n s \<Longrightarrow> sync_leave i s = Some s' \<Longrightarrow> sync_reach n s'"

inductive_cases sync_reachE: "sync_reach n s"

definition arrived :: "sync_state \<Rightarrow> bool \<Rightarrow> nat" where
  "arrived s i = sp_returned (ss_proc s i) + (if sp_waiting (ss_proc s i) then 1 else 0)"

text \<open>With a counter that starts at 0: it counts the arrivals, and nobody has returned more often than the
  other has arrived.\<close>

definition sync_ok :: "sync_state \<Rightarrow> bool" where
  "sync_ok s \<longleftrightarrow> ss_count s = int (arrived s True) + int (arrived s False) \<and>
     sp_returned (ss_proc s True) \<le> arrived s False \<and> sp_returned (ss_proc s False) \<le> arrived s True"

lemma arrive_ok: "sync_ok s \<Longrightarrow> sync_arrive i s = Some s' \<Longrightarrow> sync_ok s'"
  by (cases i) (auto simp: sync_ok_def sync_arrive_def arrived_def set_proc_def split: if_splits)

lemma leave_ok: "sync_ok s \<Longrightarrow> sync_leave i s = Some s' \<Longrightarrow> sync_ok s'"
  by (cases i) (auto simp: sync_ok_def sync_leave_def sync_target_eq arrived_def set_proc_def split: if_splits)

lemma sync_reach_ok: "sync_reach 0 s \<Longrightarrow> sync_ok s"
proof (induction rule: sync_reach.induct)
  case begin_run
  then show ?case by (simp add: sync_ok_def sync_start_def arrived_def)
qed (rule arrive_ok leave_ok; assumption)+

section \<open>Properties\<close>


text \<open>The barrier opens: when both processes wait, one of them can leave.\<close>

theorem barrier_opens:
  assumes "sync_reach 0 s" "sp_waiting (ss_proc s True)" "sp_waiting (ss_proc s False)"
  shows "\<exists>i. sync_leave i s \<noteq> None"
proof -
  have ok: "ss_count s = int (sp_returned (ss_proc s True)) + int (sp_returned (ss_proc s False)) + 2"
    using sync_reach_ok [OF assms(1)] assms(2,3) by (simp add: sync_ok_def arrived_def)
  show ?thesis
  proof (cases "sp_returned (ss_proc s True) \<le> sp_returned (ss_proc s False)")
    case True
    then have "sync_leave True s \<noteq> None" using ok assms(2) by (simp add: sync_leave_def sync_target_eq)
    then show ?thesis by blast
  next
    case False
    then have "sync_leave False s \<noteq> None" using ok assms(3) by (simp add: sync_leave_def sync_target_eq)
    then show ?thesis by blast
  qed
qed

text \<open>The counter outlives a run: the program never resets the shared memory, run.sh removes it only when
  GPU\_DYNAMIC\_UP\_RESET\_SYNC is set, and on a counter left at 4 by an earlier run a process passes its first two barriers before the other has even started.\<close>

theorem stale_counter_no_barrier:
  "\<exists>s. sync_reach 4 s \<and> sp_returned (ss_proc s True) = 2 \<and> arrived s False = 0"
proof -
  have "case sync_arrive True (sync_start 4) of None \<Rightarrow> False | Some a \<Rightarrow>
      (case sync_leave True a of None \<Rightarrow> False | Some b \<Rightarrow>
      (case sync_arrive True b of None \<Rightarrow> False | Some c \<Rightarrow>
      (case sync_leave True c of None \<Rightarrow> False | Some d \<Rightarrow>
         sp_returned (ss_proc d True) = 2 \<and> arrived d False = 0)))" by code_simp
  then obtain a b c d where r: "sync_arrive True (sync_start 4) = Some a" "sync_leave True a = Some b"
      "sync_arrive True b = Some c" "sync_leave True c = Some d"
      and d: "sp_returned (ss_proc d True) = 2 \<and> arrived d False = 0"
    by (auto split: option.splits)
  have "sync_reach 4 d" by (rule leave [OF arrive [OF leave [OF arrive [OF begin_run r(1)] r(2)] r(3)] r(4)])
  then show ?thesis using d by blast
qed

text \<open>The windows cover the run: there are as many as are needed, each lasts from one second to the window
  length, and together they last the whole duration.\<close>

theorem windows_cover_duration:
  assumes "0 < d" "0 < w"
  shows "0 < window_count d w \<and>
    (\<forall>k\<in>{1..window_count d w}. 0 < current_window_sec d w k \<and> current_window_sec d w k \<le> w) \<and>
    (\<Sum>k\<in>{1..window_count d w}. current_window_sec d w k) = d"
proof -
  define c where "c = window_count d w"
  have m: "(d + w - 1) div w * w + (d + w - 1) mod w = d + w - 1" by simp
  have r: "0 \<le> (d + w - 1) mod w" "(d + w - 1) mod w < w" using assms(2) by simp_all
  have up: "d \<le> c * w" using m r unfolding c_def window_count_def by linarith
  have "c * w \<le> d + w - 1" using m r unfolding c_def window_count_def by linarith
  then have low: "(c - 1) * w < d" by (simp add: algebra_simps)
  have pos: "0 < c" using up assms by (metis less_le_trans zero_less_mult_pos2)
  have before: "current_window_sec d w k = w" if "k \<le> c - 1" for k
  proof -
    have "k * w \<le> (c - 1) * w" using that assms(2) by (intro mult_right_mono) auto
    then show ?thesis using low by (simp add: current_window_sec_def algebra_simps)
  qed
  have final: "current_window_sec d w c = d - (c - 1) * w"
    using up by (simp add: current_window_sec_def algebra_simps)
  have "0 < current_window_sec d w k \<and> current_window_sec d w k \<le> w" if k: "k \<in> {1..c}" for k
  proof (cases "k = c")
    case True
    then show ?thesis using final low up by (simp add: algebra_simps)
  next
    case False
    then show ?thesis using before [of k] k assms(2) by simp
  qed
  moreover have "(\<Sum>k\<in>{1..c}. current_window_sec d w k) = d"
  proof -
    have "{1..c} = insert c {1..c - 1}" using pos by auto
    then have "(\<Sum>k\<in>{1..c}. current_window_sec d w k) = current_window_sec d w c + (\<Sum>k\<in>{1..c - 1}. current_window_sec d w k)"
      by simp
    also have "(\<Sum>k\<in>{1..c - 1}. current_window_sec d w k) = (\<Sum>k\<in>{1..c - 1}. w)" by (rule sum.cong) (simp_all add: before)
    also have "\<dots> = (c - 1) * w" using pos by simp
    finally show ?thesis using final by simp
  qed
  ultimately show ?thesis using pos unfolding c_def by simp
qed

theorem windows_cover_duration_witness:
  "(\<Sum>k\<in>{1..window_count 12 5}. current_window_sec 12 5 k) = 12 \<and> window_count 12 5 = 3"
  using windows_cover_duration [of 12 5] by (simp add: window_count_def)

definition sync_demo :: sync_state where
  "sync_demo = set_proc True \<lparr>sp_returned = 0, sp_waiting = True\<rparr>
     (set_proc False \<lparr>sp_returned = 0, sp_waiting = True\<rparr> (sync_start 2))"

lemma sync_demo_reach: "sync_reach 0 sync_demo"
proof -
  have a: "sync_arrive False (sync_start 0) = Some (set_proc False \<lparr>sp_returned = 0, sp_waiting = True\<rparr> (sync_start 1))"
    by (simp add: sync_arrive_def sync_start_def set_proc_def)
  have b: "sync_arrive True (set_proc False \<lparr>sp_returned = 0, sp_waiting = True\<rparr> (sync_start 1)) = Some sync_demo"
    by (simp add: sync_arrive_def sync_start_def set_proc_def sync_demo_def)
  show ?thesis by (rule arrive [OF arrive [OF begin_run a] b])
qed


theorem barrier_opens_witness: "\<exists>i. sync_leave i sync_demo \<noteq> None"
  by (rule barrier_opens [OF sync_demo_reach]) (simp_all add: sync_demo_def set_proc_def)

end
