(* ===== verification/Tensors.thy ===== *)
theory Tensors
  imports HostFs CString Endings
begin

text \<open>
  The tensors of the GPU workloads, application/gpu\_token\_up/trt/src/tensor.cpp (the other two
  GPU programs have the same file): a buffer of the device and two of the host, the copies
  between them on a CUDA stream, and the files they are loaded from and saved to. CUDA, malloc
  and rand are parameters: which addresses they give, what fresh memory holds, which call fails.
  What CUDA documents of a stream is modelled: its operations run in the order they were
  submitted, at the latest when the stream is synchronised. Log lines are kept as texts.
\<close>

section \<open>Memory and the stream\<close>

type_synonym addr = nat
type_synonym pointer = "addr option"

datatype stream_op =
    MemcpyHostToDevice pointer pointer nat
  | MemcpyDeviceToHost pointer pointer nat
  | Memset pointer nat
  | Execute "(string \<times> bool \<times> pointer) list"

record memory =
  m_host :: "addr \<Rightarrow> string option"
  m_dev :: "addr \<Rightarrow> string option"
  m_queue :: "stream_op list"
  m_calls :: nat
  m_log :: "string list"

text \<open>What the libraries do: the address of a new block (None: NULL, or an error of cudaMalloc), the bytes
  it holds at first, the CUDA call that fails, the values of rand, the read of a file that fails, and the
  byte at each place of an output that the engine computes from its inputs.\<close>

record runtime =
  rt_malloc :: "memory \<Rightarrow> nat \<Rightarrow> pointer"
  rt_cuda_malloc :: "memory \<Rightarrow> nat \<Rightarrow> pointer"
  rt_junk :: "nat \<Rightarrow> char"
  rt_cuda_fails :: "nat \<Rightarrow> bool"
  rt_rand :: "nat \<Rightarrow> nat"
  rt_read_fails :: "string \<Rightarrow> bool"
  rt_infer :: "(string \<Rightarrow> string option) \<Rightarrow> string \<Rightarrow> nat \<Rightarrow> char"

text \<open>The documented behaviour of the two allocators: a new block is not one that is in use.\<close>

definition fresh_blocks :: "runtime \<Rightarrow> bool" where
  "fresh_blocks rt \<longleftrightarrow>
     (\<forall>m n a. rt_malloc rt m n = Some a \<longrightarrow> m_host m a = None) \<and>
     (\<forall>m n a. rt_cuda_malloc rt m n = Some a \<longrightarrow> m_dev m a = None)"

definition log_line :: "string \<Rightarrow> string \<Rightarrow> memory \<Rightarrow> memory" where
  "log_line level text m = m\<lparr>m_log := m_log m @ [''['' @ level @ ''] '' @ text]\<rparr>"

text \<open>CUDART\_ASSERT of trt/include/cuda\_assert.h around one call.\<close>

definition CUDART_ASSERT :: "runtime \<Rightarrow> memory \<Rightarrow> memory ending" where
  "CUDART_ASSERT rt m =
     (if rt_cuda_fails rt (m_calls m) then Aborted else Done (m\<lparr>m_calls := m_calls m + 1\<rparr>))"

definition block_read :: "(addr \<Rightarrow> string option) \<Rightarrow> pointer \<Rightarrow> nat \<Rightarrow> string option" where
  "block_read mem p n =
     (case p of None \<Rightarrow> None
      | Some a \<Rightarrow> (case mem a of None \<Rightarrow> None
                   | Some bs \<Rightarrow> if n \<le> length bs then Some (take n bs) else None))"

definition block_write ::
  "(addr \<Rightarrow> string option) \<Rightarrow> pointer \<Rightarrow> string \<Rightarrow> (addr \<Rightarrow> string option) option" where
  "block_write mem p xs =
     (case p of None \<Rightarrow> None
      | Some a \<Rightarrow> (case mem a of None \<Rightarrow> None
                   | Some bs \<Rightarrow> if length xs \<le> length bs then Some (mem(a \<mapsto> xs @ drop (length xs) bs)) else None))"

text \<open>One operation of the stream, when its turn comes.\<close>

fun execute_inputs :: "(addr \<Rightarrow> string option) \<Rightarrow> (string \<times> bool \<times> pointer) list \<Rightarrow> string \<Rightarrow> string option" where
  "execute_inputs dev [] = (\<lambda>_. None)"
| "execute_inputs dev ((name, is_input, p) # bs) =
     (let rest = execute_inputs dev bs
      in if is_input then rest(name := (case p of None \<Rightarrow> None | Some a \<Rightarrow> dev a)) else rest)"

fun execute_outputs ::
  "runtime \<Rightarrow> (string \<Rightarrow> string option) \<Rightarrow> (string \<times> bool \<times> pointer) list \<Rightarrow> (addr \<Rightarrow> string option) \<Rightarrow>
     (addr \<Rightarrow> string option) option" where
  "execute_outputs rt ins [] dev = Some dev"
| "execute_outputs rt ins ((name, is_input, p) # bs) dev =
     (if is_input then execute_outputs rt ins bs dev
      else case p of None \<Rightarrow> None
        | Some a \<Rightarrow> (case dev a of None \<Rightarrow> None
            | Some old \<Rightarrow> execute_outputs rt ins bs (dev(a \<mapsto> map (rt_infer rt ins name) [0..<length old]))))"

fun run_op :: "runtime \<Rightarrow> stream_op \<Rightarrow> memory \<Rightarrow> memory ending" where
  "run_op rt (MemcpyHostToDevice dst src n) m =
     bind_o (defined_o (block_read (m_host m) src n)) (\<lambda>xs.
     bind_o (defined_o (block_write (m_dev m) dst xs)) (\<lambda>d. Done (m\<lparr>m_dev := d\<rparr>)))"
| "run_op rt (MemcpyDeviceToHost dst src n) m =
     bind_o (defined_o (block_read (m_dev m) src n)) (\<lambda>xs.
     bind_o (defined_o (block_write (m_host m) dst xs)) (\<lambda>h. Done (m\<lparr>m_host := h\<rparr>)))"
| "run_op rt (Memset dst n) m =
     bind_o (defined_o (block_write (m_dev m) dst (replicate n (CHR 0x00)))) (\<lambda>d. Done (m\<lparr>m_dev := d\<rparr>))"
| "run_op rt (Execute bs) m =
     bind_o (defined_o (execute_outputs rt (execute_inputs (m_dev m) bs) bs (m_dev m))) (\<lambda>d. Done (m\<lparr>m_dev := d\<rparr>))"

declare run_op.simps [simp del]

definition submit :: "runtime \<Rightarrow> stream_op \<Rightarrow> memory \<Rightarrow> memory ending" where
  "submit rt c m = bind_o (CUDART_ASSERT rt m) (\<lambda>m. Done (m\<lparr>m_queue := m_queue m @ [c]\<rparr>))"

definition StreamSynchronize :: "runtime \<Rightarrow> memory \<Rightarrow> memory ending" where
  "StreamSynchronize rt m =
     bind_o (fold_o (run_op rt) (m_queue m) (m\<lparr>m_queue := []\<rparr>)) (CUDART_ASSERT rt)"

section \<open>Element types\<close>

text \<open>The types of nvinfer1::DataType that the code names, and the others.\<close>

datatype DataType = kFLOAT | kHALF | kINT8 | kINT32 | kBOOL | kOTHER nat

fun GetSize :: "DataType \<Rightarrow> nat ending" where
  "GetSize kFLOAT = Done 4"
| "GetSize kHALF = Done 2"
| "GetSize kINT8 = Done 1"
| "GetSize kINT32 = Done 4"
| "GetSize kBOOL = Done 1"
| "GetSize (kOTHER k) = Aborted"

fun GetTypeName :: "DataType \<Rightarrow> string ending" where
  "GetTypeName kFLOAT = Done ''FLOAT''"
| "GetTypeName kHALF = Done ''HALF''"
| "GetTypeName kINT8 = Done ''INT8''"
| "GetTypeName kINT32 = Done ''INT32''"
| "GetTypeName kBOOL = Done ''BOOL''"
| "GetTypeName (kOTHER k) = Aborted"

lemma type_known: "GetSize t = Done n \<Longrightarrow> 0 < n \<and> n \<le> 4 \<and> (\<exists>s. GetTypeName t = Done s)"
  by (cases t) auto

section \<open>The class Tensor\<close>

text \<open>nvinfer1::Dims: a count, and an array of eight extents.\<close>

record dims =
  nbDims :: int
  d_of :: "int list"

record tensor =
  t_size :: nat
  t_dims :: dims
  t_name :: string
  t_host :: pointer
  t_device :: pointer
  t_correct :: pointer

definition new_block :: "runtime \<Rightarrow> nat \<Rightarrow> string" where
  "new_block rt n = map (rt_junk rt) [0..<n]"

definition malloc :: "runtime \<Rightarrow> nat \<Rightarrow> memory \<Rightarrow> pointer \<times> memory" where
  "malloc rt n m =
     (case rt_malloc rt m n of
        None \<Rightarrow> (None, m)
      | Some a \<Rightarrow> (Some a, m\<lparr>m_host := (m_host m)(a \<mapsto> new_block rt n)\<rparr>))"

definition cudaMalloc :: "runtime \<Rightarrow> nat \<Rightarrow> memory \<Rightarrow> (pointer \<times> memory) ending" where
  "cudaMalloc rt n m =
     (case rt_cuda_malloc rt m n of
        None \<Rightarrow> Aborted
      | Some a \<Rightarrow> bind_o (CUDART_ASSERT rt m)
          (\<lambda>m. Done (Some a, m\<lparr>m_dev := (m_dev m)(a \<mapsto> new_block rt n)\<rparr>)))"

definition new_Tensor :: "runtime \<Rightarrow> nat \<Rightarrow> dims \<Rightarrow> string \<Rightarrow> memory \<Rightarrow> (tensor \<times> memory) ending" where
  "new_Tensor rt sz d name m =
     (let (correct_buf, m) = malloc rt sz m;
          (host_buf, m) = malloc rt sz m
      in bind_o (cudaMalloc rt sz m) (\<lambda>(device_buf, m).
           Done (\<lparr>t_size = sz, t_dims = d, t_name = name, t_host = host_buf, t_device = device_buf,
                  t_correct = correct_buf\<rparr>, m)))"

text \<open>The destructor: cudaFree of the device buffer, nothing for the others.\<close>

definition destroy_Tensor :: "runtime \<Rightarrow> tensor \<Rightarrow> memory \<Rightarrow> memory ending" where
  "destroy_Tensor rt t m =
     bind_o (CUDART_ASSERT rt m) (\<lambda>m.
       Done (case t_device t of None \<Rightarrow> m | Some a \<Rightarrow> m\<lparr>m_dev := (m_dev m)(a := None)\<rparr>))"

definition CopyToHostAsync :: "runtime \<Rightarrow> tensor \<Rightarrow> memory \<Rightarrow> memory ending" where
  "CopyToHostAsync rt t = submit rt (MemcpyDeviceToHost (t_host t) (t_device t) (t_size t))"

definition CopyToDeviceAsync :: "runtime \<Rightarrow> tensor \<Rightarrow> memory \<Rightarrow> memory ending" where
  "CopyToDeviceAsync rt t = submit rt (MemcpyHostToDevice (t_device t) (t_host t) (t_size t))"

definition Clear :: "runtime \<Rightarrow> tensor \<Rightarrow> memory \<Rightarrow> memory ending" where
  "Clear rt t = submit rt (Memset (t_device t) (t_size t))"

definition memcpy :: "pointer \<Rightarrow> pointer \<Rightarrow> nat \<Rightarrow> memory \<Rightarrow> memory ending" where
  "memcpy dst src n m =
     bind_o (defined_o (block_read (m_host m) src n)) (\<lambda>xs.
     bind_o (defined_o (block_write (m_host m) dst xs)) (\<lambda>h. Done (m\<lparr>m_host := h\<rparr>)))"

definition memcmp_equal :: "pointer \<Rightarrow> pointer \<Rightarrow> nat \<Rightarrow> memory \<Rightarrow> bool ending" where
  "memcmp_equal p q n m =
     bind_o (defined_o (block_read (m_host m) p n)) (\<lambda>xs.
     bind_o (defined_o (block_read (m_host m) q n)) (\<lambda>ys. Done (xs = ys)))"

definition CopyTo :: "tensor \<Rightarrow> pointer \<Rightarrow> memory \<Rightarrow> memory ending" where
  "CopyTo t dst = memcpy dst (t_host t) (t_size t)"

definition CopyFrom :: "tensor \<Rightarrow> pointer \<Rightarrow> memory \<Rightarrow> memory ending" where
  "CopyFrom t src = memcpy (t_host t) src (t_size t)"

definition SaveCorrect :: "tensor \<Rightarrow> memory \<Rightarrow> memory ending" where
  "SaveCorrect t = memcpy (t_correct t) (t_host t) (t_size t)"

definition CheckCorrect :: "tensor \<Rightarrow> memory \<Rightarrow> bool ending" where
  "CheckCorrect t = memcmp_equal (t_correct t) (t_host t) (t_size t)"

definition Compare :: "tensor \<Rightarrow> pointer \<Rightarrow> memory \<Rightarrow> bool ending" where
  "Compare t buf = memcmp_equal (t_host t) buf (t_size t)"

section \<open>Files\<close>

definition int_bytes :: "nat \<Rightarrow> string" where
  "int_bytes v = map (\<lambda>k. char_of (v div 256 ^ k)) [0..<4]"

text \<open>Whole ints first, then the bytes that are left over.\<close>

definition FillRandom :: "runtime \<Rightarrow> nat \<Rightarrow> string" where
  "FillRandom rt sz =
     (let size4 = sz div 4
      in concat (map (\<lambda>i. int_bytes (rt_rand rt i)) [0..<size4]) @
         map (\<lambda>i. char_of (rt_rand rt (size4 + i))) [0..<sz - size4 * 4])"

definition file_text :: "files \<Rightarrow> path \<Rightarrow> string option" where
  "file_text fs p = (case fs (names p) of Some (File s) \<Rightarrow> Some s | _ \<Rightarrow> None)"

text \<open>Load, from the content that the stream finds; None: the stream is not good.\<close>

definition Load :: "runtime \<Rightarrow> tensor \<Rightarrow> string \<Rightarrow> string option \<Rightarrow> memory \<Rightarrow> memory ending" where
  "Load rt t filename content m =
     (case content of
        None \<Rightarrow>
          bind_o (defined_o (block_write (m_host m) (t_host t) (FillRandom rt (t_size t)))) (\<lambda>h.
            Done (log_line ''WARN'' (''[TENSOR] input tensor file '' @ filename @ '' does not exist, tensor '' @
              t_name t @ '' will be randoms'') (m\<lparr>m_host := h\<rparr>)))
      | Some bytes \<Rightarrow>
          if length bytes \<noteq> t_size t then Aborted
          else
            let m = log_line ''INFO'' (''[TENSOR] load '' @ filename @ '' to tensor '' @ t_name t @ '' ('' @
                  to_dec (t_size t) @ '' Bytes)'') m
            in if rt_read_fails rt bytes then Aborted
               else bind_o (defined_o (block_write (m_host m) (t_host t) bytes)) (\<lambda>h. Done (m\<lparr>m_host := h\<rparr>)))"

text \<open>Save: neither the opening of the file nor the write is looked at.\<close>

definition Save ::
  "host \<Rightarrow> tensor \<Rightarrow> path \<Rightarrow> memory \<Rightarrow> files \<Rightarrow> (memory \<times> files) ending" where
  "Save H t p m fs =
     (let m = log_line ''INFO'' (''[TENSOR] save tensor '' @ t_name t @ '' ('' @ to_dec (t_size t) @ '' Bytes) to '' @
            path_string p) m
      in case open_trunc H p fs of
           None \<Rightarrow> Done (m, fs)
         | Some fs' \<Rightarrow>
             bind_o (defined_o (block_read (m_host m) (t_host t) (t_size t))) (\<lambda>bytes.
               Done (m, case write_stream H p bytes fs' of None \<Rightarrow> fs' | Some fs'' \<Rightarrow> fs'')))"

section \<open>Well-formed tensors\<close>

definition contents :: "(addr \<Rightarrow> string option) \<Rightarrow> pointer \<Rightarrow> string option" where
  "contents mem p = (case p of None \<Rightarrow> None | Some a \<Rightarrow> mem a)"

text \<open>A tensor whose three buffers were allocated: three blocks of its size, the two of the host distinct.\<close>

definition tensor_ok :: "memory \<Rightarrow> tensor \<Rightarrow> bool" where
  "tensor_ok m t \<longleftrightarrow>
     (\<exists>bs. contents (m_host m) (t_host t) = Some bs \<and> length bs = t_size t) \<and>
     (\<exists>bs. contents (m_dev m) (t_device t) = Some bs \<and> length bs = t_size t) \<and>
     (\<exists>bs. contents (m_host m) (t_correct t) = Some bs \<and> length bs = t_size t) \<and>
     t_host t \<noteq> t_correct t"

lemma contents_None [simp]: "contents mem None = None"
  by (simp add: contents_def)

lemma contents_Some [simp]: "contents mem (Some a) = mem a"
  by (simp add: contents_def)

lemma contents_pointer: "contents mem p = Some bs \<Longrightarrow> \<exists>a. p = Some a \<and> mem a = Some bs"
  by (cases p) auto

lemma block_read_full: "contents mem p = Some bs \<Longrightarrow> length bs = n \<Longrightarrow> block_read mem p n = Some bs"
  by (cases p) (auto simp: block_read_def)

lemma block_write_full:
  assumes "contents mem p = Some old" "length xs = length old"
  shows "\<exists>mem'. block_write mem p xs = Some mem' \<and> contents mem' p = Some xs \<and>
    (\<forall>q. q \<noteq> p \<longrightarrow> contents mem' q = contents mem q) \<and> dom mem' = dom mem"
proof -
  obtain a where a: "p = Some a" "mem a = Some old" using contents_pointer [OF assms(1)] by blast
  then have "block_write mem p xs = Some (mem(a \<mapsto> xs))" using assms(2) by (simp add: block_write_def)
  moreover have "contents (mem(a \<mapsto> xs)) q = contents mem q" if "q \<noteq> p" for q
    using that a by (cases q) auto
  ultimately show ?thesis using a by auto
qed

lemma CUDART_ASSERT_Done:
  "CUDART_ASSERT rt m = Done m' \<longleftrightarrow> \<not> rt_cuda_fails rt (m_calls m) \<and> m' = m\<lparr>m_calls := m_calls m + 1\<rparr>"
  by (auto simp: CUDART_ASSERT_def)

lemma submit_Done:
  "submit rt c m = Done m' \<longleftrightarrow>
     \<not> rt_cuda_fails rt (m_calls m) \<and> m' = m\<lparr>m_calls := m_calls m + 1, m_queue := m_queue m @ [c]\<rparr>"
  by (auto simp: submit_def CUDART_ASSERT_Done)

lemma tensor_ok_calls [simp]: "tensor_ok (m\<lparr>m_calls := n\<rparr>) t = tensor_ok m t"
  by (simp add: tensor_ok_def)

lemma tensor_ok_queue [simp]: "tensor_ok (m\<lparr>m_queue := q\<rparr>) t = tensor_ok m t"
  by (simp add: tensor_ok_def)

lemma tensor_ok_log [simp]: "tensor_ok (log_line l s m) t = tensor_ok m t"
  by (simp add: tensor_ok_def log_line_def)

lemma log_line_mem [simp]:
  "m_host (log_line l s m) = m_host m" "m_dev (log_line l s m) = m_dev m" "m_queue (log_line l s m) = m_queue m"
  "m_calls (log_line l s m) = m_calls m"
  by (simp_all add: log_line_def)

lemma new_block_length [simp]: "length (new_block rt n) = n"
  by (simp add: new_block_def)

lemma FillRandom_length [simp]: "length (FillRandom rt n) = n"
proof -
  have "length (concat (map (\<lambda>i. int_bytes (rt_rand rt i)) [0..<k])) = 4 * k" for k
    by (induction k) (auto simp: int_bytes_def)
  then show ?thesis by (simp add: FillRandom_def Let_def)
qed

lemma malloc_frame:
  assumes "fresh_blocks rt" "malloc rt n m = (p, m')"
  shows "m_dev m' = m_dev m" "m_queue m' = m_queue m" "m_calls m' = m_calls m"
    and "m_host m a \<noteq> None \<Longrightarrow> m_host m' a = m_host m a"
    and "p = Some h \<Longrightarrow> m_host m h = None \<and> m_host m' h = Some (new_block rt n)"
proof -
  have f: "rt_malloc rt m n = Some a \<Longrightarrow> m_host m a = None" for a
    using assms(1) unfolding fresh_blocks_def by blast
  show "m_dev m' = m_dev m" "m_queue m' = m_queue m" "m_calls m' = m_calls m"
    using assms(2) by (auto simp: malloc_def split: option.splits)
  show "m_host m a \<noteq> None \<Longrightarrow> m_host m' a = m_host m a"
    using assms(2) f by (auto simp: malloc_def split: option.splits)
  show "p = Some h \<Longrightarrow> m_host m h = None \<and> m_host m' h = Some (new_block rt n)"
    using assms(2) f by (auto simp: malloc_def split: option.splits)
qed

lemma cudaMalloc_frame:
  assumes "fresh_blocks rt" "cudaMalloc rt n m = Done (p, m')"
  shows "\<exists>a. p = Some a \<and> m_dev m a = None \<and>
    m' = m\<lparr>m_calls := m_calls m + 1, m_dev := (m_dev m)(a \<mapsto> new_block rt n)\<rparr>"
proof -
  obtain a where a: "rt_cuda_malloc rt m n = Some a" using assms(2) by (auto simp: cudaMalloc_def split: option.splits)
  then have "m_dev m a = None" using assms(1) unfolding fresh_blocks_def by blast
  then show ?thesis using assms(2) a by (intro exI [of _ a]) (auto simp: cudaMalloc_def CUDART_ASSERT_Done)
qed

lemma new_Tensor_parts:
  assumes "new_Tensor rt n d name m = Done (t, m')"
  obtains m1 m2 where "malloc rt n m = (t_correct t, m1)" "malloc rt n m1 = (t_host t, m2)"
    "cudaMalloc rt n m2 = Done (t_device t, m')" "t_size t = n" "t_dims t = d" "t_name t = name"
proof -
  obtain c m1 where 1: "malloc rt n m = (c, m1)" by (cases "malloc rt n m")
  obtain h m2 where 2: "malloc rt n m1 = (h, m2)" by (cases "malloc rt n m1")
  obtain v where 3: "cudaMalloc rt n m2 = Done (v, m')" "t = \<lparr>t_size = n, t_dims = d, t_name = name,
      t_host = h, t_device = v, t_correct = c\<rparr>"
    using assms 1 2 by (auto simp: new_Tensor_def)
  show thesis using that [of m1 m2] 1 2 3 by simp
qed

text \<open>A new tensor: its blocks are its own, and every block that was there is as it was.\<close>

lemma new_Tensor_frame:
  assumes "fresh_blocks rt" "new_Tensor rt n d name m = Done (t, m')"
  shows "t_size t = n \<and> t_dims t = d \<and> t_name t = name \<and> m_queue m' = m_queue m \<and>
    (\<exists>a. t_device t = Some a \<and> m_dev m a = None \<and> m_dev m' = (m_dev m)(a \<mapsto> new_block rt n)) \<and>
    (\<forall>a. m_host m a \<noteq> None \<longrightarrow> m_host m' a = m_host m a)"
proof -
  obtain m1 m2 where p: "malloc rt n m = (t_correct t, m1)" "malloc rt n m1 = (t_host t, m2)"
    "cudaMalloc rt n m2 = Done (t_device t, m')" "t_size t = n" "t_dims t = d" "t_name t = name"
    using new_Tensor_parts [OF assms(2)] .
  note f = malloc_frame [OF assms(1) p(1)] malloc_frame [OF assms(1) p(2)]
  from cudaMalloc_frame [OF assms(1) p(3)] f p(4-6) show ?thesis by auto
qed

lemma new_Tensor_host:
  assumes "fresh_blocks rt" "new_Tensor rt n d name m = Done (t, m')"
  shows "t_host t = Some h \<Longrightarrow> m_host m h = None \<and> m_host m' h = Some (new_block rt n)"
    and "t_correct t = Some c \<Longrightarrow> m_host m c = None \<and> m_host m' c = Some (new_block rt n) \<and> t_host t \<noteq> Some c"
proof -
  obtain m1 m2 where p: "malloc rt n m = (t_correct t, m1)" "malloc rt n m1 = (t_host t, m2)"
    "cudaMalloc rt n m2 = Done (t_device t, m')" using new_Tensor_parts [OF assms(2)] .
  note f = malloc_frame [OF assms(1) p(1)] and g = malloc_frame [OF assms(1) p(2)]
  have last_host: "m_host m' = m_host m2" using cudaMalloc_frame [OF assms(1) p(3)] by auto
  show "t_host t = Some h \<Longrightarrow> m_host m h = None \<and> m_host m' h = Some (new_block rt n)"
    using g(5) [of h] f(4) [of h] last_host by (cases "m_host m h") auto
  show "t_correct t = Some c \<Longrightarrow> m_host m c = None \<and> m_host m' c = Some (new_block rt n) \<and> t_host t \<noteq> Some c"
    using f(5) [of c] g(4) [of c] g(5) [of c] last_host by auto
qed

lemma new_Tensor_ok:
  assumes "fresh_blocks rt" "new_Tensor rt n d name m = Done (t, m')" "t_host t \<noteq> None" "t_correct t \<noteq> None"
  shows "tensor_ok m' t"
proof -
  obtain h c where hc: "t_host t = Some h" "t_correct t = Some c" using assms(3,4) by blast
  show ?thesis
    using new_Tensor_frame [OF assms(1,2)] new_Tensor_host [OF assms(1,2)] hc by (auto simp: tensor_ok_def)
qed

section \<open>The operations on a well-formed tensor\<close>

lemma memcpy_ok:
  assumes "contents (m_host m) src = Some xs" "contents (m_host m) dst = Some old" "length xs = n" "length old = n"
  shows "\<exists>m'. memcpy dst src n m = Done m' \<and> contents (m_host m') dst = Some xs \<and>
    (\<forall>q. q \<noteq> dst \<longrightarrow> contents (m_host m') q = contents (m_host m) q) \<and> dom (m_host m') = dom (m_host m) \<and>
    m_dev m' = m_dev m \<and> m_queue m' = m_queue m \<and> m_calls m' = m_calls m"
proof -
  obtain h where h: "block_write (m_host m) dst xs = Some h" "contents h dst = Some xs"
    "\<forall>q. q \<noteq> dst \<longrightarrow> contents h q = contents (m_host m) q" "dom h = dom (m_host m)"
    using block_write_full [OF assms(2), of xs] assms(3,4) by auto
  then have "memcpy dst src n m = Done (m\<lparr>m_host := h\<rparr>)"
    using block_read_full [OF assms(1,3)] by (simp add: memcpy_def defined_o_def)
  then show ?thesis using h by simp
qed

text \<open>What keeps a tensor well-formed: its blocks keep their lengths.\<close>

lemma tensor_ok_transfer:
  assumes "tensor_ok m t"
    "\<And>p bs. contents (m_host m) p = Some bs \<Longrightarrow> \<exists>bs'. contents (m_host m') p = Some bs' \<and> length bs' = length bs"
    "\<And>p bs. contents (m_dev m) p = Some bs \<Longrightarrow> \<exists>bs'. contents (m_dev m') p = Some bs' \<and> length bs' = length bs"
  shows "tensor_ok m' t"
proof -
  obtain hb db cb where b: "contents (m_host m) (t_host t) = Some hb" "length hb = t_size t"
    "contents (m_dev m) (t_device t) = Some db" "length db = t_size t"
    "contents (m_host m) (t_correct t) = Some cb" "length cb = t_size t" "t_host t \<noteq> t_correct t"
    using assms(1) by (auto simp: tensor_ok_def)
  show ?thesis using assms(2) [OF b(1)] assms(2) [OF b(5)] assms(3) [OF b(3)] b(2,4,6,7)
    by (auto simp: tensor_ok_def)
qed

lemma host_frame_ok:
  assumes "tensor_ok m t" "contents (m_host m) dst = Some old" "contents (m_host m') dst = Some xs" "length xs = length old"
    "\<And>q. q \<noteq> dst \<Longrightarrow> contents (m_host m') q = contents (m_host m) q" "m_dev m' = m_dev m"
  shows "tensor_ok m' t"
proof (rule tensor_ok_transfer [OF assms(1)])
  show "\<exists>bs'. contents (m_host m') p = Some bs' \<and> length bs' = length bs" if "contents (m_host m) p = Some bs" for p bs
    using that assms(2-5) by (cases "p = dst") auto
  show "\<exists>bs'. contents (m_dev m') p = Some bs' \<and> length bs' = length bs" if "contents (m_dev m) p = Some bs" for p bs
    using that assms(6) by auto
qed

lemma CopyFrom_ok:
  assumes "tensor_ok m t" "contents (m_host m) src = Some xs" "length xs = t_size t"
  shows "\<exists>m'. CopyFrom t src m = Done m' \<and> tensor_ok m' t \<and> contents (m_host m') (t_host t) = Some xs \<and>
    (\<forall>q. q \<noteq> t_host t \<longrightarrow> contents (m_host m') q = contents (m_host m) q) \<and>
    m_dev m' = m_dev m \<and> m_queue m' = m_queue m \<and> m_calls m' = m_calls m"
proof -
  obtain old where old: "contents (m_host m) (t_host t) = Some old" "length old = t_size t"
    using assms(1) by (auto simp: tensor_ok_def)
  obtain m' where m': "CopyFrom t src m = Done m'" "contents (m_host m') (t_host t) = Some xs"
    "\<forall>q. q \<noteq> t_host t \<longrightarrow> contents (m_host m') q = contents (m_host m) q"
    "m_dev m' = m_dev m" "m_queue m' = m_queue m" "m_calls m' = m_calls m"
    using memcpy_ok [OF assms(2) old(1) assms(3) old(2)] unfolding CopyFrom_def by blast
  have "tensor_ok m' t" by (rule host_frame_ok [OF assms(1) old(1) m'(2)]) (use m' old assms(3) in auto)
  then show ?thesis using m' by blast
qed

lemma run_HostToDevice:
  assumes "contents (m_host m) src = Some xs" "contents (m_dev m) dst = Some old" "length xs = n" "length old = n"
  shows "\<exists>m'. run_op rt (MemcpyHostToDevice dst src n) m = Done m' \<and> contents (m_dev m') dst = Some xs \<and>
    (\<forall>q. q \<noteq> dst \<longrightarrow> contents (m_dev m') q = contents (m_dev m) q) \<and> m_host m' = m_host m \<and>
    m_queue m' = m_queue m \<and> m_calls m' = m_calls m"
proof -
  obtain d where d: "block_write (m_dev m) dst xs = Some d" "contents d dst = Some xs"
    "\<forall>q. q \<noteq> dst \<longrightarrow> contents d q = contents (m_dev m) q"
    using block_write_full [OF assms(2), of xs] assms(3,4) by auto
  then have "run_op rt (MemcpyHostToDevice dst src n) m = Done (m\<lparr>m_dev := d\<rparr>)"
    using block_read_full [OF assms(1,3)] by (simp add: run_op.simps defined_o_def)
  then show ?thesis using d by simp
qed

lemma run_DeviceToHost:
  assumes "contents (m_dev m) src = Some xs" "contents (m_host m) dst = Some old" "length xs = n" "length old = n"
  shows "\<exists>m'. run_op rt (MemcpyDeviceToHost dst src n) m = Done m' \<and> contents (m_host m') dst = Some xs \<and>
    (\<forall>q. q \<noteq> dst \<longrightarrow> contents (m_host m') q = contents (m_host m) q) \<and> m_dev m' = m_dev m \<and>
    m_queue m' = m_queue m \<and> m_calls m' = m_calls m"
proof -
  obtain h where h: "block_write (m_host m) dst xs = Some h" "contents h dst = Some xs"
    "\<forall>q. q \<noteq> dst \<longrightarrow> contents h q = contents (m_host m) q"
    using block_write_full [OF assms(2), of xs] assms(3,4) by auto
  then have "run_op rt (MemcpyDeviceToHost dst src n) m = Done (m\<lparr>m_host := h\<rparr>)"
    using block_read_full [OF assms(1,3)] by (simp add: run_op.simps defined_o_def)
  then show ?thesis using h by simp
qed

section \<open>Properties\<close>

text \<open>A saved tensor can be loaded into every tensor of the same size, and holds the same bytes there.\<close>

theorem save_load_roundtrip:
  assumes "tensor_ok m t" "contents (m_host m) (t_host t) = Some bytes" "tensor_ok m2 u" "t_size u = t_size t"
    and "open_trunc H p fs \<noteq> None" "\<not> write_fails H p bytes" "\<not> rt_read_fails rt bytes"
  shows "\<exists>m1 fs1 m3. Save H t p m fs = Done (m1, fs1) \<and>
    Load rt u (path_string p) (file_text fs1 p) m2 = Done m3 \<and> tensor_ok m3 u \<and>
    contents (m_host m3) (t_host u) = Some bytes"
proof -
  have len: "length bytes = t_size t" using assms(1,2) by (auto simp: tensor_ok_def)
  have o: "open_trunc H p fs = Some (fs(names p \<mapsto> File []))" using assms(5) by (auto simp: open_trunc_def split: if_splits)
  have w: "write_stream H p bytes (fs(names p \<mapsto> File [])) = Some (fs(names p \<mapsto> File bytes))"
    using assms(6) by (simp add: write_stream_def)
  obtain m1 where s: "Save H t p m fs = Done (m1, fs(names p \<mapsto> File bytes))"
    using block_read_full [OF assms(2) len] o w by (auto simp: Save_def Let_def defined_o_def)
  obtain old where old: "contents (m_host m2) (t_host u) = Some old" "length old = t_size u"
    using assms(3) by (auto simp: tensor_ok_def)
  obtain h where h: "block_write (m_host m2) (t_host u) bytes = Some h" "contents h (t_host u) = Some bytes"
    "\<forall>q. q \<noteq> t_host u \<longrightarrow> contents h q = contents (m_host m2) q"
    using block_write_full [OF old(1), of bytes] old(2) len assms(4) by auto
  obtain m3 where m3: "Load rt u (path_string p) (file_text (fs(names p \<mapsto> File bytes)) p) m2 = Done m3"
      "m_host m3 = h" "m_dev m3 = m_dev m2"
    using h(1) len assms(4,7) by (auto simp: Load_def Let_def file_text_def defined_o_def)
  have "tensor_ok m3 u" by (rule host_frame_ok [OF assms(3) old(1), of _ bytes]) (use m3 h old len assms(4) in auto)
  then show ?thesis using s m3 h by blast
qed

text \<open>What goes to the device comes back: the bytes copied into a tensor and to the device are the bytes
  of the host after the copy back, whatever the host buffer held in between.\<close>

theorem device_roundtrip:
  assumes "tensor_ok m t" "m_queue m = []" "contents (m_host m) src = Some xs" "length xs = t_size t"
    "src \<noteq> t_host t" "\<And>k. \<not> rt_cuda_fails rt k"
  shows "\<exists>m1 m2 m3. CopyFrom t src m = Done m1 \<and>
    bind_o (CopyToDeviceAsync rt t m1) (StreamSynchronize rt) = Done m2 \<and>
    bind_o (Load rt t f None m2) (\<lambda>m. bind_o (CopyToHostAsync rt t m) (StreamSynchronize rt)) = Done m3 \<and>
    Compare t src m3 = Done True"
proof -
  obtain m1 where m1: "CopyFrom t src m = Done m1" "tensor_ok m1 t" "contents (m_host m1) (t_host t) = Some xs"
    "\<forall>q. q \<noteq> t_host t \<longrightarrow> contents (m_host m1) q = contents (m_host m) q" "m_queue m1 = []"
    using CopyFrom_ok [OF assms(1,3,4)] assms(2) by auto
  obtain old where old: "contents (m_dev m1) (t_device t) = Some old" "length old = t_size t"
    using m1(2) by (auto simp: tensor_ok_def)
  let ?c = "MemcpyHostToDevice (t_device t) (t_host t) (t_size t)"
  obtain ma where ma: "run_op rt ?c (m1\<lparr>m_calls := m_calls m1 + 1, m_queue := []\<rparr>) = Done ma"
    "contents (m_dev ma) (t_device t) = Some xs" "m_host ma = m_host m1" "m_queue ma = []"
    using run_HostToDevice [of "m1\<lparr>m_calls := m_calls m1 + 1, m_queue := []\<rparr>" "t_host t" xs "t_device t" old "t_size t" rt]
      m1(3) old assms(4) by auto
  define m2 where "m2 = ma\<lparr>m_calls := m_calls ma + 1\<rparr>"
  have s2: "bind_o (CopyToDeviceAsync rt t m1) (StreamSynchronize rt) = Done m2"
    using ma(1) m1(5) assms(6) by (auto simp: CopyToDeviceAsync_def submit_Done StreamSynchronize_def CUDART_ASSERT_Done m2_def)
  have h2: "contents (m_host m2) (t_host t) = Some xs" "contents (m_dev m2) (t_device t) = Some xs" "m_queue m2 = []"
    "contents (m_host m2) src = Some xs"
    using ma m1 assms(3,5) by (simp_all add: m2_def)
  obtain h where h: "block_write (m_host m2) (t_host t) (FillRandom rt (t_size t)) = Some h"
    "contents h (t_host t) = Some (FillRandom rt (t_size t))" "\<forall>q. q \<noteq> t_host t \<longrightarrow> contents h q = contents (m_host m2) q"
    using block_write_full [OF h2(1), of "FillRandom rt (t_size t)"] assms(4) by auto
  obtain mb where mb: "Load rt t f None m2 = Done mb" "m_host mb = h" "m_dev mb = m_dev m2" "m_queue mb = []"
    using h(1) h2(3) by (auto simp: Load_def defined_o_def)
  let ?d = "MemcpyDeviceToHost (t_host t) (t_device t) (t_size t)"
  obtain mc where mc: "run_op rt ?d (mb\<lparr>m_calls := m_calls mb + 1, m_queue := []\<rparr>) = Done mc"
    "contents (m_host mc) (t_host t) = Some xs" "\<forall>q. q \<noteq> t_host t \<longrightarrow> contents (m_host mc) q = contents h q"
    using run_DeviceToHost [of "mb\<lparr>m_calls := m_calls mb + 1, m_queue := []\<rparr>" "t_device t" xs "t_host t"
        "FillRandom rt (t_size t)" "t_size t" rt] mb h2(2) h(2) assms(4) by auto
  define m3 where "m3 = mc\<lparr>m_calls := m_calls mc + 1\<rparr>"
  have s3: "bind_o (Load rt t f None m2) (\<lambda>m. bind_o (CopyToHostAsync rt t m) (StreamSynchronize rt)) = Done m3"
    using mc(1) mb assms(6) by (auto simp: CopyToHostAsync_def submit_Done StreamSynchronize_def CUDART_ASSERT_Done m3_def)
  have "contents (m_host m3) src = Some xs" using mc(3) h(3) h2(4) assms(5) by (simp add: m3_def)
  then have "Compare t src m3 = Done True"
    using mc(2) assms(4) block_read_full [of "m_host m3" "t_host t" xs "t_size t"]
      block_read_full [of "m_host m3" src xs "t_size t"]
    by (simp add: Compare_def memcmp_equal_def defined_o_def m3_def)
  then show ?thesis using m1(1) s2 s3 by blast
qed

text \<open>The comparison with the saved result succeeds exactly when the host buffer still holds it.\<close>

theorem CheckCorrect_exact:
  assumes "tensor_ok m t" "SaveCorrect t m = Done m1" "contents (m_host m) (t_host t) = Some xs"
    "contents (m_host m2) (t_correct t) = contents (m_host m1) (t_correct t)" "contents (m_host m2) (t_host t) = Some ys"
    "length ys = t_size t"
  shows "CheckCorrect t m2 = Done (xs = ys)"
proof -
  have len: "length xs = t_size t" using assms(1,3) by (auto simp: tensor_ok_def)
  obtain old where "contents (m_host m) (t_correct t) = Some old" "length old = t_size t"
    using assms(1) by (auto simp: tensor_ok_def)
  from memcpy_ok [OF assms(3) this(1) len this(2)] assms(2)
  have "contents (m_host m1) (t_correct t) = Some xs" unfolding SaveCorrect_def by auto
  then show ?thesis using assms(4,5,6) len
    by (simp add: CheckCorrect_def memcmp_equal_def block_read_full defined_o_def)
qed

text \<open>The destructor gives the device buffer back and no other block: both host buffers stay allocated.\<close>

theorem destructor_keeps_host_buffers:
  assumes "tensor_ok m t" "destroy_Tensor rt t m = Done m'"
  shows "contents (m_dev m') (t_device t) = None \<and> m_host m' = m_host m \<and>
    contents (m_host m') (t_host t) \<noteq> None \<and> contents (m_host m') (t_correct t) \<noteq> None"
  using assms by (cases "t_device t") (auto simp: destroy_Tensor_def CUDART_ASSERT_Done tensor_ok_def)

text \<open>The results of malloc are not looked at: without memory for the host buffer, loading a file of the
  right size, the random fill, and the comparison have no defined behaviour.\<close>

theorem unchecked_malloc:
  assumes "t_host t = None" "0 < t_size t" "length bytes = t_size t" "\<not> rt_read_fails rt bytes"
  shows "Load rt t f (Some bytes) m = Undefined \<and> Load rt t f None m = Undefined \<and> CopyFrom t src m = Undefined"
  using assms by (auto simp: Load_def Let_def block_write_def defined_o_def CopyFrom_def memcpy_def
      split: option.splits)

end
