(* ===== verification/TrtModel.thy ===== *)
theory TrtModel
  imports Tensors "HOL-Library.Char_ord" "HOL-Library.List_Lexorder"
begin

text \<open>
  The class TRTModel of application/gpu\_token\_up/trt/src/model.cpp: the engine built from an ONNX
  file or loaded from the file an earlier run saved, the tensors made for its inputs and outputs, and
  the inferences on them. TensorRT is a parameter: which of its calls fail, the engine it builds, and
  what an engine answers about its tensors, by name (version 10) and by index (earlier versions). The
  file exists in three copies; gpu\_transparent\_up reads another variable, gpu\_dynamic\_up has a fixed
  workspace (GetWorkspaceBytes and its constant below).
\<close>

section \<open>std::map\<close>

text \<open>The entries in the order of their keys; m[k] = v.\<close>

fun map_put :: "'k::linorder \<Rightarrow> 'v \<Rightarrow> ('k \<times> 'v) list \<Rightarrow> ('k \<times> 'v) list" where
  "map_put k v [] = [(k, v)]"
| "map_put k v ((k', v') # xs) =
     (if k < k' then (k, v) # (k', v') # xs
      else if k = k' then (k, v) # xs
      else (k', v') # map_put k v xs)"

lemma map_of_map_put [simp]: "sorted_wrt (<) (map fst xs) \<Longrightarrow> map_of (map_put k v xs) = (map_of xs)(k \<mapsto> v)"
  by (induction xs) (auto simp: fun_upd_twist)

lemma set_map_put: "k \<notin> fst ` set xs \<Longrightarrow> set (map_put k v xs) = insert (k, v) (set xs)"
  by (induction k v xs rule: map_put.induct) (simp_all add: insert_commute)

lemma keys_map_put [simp]: "fst ` set (map_put k v xs) = insert k (fst ` set xs)"
  by (induction k v xs rule: map_put.induct) (simp_all add: insert_commute)

lemma sorted_map_put: "sorted_wrt (<) (map fst xs) \<Longrightarrow> sorted_wrt (<) (map fst (map_put k v xs))"
proof (induction xs)
  case (Cons x xs)
  obtain k' v' where x: "x = (k', v')" by (cases x)
  have "\<forall>z\<in>fst ` set (map_put k v xs). k' < z" if "k' < k"
    using Cons.prems that x by auto
  then show ?case using Cons x by auto
qed simp

section \<open>TensorRT\<close>

record engine =
  en_context :: bool
  en_nb :: nat
  en_profiles :: int
  en_name :: "nat \<Rightarrow> string"
  en_shape :: "string \<Rightarrow> dims"
  en_input :: "string \<Rightarrow> bool"
  en_type :: "string \<Rightarrow> DataType"
  en_profile :: "string \<Rightarrow> dims"
  en_set_shape :: "string \<Rightarrow> dims \<Rightarrow> bool"
  en_set_address :: "string \<Rightarrow> pointer \<Rightarrow> bool"
  bi_dims :: "nat \<Rightarrow> dims"
  bi_input :: "nat \<Rightarrow> bool"
  bi_type :: "nat \<Rightarrow> DataType"
  bi_profile :: "nat \<Rightarrow> dims"
  bi_set_dims :: "nat \<Rightarrow> dims \<Rightarrow> bool"

record trt =
  tr_major :: nat
  tr_minor :: nat
  tr_builder :: bool
  tr_network :: "nat \<Rightarrow> bool"
  tr_parser :: bool
  tr_parse :: "string \<Rightarrow> (string \<times> dims) list option"
  tr_config :: bool
  tr_profile :: bool
  tr_build :: "string \<Rightarrow> (string \<times> dims) list \<Rightarrow> int \<Rightarrow> engine option"
  tr_runtime :: bool
  tr_serialize :: "engine \<Rightarrow> string option"
  tr_deserialize :: "string \<Rightarrow> engine option"

definition TRT_HAS_IO_TENSOR_API :: "trt \<Rightarrow> bool" where
  "TRT_HAS_IO_TENSOR_API tr \<longleftrightarrow> tr_major tr \<ge> 10"

datatype severity = kINTERNAL_ERROR | kERROR | kWARNING | kINFO | kVERBOSE

text \<open>The callback that TensorRT reports through: an error of the library ends the process.\<close>

fun TRTLogger_log :: "severity \<Rightarrow> string \<Rightarrow> memory \<Rightarrow> memory ending" where
  "TRTLogger_log kINTERNAL_ERROR msg m = Aborted"
| "TRTLogger_log kERROR msg m = Aborted"
| "TRTLogger_log kWARNING msg m = Done (log_line ''WARN'' (''[TRT] '' @ msg) m)"
| "TRTLogger_log kINFO msg m = Done m"
| "TRTLogger_log kVERBOSE msg m = Done m"

section \<open>Shapes and sizes\<close>

definition default_dim_size :: int where
  "default_dim_size = 512"

definition fill_step :: "nat \<Rightarrow> int list \<times> bool \<Rightarrow> int list \<times> bool" where
  "fill_step j s =
     (let (d, dynamic_shape) = s
      in if d ! j = - 1 then (d[j := default_dim_size], True) else (d, dynamic_shape))"

text \<open>An open extent becomes the batch size in the first place and 512 in the others.\<close>

definition fill_dims :: "int \<Rightarrow> dims \<Rightarrow> dims \<times> bool" where
  "fill_dims batch_size d =
     (let start = (if d_of d ! 0 = - 1 then ((d_of d)[0 := batch_size], True) else (d_of d, False));
          (ds, dynamic_shape) = fold fill_step [1..<nat (nbDims d)] start
      in (d\<lparr>d_of := ds\<rparr>, dynamic_shape))"

text \<open>The product of the extents in int32\_t; None: it overflows, or the count is negative.\<close>

definition to_int32 :: "int \<Rightarrow> int" where
  "to_int32 x = (x + 2147483648) mod 4294967296 - 2147483648"

lemma to_int32_id: "INT32_MIN \<le> x \<Longrightarrow> x \<le> INT32_MAX \<Longrightarrow> to_int32 x = x"
  by (simp add: to_int32_def)

fun volume_from :: "int \<Rightarrow> int list \<Rightarrow> int option" where
  "volume_from acc [] = Some acc"
| "volume_from acc (x # xs) =
     (let p = acc * to_int32 x
      in if INT32_MIN \<le> p \<and> p \<le> INT32_MAX then volume_from p xs else None)"

definition volume :: "dims \<Rightarrow> int option" where
  "volume d = (if nbDims d < 0 then None else volume_from 1 (take (nat (nbDims d)) (d_of d)))"

text \<open>volume * GetSize(data\_type) in size\_t.\<close>

definition total_size :: "int \<Rightarrow> nat \<Rightarrow> nat" where
  "total_size vol elem = nat ((vol * int elem) mod 18446744073709551616)"

fun dims_text :: "int list \<Rightarrow> string" where
  "dims_text [] = []"
| "dims_text (x # xs) = '', '' @ to_string x @ dims_text xs"

definition tensor_text :: "bool \<Rightarrow> string \<Rightarrow> string \<Rightarrow> dims \<Rightarrow> nat \<Rightarrow> string" where
  "tensor_text is_input tensor_name type_name d bytes =
     (if is_input then ''[MODEL] created input tensor, name: '' else ''[MODEL] created output tensor, name: '') @
     tensor_name @ '', '' @ type_name @ ''['' @ to_string (d_of d ! 0) @
     dims_text (drop 1 (take (nat (nbDims d)) (d_of d))) @ ''] ('' @ to_dec bytes @ '' Bytes)''"

section \<open>The model and its context\<close>

record trt_model =
  mo_batch :: int
  mo_engine :: engine
  mo_inputs :: "(string \<times> tensor) list"
  mo_outputs :: "(string \<times> tensor) list"
  mo_bindings :: "pointer list"
  mo_addresses :: "(string \<times> pointer) list"

definition table :: "bool \<Rightarrow> trt_model \<Rightarrow> (string \<times> tensor) list" where
  "table is_input M = (if is_input then mo_inputs M else mo_outputs M)"

text \<open>A tensor enters its table; one of the same name leaves it, and its last owner destroys it.\<close>

definition put_tensor ::
  "runtime \<Rightarrow> bool \<Rightarrow> string \<Rightarrow> tensor \<Rightarrow> trt_model \<times> memory \<Rightarrow> (trt_model \<times> memory) ending" where
  "put_tensor rt is_input name t s =
     (let (M, m) = s; tbl = map_put name t (table is_input M)
      in bind_o (case map_of (table is_input M) name of None \<Rightarrow> Done m | Some old \<Rightarrow> destroy_Tensor rt old m)
           (\<lambda>m. Done (if is_input then M\<lparr>mo_inputs := tbl\<rparr> else M\<lparr>mo_outputs := tbl\<rparr>, m)))"

text \<open>From the shape that is settled to the tensor in its table.\<close>

definition make_tensor ::
  "runtime \<Rightarrow> string \<Rightarrow> bool \<Rightarrow> dims \<Rightarrow> DataType \<Rightarrow> trt_model \<times> memory \<Rightarrow> (trt_model \<times> memory) ending" where
  "make_tensor rt name is_input d data_type s =
     (let (M, m) = s
      in bind_o (defined_o (volume d)) (\<lambda>vol.
         bind_o (GetSize data_type) (\<lambda>elem.
         bind_o (new_Tensor rt (total_size vol elem) d name m) (\<lambda>(t, m).
         bind_o (GetTypeName data_type) (\<lambda>type_name.
         bind_o (put_tensor rt is_input name t (M, m)) (\<lambda>(M, m).
           Done (M, log_line ''INFO'' (tensor_text is_input name type_name d (total_size vol elem)) m)))))))"

text \<open>One round of the first loop of InitContext, with the answers about one tensor.\<close>

definition init_tensor ::
  "runtime \<Rightarrow> engine \<Rightarrow> string \<Rightarrow> bool \<Rightarrow> dims \<Rightarrow> dims \<Rightarrow> (dims \<Rightarrow> bool) \<Rightarrow> DataType \<Rightarrow>
     trt_model \<times> memory \<Rightarrow> (trt_model \<times> memory) ending" where
  "init_tensor rt e name is_input shape profile set_shape data_type s =
     (let (d, dynamic_shape) = fill_dims (mo_batch (fst s)) shape
      in if dynamic_shape \<and> en_profiles e > 0
         then bind_o (assert_o (set_shape profile) s) (make_tensor rt name is_input profile data_type)
         else make_tensor rt name is_input d data_type s)"

definition device_buffer :: "bool \<Rightarrow> string \<Rightarrow> trt_model \<Rightarrow> pointer ending" where
  "device_buffer is_input name M =
     (case map_of (table is_input M) name of None \<Rightarrow> Undefined | Some t \<Rightarrow> Done (t_device t))"

text \<open>InitContext with the API of version 10: everything by the name of the tensor.\<close>

definition bind_address :: "engine \<Rightarrow> nat \<Rightarrow> trt_model \<times> memory \<Rightarrow> (trt_model \<times> memory) ending" where
  "bind_address e i s =
     (let (M, m) = s; name = en_name e i
      in bind_o (device_buffer (en_input e name) name M) (\<lambda>buf.
           if en_set_address e name buf
           then Done (M\<lparr>mo_bindings := mo_bindings M @ [buf], mo_addresses := map_put name buf (mo_addresses M)\<rparr>, m)
           else Aborted))"

definition init_io_tensor :: "runtime \<Rightarrow> engine \<Rightarrow> nat \<Rightarrow> trt_model \<times> memory \<Rightarrow> (trt_model \<times> memory) ending" where
  "init_io_tensor rt e i =
     (let name = en_name e i
      in init_tensor rt e name (en_input e name) (en_shape e name) (en_profile e name) (en_set_shape e name)
           (en_type e name))"

definition InitContext_names :: "runtime \<Rightarrow> engine \<Rightarrow> trt_model \<times> memory \<Rightarrow> (trt_model \<times> memory) ending" where
  "InitContext_names rt e s =
     bind_o (fold_o (init_io_tensor rt e) [0..<en_nb e] s) (\<lambda>(M, m).
       fold_o (bind_address e) [0..<en_nb e] (M\<lparr>mo_bindings := []\<rparr>, m))"

text \<open>InitContext with the API of earlier versions: everything by the index of the binding.\<close>

definition bind_index :: "engine \<Rightarrow> nat \<Rightarrow> trt_model \<times> memory \<Rightarrow> (trt_model \<times> memory) ending" where
  "bind_index e i s =
     (let (M, m) = s
      in bind_o (device_buffer (bi_input e i) (en_name e i) M) (\<lambda>buf.
           Done (M\<lparr>mo_bindings := (mo_bindings M)[i := buf]\<rparr>, m)))"

definition init_binding :: "runtime \<Rightarrow> engine \<Rightarrow> nat \<Rightarrow> trt_model \<times> memory \<Rightarrow> (trt_model \<times> memory) ending" where
  "init_binding rt e i =
     init_tensor rt e (en_name e i) (bi_input e i) (bi_dims e i) (bi_profile e i) (bi_set_dims e i) (bi_type e i)"

definition InitContext_indices :: "runtime \<Rightarrow> engine \<Rightarrow> trt_model \<times> memory \<Rightarrow> (trt_model \<times> memory) ending" where
  "InitContext_indices rt e s =
     bind_o (fold_o (init_binding rt e) [0..<en_nb e] s) (\<lambda>(M, m).
       fold_o (bind_index e) [0..<en_nb e] (M\<lparr>mo_bindings := replicate (en_nb e) None\<rparr>, m))"

definition InitContext :: "runtime \<Rightarrow> trt \<Rightarrow> trt_model \<times> memory \<Rightarrow> (trt_model \<times> memory) ending" where
  "InitContext rt tr s =
     (let e = mo_engine (fst s)
      in if \<not> en_context e then Aborted
         else if TRT_HAS_IO_TENSOR_API tr then InitContext_names rt e s else InitContext_indices rt e s)"

section \<open>Engines\<close>

text \<open>GetWorkspaceBytes, from the environment variable of the program; a long shifted as a size\_t.\<close>

definition GetWorkspaceBytes :: "string option \<Rightarrow> int" where
  "GetWorkspaceBytes env_value =
     (let workspace_mb =
        (case env_value of
           None \<Rightarrow> 1024
         | Some s \<Rightarrow>
             if s = [] then 1024
             else (let r = strtol s
                   in if st_end r \<noteq> s \<and> st_end r = [] \<and> st_value r > 0 then st_value r else 1024))
      in (workspace_mb * 1048576) mod 18446744073709551616)"

text \<open>The shapes that the optimisation profile gets (as kMIN, kOPT and kMAX): those of the inputs with an
  open extent.\<close>

fun profile_shapes :: "int \<Rightarrow> (string \<times> dims) list \<Rightarrow> (string \<times> dims) list" where
  "profile_shapes batch_size [] = []"
| "profile_shapes batch_size ((name, shape) # ins) =
     (let (d, dynamic_shape) = fill_dims batch_size shape
      in if dynamic_shape then (name, d) # profile_shapes batch_size ins else profile_shapes batch_size ins)"

text \<open>TensorRT 10.0 to 10.4 builds a serialised network that a runtime reads back.\<close>

definition build_engine :: "trt \<Rightarrow> string \<Rightarrow> (string \<times> dims) list \<Rightarrow> int \<Rightarrow> engine ending" where
  "build_engine tr onnx profile workspace_bytes =
     (case tr_build tr onnx profile workspace_bytes of
        None \<Rightarrow> Aborted
      | Some e \<Rightarrow>
          if tr_major tr = 10 \<and> tr_minor tr \<le> 4
          then bind_o (assert_o (tr_runtime tr) ()) (\<lambda>_.
                 case tr_serialize tr e of
                   None \<Rightarrow> Aborted
                 | Some bytes \<Rightarrow> (case tr_deserialize tr bytes of None \<Rightarrow> Aborted | Some e' \<Rightarrow> Done e'))
          else Done e)"

definition BuildEngine :: "trt \<Rightarrow> int \<Rightarrow> int \<Rightarrow> string \<Rightarrow> memory \<Rightarrow> (engine \<times> memory) ending" where
  "BuildEngine tr workspace_bytes batch_size onnx m =
     bind_o (assert_o (tr_builder tr) ()) (\<lambda>_.
     bind_o (assert_o (tr_network tr (if tr_major tr \<ge> 10 then 0 else 1)) ()) (\<lambda>_.
     bind_o (assert_o (tr_parser tr) ()) (\<lambda>_.
     case tr_parse tr onnx of
       None \<Rightarrow> Aborted
     | Some inputs \<Rightarrow>
         bind_o (assert_o (tr_config tr) ()) (\<lambda>_.
         bind_o (assert_o (tr_profile tr) ()) (\<lambda>_.
         bind_o (build_engine tr onnx (profile_shapes batch_size inputs) workspace_bytes) (\<lambda>e.
           Done (e, log_line ''INFO'' (''[MODEL] engine built with model '' @ onnx) m)))))))"

text \<open>A file that cannot be opened has the size -1, and the vector of that size throws.\<close>

definition LoadEngine :: "runtime \<Rightarrow> trt \<Rightarrow> string \<Rightarrow> string option \<Rightarrow> memory \<Rightarrow> (engine \<times> memory) ending" where
  "LoadEngine rt tr engine_name content m =
     (case content of
        None \<Rightarrow> Thrown
      | Some bytes \<Rightarrow>
          if rt_read_fails rt bytes then Aborted
          else bind_o (assert_o (tr_runtime tr) ()) (\<lambda>_.
            case tr_deserialize tr bytes of
              None \<Rightarrow> Aborted
            | Some e \<Rightarrow> Done (e, log_line ''INFO'' (''[MODEL] engine '' @ engine_name @ '' loaded'') m)))"

text \<open>The files stay changed when the program aborts, so they are a result of their own.\<close>

definition SaveEngine :: "trt \<Rightarrow> host \<Rightarrow> path \<Rightarrow> engine \<Rightarrow> memory \<Rightarrow> files \<Rightarrow> memory ending \<times> files" where
  "SaveEngine tr H p e m fs =
     (case tr_serialize tr e of
        None \<Rightarrow> (Aborted, fs)
      | Some bytes \<Rightarrow>
          (case open_trunc H p fs of
             None \<Rightarrow> (Aborted, fs)
           | Some fs' \<Rightarrow>
               (case write_stream H p bytes fs' of
                  None \<Rightarrow> (Aborted, fs')
                | Some fs'' \<Rightarrow> (Done (log_line ''INFO'' (''[MODEL] engine '' @ path_string p @ '' saved'') m), fs''))))"

section \<open>Construction and inference\<close>

definition empty_model :: "int \<Rightarrow> engine \<Rightarrow> trt_model" where
  "empty_model batch_size e =
     \<lparr>mo_batch = batch_size, mo_engine = e, mo_inputs = [], mo_outputs = [], mo_bindings = [], mo_addresses = []\<rparr>"

text \<open>The engine of the constructor: loaded when its file exists, else built and saved.\<close>

definition obtain_engine ::
  "runtime \<Rightarrow> trt \<Rightarrow> host \<Rightarrow> int \<Rightarrow> string \<Rightarrow> path \<Rightarrow> int \<Rightarrow> memory \<Rightarrow> files \<Rightarrow>
     (engine \<times> memory) ending \<times> files" where
  "obtain_engine rt tr H workspace_bytes onnx p batch_size m fs =
     (if fs (names p) \<noteq> None then (LoadEngine rt tr (path_string p) (file_text fs p) m, fs)
      else case BuildEngine tr workspace_bytes batch_size onnx m of
        Done (e, m') \<Rightarrow>
          (let (r, fs') = SaveEngine tr H p e m' fs in (bind_o r (\<lambda>m. Done (e, m)), fs'))
      | r \<Rightarrow> (r, fs))"

definition new_TRTModel ::
  "runtime \<Rightarrow> trt \<Rightarrow> host \<Rightarrow> int \<Rightarrow> string \<Rightarrow> path \<Rightarrow> int \<Rightarrow> memory \<Rightarrow> files \<Rightarrow>
     (trt_model \<times> memory) ending \<times> files" where
  "new_TRTModel rt tr H workspace_bytes onnx p batch_size m fs =
     (let (r, fs') = obtain_engine rt tr H workspace_bytes onnx p batch_size m fs
      in (bind_o r (\<lambda>(e, m). InitContext rt tr (empty_model batch_size e, m)), fs'))"

definition CopyInputAsync :: "runtime \<Rightarrow> trt_model \<Rightarrow> memory \<Rightarrow> memory ending" where
  "CopyInputAsync rt M = fold_o (\<lambda>(name, t). CopyToDeviceAsync rt t) (mo_inputs M)"

definition CopyOutputAsync :: "runtime \<Rightarrow> trt_model \<Rightarrow> memory \<Rightarrow> memory ending" where
  "CopyOutputAsync rt M = fold_o (\<lambda>(name, t). CopyToHostAsync rt t) (mo_outputs M)"

definition CopyInput :: "runtime \<Rightarrow> trt_model \<Rightarrow> memory \<Rightarrow> memory ending" where
  "CopyInput rt M m = bind_o (CopyInputAsync rt M m) (StreamSynchronize rt)"

definition CopyOutput :: "runtime \<Rightarrow> trt_model \<Rightarrow> memory \<Rightarrow> memory ending" where
  "CopyOutput rt M m = bind_o (CopyOutputAsync rt M m) (StreamSynchronize rt)"

text \<open>What the engine is started on: the addresses of the context (version 10), or the binding array.\<close>

definition enqueue_arguments :: "trt \<Rightarrow> trt_model \<Rightarrow> (string \<times> bool \<times> pointer) list" where
  "enqueue_arguments tr M =
     (let e = mo_engine M
      in if TRT_HAS_IO_TENSOR_API tr
         then map (\<lambda>i. let name = en_name e i in
                (name, en_input e name, case map_of (mo_addresses M) name of None \<Rightarrow> None | Some p \<Rightarrow> p)) [0..<en_nb e]
         else map (\<lambda>i. (en_name e i, bi_input e i, mo_bindings M ! i)) [0..<en_nb e])"

definition Enqueue :: "runtime \<Rightarrow> trt \<Rightarrow> trt_model \<Rightarrow> memory \<Rightarrow> memory ending" where
  "Enqueue rt tr M = submit rt (Execute (enqueue_arguments tr M))"

definition InferAsync :: "runtime \<Rightarrow> trt \<Rightarrow> trt_model \<Rightarrow> memory \<Rightarrow> memory ending" where
  "InferAsync rt tr M = Enqueue rt tr M"

definition Infer :: "runtime \<Rightarrow> trt \<Rightarrow> trt_model \<Rightarrow> memory \<Rightarrow> memory ending" where
  "Infer rt tr M m = bind_o (InferAsync rt tr M m) (StreamSynchronize rt)"

definition InferWithCopy :: "runtime \<Rightarrow> trt \<Rightarrow> trt_model \<Rightarrow> memory \<Rightarrow> memory ending" where
  "InferWithCopy rt tr M m =
     bind_o (CopyInputAsync rt M m) (\<lambda>m.
     bind_o (InferAsync rt tr M m) (\<lambda>m.
     bind_o (CopyOutputAsync rt M m) (StreamSynchronize rt)))"

text \<open>CheckOutput looks at every output, also after one that does not match.\<close>

fun check_outputs :: "bool \<Rightarrow> (string \<times> tensor) list \<Rightarrow> memory \<Rightarrow> (bool \<times> memory) ending" where
  "check_outputs pass [] m = Done (pass, m)"
| "check_outputs pass ((name, t) # outs) m =
     bind_o (CheckCorrect t m) (\<lambda>same.
       if same then check_outputs pass outs m
       else check_outputs False outs (log_line ''WARN'' (''[RESULT] [FAIL] output tensor '' @ name @ '' does not match'') m))"

definition CheckOutput :: "trt_model \<Rightarrow> memory \<Rightarrow> (bool \<times> memory) ending" where
  "CheckOutput M = check_outputs True (mo_outputs M)"

definition ClearOutput :: "runtime \<Rightarrow> trt_model \<Rightarrow> memory \<Rightarrow> memory ending" where
  "ClearOutput rt M m = bind_o (fold_o (\<lambda>(name, t). Clear rt t) (mo_outputs M) m) (StreamSynchronize rt)"

end
