(* ===== verification/TrtCorrect.thy ===== *)
theory TrtCorrect
  imports TrtModel
begin

text \<open>
  What the TensorRT model class guarantees: the tables of tensors it builds and the bindings of the
  engine agree, an inference with copies computes the host outputs from the host inputs, the two
  variants of InitContext do the same, and the saved engine is found again.
\<close>

section \<open>Shapes\<close>

definition filled :: "int \<Rightarrow> int list \<Rightarrow> nat \<Rightarrow> nat \<Rightarrow> int" where
  "filled batch_size ds n j =
     (if ds ! j \<noteq> - 1 then ds ! j else if j = 0 then batch_size else if j < n then default_dim_size else - 1)"

lemma fill_fold:
  assumes "n \<le> length xs"
  shows "fold fill_step [1..<n] (xs, b) =
    (map (\<lambda>j. if 1 \<le> j \<and> j < n \<and> xs ! j = - 1 then default_dim_size else xs ! j) [0..<length xs],
     b \<or> (\<exists>j\<in>{1..<n}. xs ! j = - 1))"
  using assms
proof (induction n)
  case 0
  then show ?case by (simp add: map_nth)
next
  case (Suc n)
  show ?case
  proof (cases "n = 0")
    case True
    then show ?thesis by (auto intro: nth_equalityI)
  next
    case False
    then have u: "[1..<Suc n] = [1..<n] @ [n]" by simp
    show ?thesis
      unfolding u fold_append comp_def Suc.IH [OF Suc_leD [OF Suc.prems]]
      using Suc.prems False
      by (auto simp: fill_step_def less_Suc_eq intro!: nth_equalityI split: if_splits) (auto simp: nth_list_update)
  qed
qed

lemma fill_dims_open:
  "nat (nbDims d) \<le> length (d_of d) \<Longrightarrow>
   snd (fill_dims b d) \<longleftrightarrow> d_of d ! 0 = - 1 \<or> (\<exists>j\<in>{1..<nat (nbDims d)}. d_of d ! j = - 1)"
  using fill_fold [of "nat (nbDims d)" "d_of d" False]
    fill_fold [of "nat (nbDims d)" "(d_of d)[0 := b]" True]
  by (auto simp: fill_dims_def Let_def split: if_splits)

lemma fill_dims_nth:
  assumes "nat (nbDims d) \<le> length (d_of d)" "j < length (d_of d)"
  shows "d_of (fst (fill_dims b d)) ! j = filled b (d_of d) (nat (nbDims d)) j"
    and "nbDims (fst (fill_dims b d)) = nbDims d"
  using fill_fold [of "nat (nbDims d)" "d_of d" False]
    fill_fold [of "nat (nbDims d)" "(d_of d)[0 := b]" True] assms
  by (cases j; auto simp: fill_dims_def Let_def filled_def)+

text \<open>Whether a shape is open does not depend on the batch size, and a shape that is not is kept.\<close>

lemma fill_step_sticky: "snd s \<Longrightarrow> snd (fold fill_step js s)"
  by (induction js arbitrary: s) (auto simp: fill_step_def split: prod.splits)

lemma fill_step_same: "\<not> snd (fold fill_step js s) \<Longrightarrow> fold fill_step js s = s"
proof (induction js arbitrary: s)
  case (Cons j js)
  have "fold fill_step js (fill_step j s) = fill_step j s" using Cons by simp
  moreover have "\<not> snd (fill_step j s)" using Cons.prems fill_step_sticky [of "fill_step j s" js] by auto
  then have "fill_step j s = s" by (auto simp: fill_step_def split: prod.splits if_splits)
  ultimately show ?case by simp
qed simp

lemma fill_dims_flag: "snd (fill_dims b d) = snd (fill_dims c d)"
  using fill_step_sticky [of "((d_of d)[0 := b], True)"] fill_step_sticky [of "((d_of d)[0 := c], True)"]
  by (simp add: fill_dims_def Let_def split: prod.split) (metis snd_conv)

lemma fill_dims_closed: "\<not> snd (fill_dims b d) \<Longrightarrow> fst (fill_dims b d) = d"
proof -
  assume c: "\<not> snd (fill_dims b d)"
  have "d_of d ! 0 \<noteq> - 1"
    using c fill_step_sticky [of "((d_of d)[0 := b], True)" "[1..<nat (nbDims d)]"]
    by (auto simp: fill_dims_def Let_def split: prod.splits)
  then show ?thesis
    using c fill_step_same [of "[1..<nat (nbDims d)]" "(d_of d, False)"]
    by (auto simp: fill_dims_def Let_def split: prod.splits)
qed

section \<open>The size of a tensor\<close>

lemma volume_from_exact:
  "\<forall>x\<in>set xs. 0 < x \<and> x \<le> INT32_MAX \<Longrightarrow> 0 < acc \<Longrightarrow> acc \<le> INT32_MAX \<Longrightarrow>
   volume_from acc xs = (if acc * prod_list xs \<le> INT32_MAX then Some (acc * prod_list xs) else None)"
proof (induction xs arbitrary: acc)
  case (Cons x xs)
  have x: "0 < x" "x \<le> INT32_MAX" "to_int32 x = x" using Cons.prems(1) by (auto intro: to_int32_id)
  have pos: "0 < prod_list xs" using Cons.prems(1) by (induction xs) auto
  have "0 < acc * x" using x Cons.prems by simp
  show ?case
  proof (cases "acc * x \<le> INT32_MAX")
    case True
    then show ?thesis using Cons.IH [of "acc * x"] Cons.prems(1) x(3) \<open>0 < acc * x\<close> by (simp add: mult.assoc)
  next
    case False
    have "acc * x * 1 \<le> acc * x * prod_list xs" using pos \<open>0 < acc * x\<close> by (intro mult_left_mono) auto
    then show ?thesis using False x(3) by (simp add: mult.assoc)
  qed
qed simp

text \<open>The tensor of a shape with positive extents has exactly the bytes of its elements, and a shape
  with more than 2147483647 elements overflows the product.\<close>

theorem tensor_bytes_exact:
  assumes "0 \<le> nbDims d" "\<forall>x\<in>set (take (nat (nbDims d)) (d_of d)). 0 < x \<and> x \<le> INT32_MAX" "GetSize ty = Done elem"
  shows "(case volume d of
      Some vol \<Rightarrow> int (total_size vol elem) = prod_list (take (nat (nbDims d)) (d_of d)) * int elem
    | None \<Rightarrow> INT32_MAX < prod_list (take (nat (nbDims d)) (d_of d)))"
proof -
  let ?p = "prod_list (take (nat (nbDims d)) (d_of d))"
  have e: "0 < elem" "elem \<le> 4" using type_known [OF assms(3)] by auto
  have p0: "0 < prod_list xs" if "\<forall>x\<in>set xs. 0 < x \<and> x \<le> INT32_MAX" for xs :: "int list"
    using that by (induction xs) auto
  have "0 < ?p" by (rule p0 [OF assms(2)])
  show ?thesis
  proof (cases "?p \<le> INT32_MAX")
    case True
    have "?p * int elem \<le> INT32_MAX * 4" using True e \<open>0 < ?p\<close> by (intro mult_mono) auto
    moreover have "0 < ?p * int elem" using \<open>0 < ?p\<close> e by simp
    ultimately show ?thesis using True assms(1) volume_from_exact [OF assms(2), of 1] by (simp add: volume_def total_size_def)
  next
    case False
    then show ?thesis using assms(1) volume_from_exact [OF assms(2), of 1] by (simp add: volume_def)
  qed
qed

section \<open>The tables of tensors\<close>

definition entries :: "trt_model \<Rightarrow> (string \<times> tensor) set" where
  "entries M = set (mo_inputs M) \<union> set (mo_outputs M)"

text \<open>The buffers a tensor has are blocks of its size; a host buffer may be missing.\<close>

definition part_ok :: "memory \<Rightarrow> tensor \<Rightarrow> bool" where
  "part_ok m t \<longleftrightarrow>
     (\<exists>bs. contents (m_dev m) (t_device t) = Some bs \<and> length bs = t_size t) \<and>
     (t_host t \<noteq> None \<longrightarrow> (\<exists>bs. contents (m_host m) (t_host t) = Some bs \<and> length bs = t_size t)) \<and>
     (t_correct t \<noteq> None \<longrightarrow> t_host t \<noteq> t_correct t \<and>
        (\<exists>bs. contents (m_host m) (t_correct t) = Some bs \<and> length bs = t_size t))"

lemma part_ok_full: "part_ok m t \<Longrightarrow> t_host t \<noteq> None \<Longrightarrow> t_correct t \<noteq> None \<Longrightarrow> tensor_ok m t"
  by (auto simp: part_ok_def tensor_ok_def)

definition buffers_apart :: "tensor \<Rightarrow> tensor \<Rightarrow> bool" where
  "buffers_apart t u \<longleftrightarrow> t_device t \<noteq> t_device u \<and>
     (\<forall>a. Some a \<in> {t_host t, t_correct t} \<longrightarrow> Some a \<notin> {t_host u, t_correct u})"

lemma apart_sym: "buffers_apart t u \<Longrightarrow> buffers_apart u t"
  by (auto simp: buffers_apart_def)

definition tables_ok :: "trt_model \<Rightarrow> memory \<Rightarrow> bool" where
  "tables_ok M m \<longleftrightarrow>
     sorted_wrt (<) (map fst (mo_inputs M)) \<and> sorted_wrt (<) (map fst (mo_outputs M)) \<and>
     fst ` set (mo_inputs M) \<inter> fst ` set (mo_outputs M) = {} \<and>
     (\<forall>x\<in>entries M. part_ok m (snd x)) \<and>
     (\<forall>x\<in>entries M. \<forall>y\<in>entries M. fst x \<noteq> fst y \<longrightarrow> buffers_apart (snd x) (snd y))"

lemma part_ok_frame:
  assumes "part_ok m t" "\<And>a. m_host m a \<noteq> None \<Longrightarrow> m_host m' a = m_host m a"
    "\<And>a. m_dev m a \<noteq> None \<Longrightarrow> m_dev m' a = m_dev m a"
  shows "part_ok m' t"
proof -
  have h: "contents (m_host m') p = Some bs" if "contents (m_host m) p = Some bs" for p bs
    using that assms(2) by (cases p) auto
  have d: "contents (m_dev m') p = Some bs" if "contents (m_dev m) p = Some bs" for p bs
    using that assms(3) by (cases p) auto
  show ?thesis using assms(1) h d unfolding part_ok_def by blast
qed

lemma new_Tensor_part_ok:
  assumes "fresh_blocks rt" "new_Tensor rt n d name m = Done (t, m')"
  shows "part_ok m' t"
proof -
  note f = new_Tensor_frame [OF assms] and h = new_Tensor_host [OF assms]
  show ?thesis using f h by (cases "t_host t"; cases "t_correct t") (auto simp: part_ok_def)
qed

text \<open>A new tensor shares no buffer with one whose buffers were there before.\<close>

lemma new_Tensor_apart:
  assumes "fresh_blocks rt" "new_Tensor rt n d name m = Done (t, m')" "part_ok m u"
  shows "buffers_apart t u"
proof -
  note f = new_Tensor_frame [OF assms(1,2)] and h = new_Tensor_host [OF assms(1,2)]
  have "t_device t \<noteq> t_device u" using f assms(3) by (auto simp: part_ok_def)
  moreover have "m_host m a = None" if "t_host t = Some a \<or> t_correct t = Some a" for a
    using that h(1) [of a] h(2) [of a] by auto
  moreover have "m_host m a \<noteq> None" if "t_host u = Some a \<or> t_correct u = Some a" for a
    using that assms(3) by (auto simp: part_ok_def)
  ultimately show ?thesis unfolding buffers_apart_def by (metis insertE singletonD)
qed

text \<open>What make\_tensor and init\_tensor do when they return: one more tensor, made by the constructor.\<close>

definition adds_tensor :: "runtime \<Rightarrow> string \<Rightarrow> bool \<Rightarrow> trt_model \<times> memory \<Rightarrow> trt_model \<times> memory \<Rightarrow> bool" where
  "adds_tensor rt name is_input s s' \<longleftrightarrow>
     (\<exists>n d t m1. new_Tensor rt n d name (snd s) = Done (t, m1) \<and>
        (\<exists>l. snd s' = m1\<lparr>m_log := l\<rparr>) \<and>
        fst s' = (if is_input then (fst s)\<lparr>mo_inputs := map_put name t (mo_inputs (fst s))\<rparr>
                  else (fst s)\<lparr>mo_outputs := map_put name t (mo_outputs (fst s))\<rparr>))"

lemma put_tensor_new:
  assumes "map_of (table is_input M) name = None"
  shows "put_tensor rt is_input name t (M, m) =
    Done (if is_input then M\<lparr>mo_inputs := map_put name t (mo_inputs M)\<rparr>
          else M\<lparr>mo_outputs := map_put name t (mo_outputs M)\<rparr>, m)"
  using assms by (cases is_input) (simp_all add: put_tensor_def table_def)

lemma make_tensor_adds:
  assumes "make_tensor rt name is_input d ty s = Done s'" "name \<notin> fst ` entries (fst s)"
  shows "adds_tensor rt name is_input s s'"
proof -
  obtain M m where s: "s = (M, m)" by (cases s)
  have "map_of (table is_input M) name = None"
    using assms(2) s by (auto simp: map_of_eq_None_iff table_def entries_def image_Un)
  note put = put_tensor_new [OF this]
  obtain n t m1 line where n: "new_Tensor rt n d name m = Done (t, m1)"
    "s' = (if is_input then M\<lparr>mo_inputs := map_put name t (mo_inputs M)\<rparr>
           else M\<lparr>mo_outputs := map_put name t (mo_outputs M)\<rparr>, log_line ''INFO'' line m1)"
    using assms(1) s by (auto simp: make_tensor_def put split: prod.splits)
  have "snd s' = m1\<lparr>m_log := m_log m1 @ [''['' @ ''INFO'' @ ''] '' @ line]\<rparr>" using n(2) by (simp add: log_line_def)
  then show ?thesis unfolding adds_tensor_def s using n
    by (intro exI [of _ n] exI [of _ d] exI [of _ t] exI [of _ m1] conjI exI [of _ "m_log m1 @ [''['' @ ''INFO'' @ ''] '' @ line]"])
      simp_all
qed

lemma init_tensor_adds:
  assumes "init_tensor rt e name is_input shape profile set_shape ty s = Done s'" "name \<notin> fst ` entries (fst s)"
  shows "adds_tensor rt name is_input s s'"
proof -
  obtain d where "make_tensor rt name is_input d ty s = Done s'"
    using assms(1) by (auto simp: init_tensor_def split: prod.splits if_splits)
  then show ?thesis using assms(2) by (rule make_tensor_adds)
qed

lemma adds_tensor_ok:
  assumes "fresh_blocks rt" "tables_ok (fst s) (snd s)" "adds_tensor rt name is_input s s'"
    "name \<notin> fst ` entries (fst s)"
  shows "tables_ok (fst s') (snd s')"
proof -
  obtain n d t m1 l where n: "new_Tensor rt n d name (snd s) = Done (t, m1)" "snd s' = m1\<lparr>m_log := l\<rparr>"
    "fst s' = (if is_input then (fst s)\<lparr>mo_inputs := map_put name t (mo_inputs (fst s))\<rparr>
               else (fst s)\<lparr>mo_outputs := map_put name t (mo_outputs (fst s))\<rparr>)"
    using assms(3) by (auto simp: adds_tensor_def)
  have fresh: "name \<notin> fst ` set (mo_inputs (fst s))" "name \<notin> fst ` set (mo_outputs (fst s))"
    using assms(4) by (auto simp: entries_def)
  have e: "entries (fst s') = insert (name, t) (entries (fst s))"
    using n(3) fresh by (auto simp: entries_def set_map_put)
  note f = new_Tensor_frame [OF assms(1) n(1)]
  have dev: "m_dev (snd s') a = m_dev (snd s) a" if "m_dev (snd s) a \<noteq> None" for a
    using f that n(2) by auto
  have keep: "part_ok (snd s') u" if "part_ok (snd s) u" for u
    by (rule part_ok_frame [OF that _ dev]) (use f n(2) in auto)
  have new: "part_ok (snd s') t"
    using part_ok_frame [OF new_Tensor_part_ok [OF assms(1) n(1)], of "snd s'"] n(2) by simp
  have ap: "buffers_apart t (snd x)" if "x \<in> entries (fst s)" for x
    using new_Tensor_apart [OF assms(1) n(1)] assms(2) that by (auto simp: tables_ok_def)
  have "sorted_wrt (<) (map fst (mo_inputs (fst s')))" "sorted_wrt (<) (map fst (mo_outputs (fst s')))"
    "fst ` set (mo_inputs (fst s')) \<inter> fst ` set (mo_outputs (fst s')) = {}"
    using assms(2) n(3) fresh by (auto simp: tables_ok_def sorted_map_put)
  moreover have "\<forall>x\<in>entries (fst s'). part_ok (snd s') (snd x)"
    using e new keep assms(2) by (auto simp: tables_ok_def)
  moreover have "\<forall>x\<in>entries (fst s'). \<forall>y\<in>entries (fst s'). fst x \<noteq> fst y \<longrightarrow> buffers_apart (snd x) (snd y)"
    unfolding e using ap apart_sym [OF ap] assms(2) by (auto simp: tables_ok_def)
  ultimately show ?thesis by (simp add: tables_ok_def)
qed

lemma adds_tensor_frame:
  assumes "fresh_blocks rt" "adds_tensor rt name is_input s s'"
  shows "fst ` set (mo_inputs (fst s')) = (if is_input then insert name (fst ` set (mo_inputs (fst s))) else fst ` set (mo_inputs (fst s)))"
    and "fst ` set (mo_outputs (fst s')) = (if is_input then fst ` set (mo_outputs (fst s)) else insert name (fst ` set (mo_outputs (fst s))))"
    and "mo_engine (fst s') = mo_engine (fst s)" "m_queue (snd s') = m_queue (snd s)"
    and "mo_addresses (fst s') = mo_addresses (fst s)"
proof -
  obtain n d t m1 l where n: "new_Tensor rt n d name (snd s) = Done (t, m1)" "snd s' = m1\<lparr>m_log := l\<rparr>"
    "fst s' = (if is_input then (fst s)\<lparr>mo_inputs := map_put name t (mo_inputs (fst s))\<rparr>
               else (fst s)\<lparr>mo_outputs := map_put name t (mo_outputs (fst s))\<rparr>)"
    using assms(2) by (auto simp: adds_tensor_def)
  show "m_queue (snd s') = m_queue (snd s)" using new_Tensor_frame [OF assms(1) n(1)] n(2) by simp
  show "fst ` set (mo_inputs (fst s')) = (if is_input then insert name (fst ` set (mo_inputs (fst s))) else fst ` set (mo_inputs (fst s)))"
    "fst ` set (mo_outputs (fst s')) = (if is_input then fst ` set (mo_outputs (fst s)) else insert name (fst ` set (mo_outputs (fst s))))"
    "mo_engine (fst s') = mo_engine (fst s)" "mo_addresses (fst s') = mo_addresses (fst s)"
    unfolding n(3) by (cases is_input; simp)+
qed

text \<open>The first loop of InitContext, over answers by index.\<close>

lemma init_loop_ok:
  assumes fresh: "fresh_blocks rt" and inj: "inj_on name {..<nb}" and k: "k \<le> nb"
    and step: "\<And>i s s'. i < nb \<Longrightarrow> f i s = Done s' \<Longrightarrow> name i \<notin> fst ` entries (fst s) \<Longrightarrow> adds_tensor rt (name i) (inp i) s s'"
    and run: "fold_o f [0..<k] (M, m) = Done (M', m')" and empty: "mo_inputs M = []" "mo_outputs M = []"
  shows "tables_ok M' m' \<and> m_queue m' = m_queue m \<and> mo_engine M' = mo_engine M \<and> mo_addresses M' = mo_addresses M \<and>
    fst ` set (mo_inputs M') = {name i | i. i < k \<and> inp i} \<and>
    fst ` set (mo_outputs M') = {name i | i. i < k \<and> \<not> inp i}"
  using run k
proof (induction k arbitrary: M' m')
  case 0
  then show ?case using empty by (auto simp: tables_ok_def entries_def)
next
  case (Suc k)
  obtain M1 m1 where 1: "fold_o f [0..<k] (M, m) = Done (M1, m1)" "f k (M1, m1) = Done (M', m')"
    using Suc.prems(1) by (auto simp: fold_o_append)
  note IH = Suc.IH [OF 1(1) Suc_leD [OF Suc.prems(2)]]
  have new: "name k \<notin> fst ` entries M1"
  proof -
    have "name k \<noteq> name i" if "i < k" for i
      using inj_onD [OF inj, of k i] that Suc.prems(2) by auto
    then show ?thesis using IH by (auto simp: entries_def image_Un)
  qed
  have adds: "adds_tensor rt (name k) (inp k) (M1, m1) (M', m')"
    using step [of k "(M1, m1)" "(M', m')"] 1(2) new Suc.prems(2) by simp
  have "tables_ok M' m'" using adds_tensor_ok [OF fresh _ adds] IH new by simp
  then show ?case using IH adds_tensor_frame [OF fresh adds] by (auto simp: less_Suc_eq)
qed

section \<open>The bindings\<close>

lemma device_buffer_tables:
  "mo_inputs M' = mo_inputs M \<Longrightarrow> mo_outputs M' = mo_outputs M \<Longrightarrow> device_buffer b n M' = device_buffer b n M"
  by (simp add: device_buffer_def table_def)

lemma bind_address_loop:
  assumes "fold_o (bind_address e) [0..<k] (M\<lparr>mo_bindings := []\<rparr>, m) = Done (M', m')"
    and "inj_on (en_name e) {..<nb}" "k \<le> nb" "sorted_wrt (<) (map fst (mo_addresses M))"
  shows "m' = m \<and> mo_inputs M' = mo_inputs M \<and> mo_outputs M' = mo_outputs M \<and> mo_engine M' = mo_engine M \<and>
    sorted_wrt (<) (map fst (mo_addresses M')) \<and> length (mo_bindings M') = k \<and>
    (\<forall>i<k. device_buffer (en_input e (en_name e i)) (en_name e i) M = Done (mo_bindings M' ! i) \<and>
       map_of (mo_addresses M') (en_name e i) = Some (mo_bindings M' ! i))"
  using assms(1,3)
proof (induction k arbitrary: M' m')
  case 0
  then show ?case using assms(4) by auto
next
  case (Suc k)
  obtain M1 m1 where 1: "fold_o (bind_address e) [0..<k] (M\<lparr>mo_bindings := []\<rparr>, m) = Done (M1, m1)"
    "bind_address e k (M1, m1) = Done (M', m')"
    using Suc.prems(1) by (auto simp: fold_o_append)
  note IH = Suc.IH [OF 1(1) Suc_leD [OF Suc.prems(2)]]
  obtain buf where buf: "device_buffer (en_input e (en_name e k)) (en_name e k) M1 = Done buf" "m' = m1"
    "M' = M1\<lparr>mo_bindings := mo_bindings M1 @ [buf], mo_addresses := map_put (en_name e k) buf (mo_addresses M1)\<rparr>"
    using 1(2) by (auto simp: bind_address_def Let_def split: if_splits)
  have dk: "device_buffer (en_input e (en_name e k)) (en_name e k) M = Done buf"
    using buf(1) device_buffer_tables [of M1 M] IH by simp
  have ne: "en_name e i \<noteq> en_name e k" if "i < k" for i
    using inj_onD [OF assms(2), of i k] that Suc.prems(2) by auto
  have "length (mo_bindings M1) = k" using IH by blast
  then show ?case
    using IH buf(2,3) dk ne by (auto simp: less_Suc_eq nth_append sorted_map_put)
qed

lemma bind_index_loop:
  assumes "fold_o (bind_index e) [0..<k] (M\<lparr>mo_bindings := replicate nb None\<rparr>, m) = Done (M', m')" "k \<le> nb"
  shows "m' = m \<and> mo_inputs M' = mo_inputs M \<and> mo_outputs M' = mo_outputs M \<and> mo_engine M' = mo_engine M \<and>
    mo_addresses M' = mo_addresses M \<and> length (mo_bindings M') = nb \<and>
    (\<forall>i<k. device_buffer (bi_input e i) (en_name e i) M = Done (mo_bindings M' ! i))"
  using assms
proof (induction k arbitrary: M' m')
  case (Suc k)
  obtain M1 m1 where 1: "fold_o (bind_index e) [0..<k] (M\<lparr>mo_bindings := replicate nb None\<rparr>, m) = Done (M1, m1)"
    "bind_index e k (M1, m1) = Done (M', m')"
    using Suc.prems(1) by (auto simp: fold_o_append)
  note IH = Suc.IH [OF 1(1) Suc_leD [OF Suc.prems(2)]]
  obtain buf where buf: "device_buffer (bi_input e k) (en_name e k) M1 = Done buf" "m' = m1"
    "M' = M1\<lparr>mo_bindings := (mo_bindings M1)[k := buf]\<rparr>"
    using 1(2) by (auto simp: bind_index_def Let_def)
  have "device_buffer (bi_input e k) (en_name e k) M = Done buf"
    using buf(1) device_buffer_tables [of M1 M] IH by simp
  then show ?case using IH buf(2,3) Suc.prems(2) by (auto simp: less_Suc_eq)
qed auto

text \<open>The engine is started on the device buffers of the tables, each under the name of its tensor.\<close>

definition wired :: "trt \<Rightarrow> trt_model \<Rightarrow> bool" where
  "wired tr M \<longleftrightarrow> distinct (map fst (enqueue_arguments tr M)) \<and>
     set (enqueue_arguments tr M) =
       (\<lambda>x. (fst x, True, t_device (snd x))) ` set (mo_inputs M) \<union>
       (\<lambda>x. (fst x, False, t_device (snd x))) ` set (mo_outputs M)"

lemma sorted_keys_distinct: "sorted_wrt (<) (map fst xs) \<Longrightarrow> distinct (map fst (xs :: ('k::linorder \<times> 'v) list))"
  by (simp add: strict_sorted_iff)

lemma buffers_wired:
  assumes inj: "inj_on name {..<nb}"
    and keys: "fst ` set (mo_inputs M) = {name i | i. i < nb \<and> inp i}" "fst ` set (mo_outputs M) = {name i | i. i < nb \<and> \<not> inp i}"
    and sorted: "sorted_wrt (<) (map fst (mo_inputs M))" "sorted_wrt (<) (map fst (mo_outputs M))"
    and buf: "\<And>i. i < nb \<Longrightarrow> device_buffer (inp i) (name i) M = Done (p i)"
    and args: "enqueue_arguments tr M = map (\<lambda>i. (name i, inp i, p i)) [0..<nb]"
  shows "wired tr M"
proof -
  have d: "distinct (map fst (mo_inputs M))" "distinct (map fst (mo_outputs M))"
    using sorted sorted_keys_distinct by blast+
  have dev: "p i = t_device t" if "i < nb" "(name i, t) \<in> set (table (inp i) M)" for i t
    using buf [OF that(1)] that(2) d by (auto simp: device_buffer_def table_def split: if_splits)
  have ex: "\<exists>t. (name i, t) \<in> set (table (inp i) M)" if "i < nb" for i
    using buf [OF that] by (auto simp: device_buffer_def split: option.splits dest: map_of_SomeD)
  have "distinct (map fst (enqueue_arguments tr M))"
    unfolding args using inj by (simp add: distinct_map comp_def inj_on_def lessThan_def)
  moreover have "set (enqueue_arguments tr M) \<subseteq>
      (\<lambda>x. (fst x, True, t_device (snd x))) ` set (mo_inputs M) \<union> (\<lambda>x. (fst x, False, t_device (snd x))) ` set (mo_outputs M)"
  proof
    fix x assume "x \<in> set (enqueue_arguments tr M)"
    then obtain i where i: "i < nb" "x = (name i, inp i, p i)" unfolding args by auto
    obtain t where t: "(name i, t) \<in> set (table (inp i) M)" using ex [OF i(1)] by blast
    have x: "x = (fst (name i, t), inp i, t_device (snd (name i, t)))" using i dev [OF i(1) t] by simp
    show "x \<in> (\<lambda>x. (fst x, True, t_device (snd x))) ` set (mo_inputs M) \<union> (\<lambda>x. (fst x, False, t_device (snd x))) ` set (mo_outputs M)"
    proof (cases "inp i")
      case True
      then show ?thesis using x t by (intro UnI1 image_eqI [of _ _ "(name i, t)"]) (simp_all add: table_def)
    next
      case False
      then show ?thesis using x t by (intro UnI2 image_eqI [of _ _ "(name i, t)"]) (simp_all add: table_def)
    qed
  qed
  moreover have "(n, True, t_device t) \<in> set (enqueue_arguments tr M)" if "(n, t) \<in> set (mo_inputs M)" for n t
  proof -
    have "n \<in> fst ` set (mo_inputs M)" using imageI [OF that, of fst] by simp
    then obtain i where i: "i < nb" "inp i" "n = name i" unfolding keys(1) by blast
    then have "(name i, inp i, p i) \<in> set (enqueue_arguments tr M)" unfolding args by simp
    then show ?thesis using i that dev [of i t] by (simp add: table_def)
  qed
  moreover have "(n, False, t_device t) \<in> set (enqueue_arguments tr M)" if "(n, t) \<in> set (mo_outputs M)" for n t
  proof -
    have "n \<in> fst ` set (mo_outputs M)" using imageI [OF that, of fst] by simp
    then obtain i where i: "i < nb" "\<not> inp i" "n = name i" unfolding keys(2) by blast
    then have "(name i, inp i, p i) \<in> set (enqueue_arguments tr M)" unfolding args by simp
    then show ?thesis using i that dev [of i t] by (simp add: table_def)
  qed
  ultimately show ?thesis unfolding wired_def by (intro conjI equalityI subsetI) (blast, blast, force)
qed

lemma tables_ok_same:
  "tables_ok M m \<Longrightarrow> mo_inputs M' = mo_inputs M \<Longrightarrow> mo_outputs M' = mo_outputs M \<Longrightarrow> tables_ok M' m"
  by (simp add: tables_ok_def entries_def)

lemma tables_ok_sorted:
  "tables_ok M m \<Longrightarrow> sorted_wrt (<) (map fst (mo_inputs M))"
  "tables_ok M m \<Longrightarrow> sorted_wrt (<) (map fst (mo_outputs M))"
  by (simp_all add: tables_ok_def)

text \<open>InitContext, either variant: when it returns, the tables are in order and the engine is wired to them.\<close>

lemma InitContext_ok:
  assumes fresh: "fresh_blocks rt" and inj: "inj_on (en_name e) {..<en_nb e}"
    and run: "InitContext rt tr (empty_model b e, m) = Done (M', m')"
  shows "tables_ok M' m' \<and> wired tr M' \<and> m_queue m' = m_queue m \<and> mo_engine M' = e"
proof -
  let ?E = "empty_model b e"
  have empty: "mo_inputs ?E = []" "mo_outputs ?E = []" "mo_engine ?E = e" "mo_addresses ?E = []"
    by (simp_all add: empty_model_def)
  have ctx: "en_context e" using run empty by (auto simp: InitContext_def Let_def split: if_splits)
  show ?thesis
  proof (cases "TRT_HAS_IO_TENSOR_API tr")
    case True
    then obtain M1 m1 where 1: "fold_o (init_io_tensor rt e) [0..<en_nb e] (?E, m) = Done (M1, m1)"
      "fold_o (bind_address e) [0..<en_nb e] (M1\<lparr>mo_bindings := []\<rparr>, m1) = Done (M', m')"
      using run ctx empty by (auto simp: InitContext_def InitContext_names_def Let_def)
    note A = init_loop_ok [OF fresh inj order_refl _ 1(1) empty(1,2), where inp = "\<lambda>i. en_input e (en_name e i)"]
    have A: "tables_ok M1 m1 \<and> m_queue m1 = m_queue m \<and> mo_engine M1 = e \<and> mo_addresses M1 = [] \<and>
        fst ` set (mo_inputs M1) = {en_name e i | i. i < en_nb e \<and> en_input e (en_name e i)} \<and>
        fst ` set (mo_outputs M1) = {en_name e i | i. i < en_nb e \<and> \<not> en_input e (en_name e i)}"
      using A empty by (simp add: init_io_tensor_def Let_def init_tensor_adds)
    have M1: "mo_engine M1 = e" "sorted_wrt (<) (map fst (mo_addresses M1))" using A by simp_all
    note B = bind_address_loop [OF 1(2) inj order_refl M1(2)]
    have B: "m' = m1" "mo_inputs M' = mo_inputs M1" "mo_outputs M' = mo_outputs M1" "mo_engine M' = mo_engine M1"
      "\<And>i. i < en_nb e \<Longrightarrow> device_buffer (en_input e (en_name e i)) (en_name e i) M1 = Done (mo_bindings M' ! i)"
      "\<And>i. i < en_nb e \<Longrightarrow> map_of (mo_addresses M') (en_name e i) = Some (mo_bindings M' ! i)"
      using B by simp_all
    have "tables_ok M1 m1" using A by simp
    then have ok: "tables_ok M' m'" unfolding B(1) by (rule tables_ok_same) (rule B(2,3))+
    have args: "enqueue_arguments tr M' = map (\<lambda>i. (en_name e i, en_input e (en_name e i), mo_bindings M' ! i)) [0..<en_nb e]"
      using True B(4,6) M1(1) by (simp add: enqueue_arguments_def Let_def)
    have "wired tr M'"
    proof (rule buffers_wired [OF inj _ _ tables_ok_sorted [OF ok] _ args])
      show "fst ` set (mo_inputs M') = {en_name e i | i. i < en_nb e \<and> en_input e (en_name e i)}"
        "fst ` set (mo_outputs M') = {en_name e i | i. i < en_nb e \<and> \<not> en_input e (en_name e i)}"
        unfolding B(2,3) using A by blast+
      show "device_buffer (en_input e (en_name e i)) (en_name e i) M' = Done (mo_bindings M' ! i)" if "i < en_nb e" for i
        unfolding device_buffer_tables [OF B(2,3)] by (rule B(5) [OF that])
    qed
    then show ?thesis using ok A B(1,4) by simp
  next
    case False
    then obtain M1 m1 where 1: "fold_o (init_binding rt e) [0..<en_nb e] (?E, m) = Done (M1, m1)"
      "fold_o (bind_index e) [0..<en_nb e] (M1\<lparr>mo_bindings := replicate (en_nb e) None\<rparr>, m1) = Done (M', m')"
      using run ctx empty by (auto simp: InitContext_def InitContext_indices_def Let_def)
    note A = init_loop_ok [OF fresh inj order_refl _ 1(1) empty(1,2), where inp = "bi_input e"]
    have A: "tables_ok M1 m1 \<and> m_queue m1 = m_queue m \<and> mo_engine M1 = e \<and>
        fst ` set (mo_inputs M1) = {en_name e i | i. i < en_nb e \<and> bi_input e i} \<and>
        fst ` set (mo_outputs M1) = {en_name e i | i. i < en_nb e \<and> \<not> bi_input e i}"
      using A empty by (simp add: init_binding_def init_tensor_adds)
    have M1: "mo_engine M1 = e" using A by simp
    note B = bind_index_loop [OF 1(2) order_refl]
    have B: "m' = m1" "mo_inputs M' = mo_inputs M1" "mo_outputs M' = mo_outputs M1" "mo_engine M' = mo_engine M1"
      "\<And>i. i < en_nb e \<Longrightarrow> device_buffer (bi_input e i) (en_name e i) M1 = Done (mo_bindings M' ! i)"
      using B by simp_all
    have "tables_ok M1 m1" using A by simp
    then have ok: "tables_ok M' m'" unfolding B(1) by (rule tables_ok_same) (rule B(2,3))+
    have args: "enqueue_arguments tr M' = map (\<lambda>i. (en_name e i, bi_input e i, mo_bindings M' ! i)) [0..<en_nb e]"
      using False B(4) M1 by (simp add: enqueue_arguments_def Let_def)
    have "wired tr M'"
    proof (rule buffers_wired [OF inj _ _ tables_ok_sorted [OF ok] _ args])
      show "fst ` set (mo_inputs M') = {en_name e i | i. i < en_nb e \<and> bi_input e i}"
        "fst ` set (mo_outputs M') = {en_name e i | i. i < en_nb e \<and> \<not> bi_input e i}"
        unfolding B(2,3) using A by blast+
      show "device_buffer (bi_input e i) (en_name e i) M' = Done (mo_bindings M' ! i)" if "i < en_nb e" for i
        unfolding device_buffer_tables [OF B(2,3)] by (rule B(5) [OF that])
    qed
    then show ?thesis using ok A B(1,4) by simp
  qed
qed

section \<open>Inference\<close>

lemma submit_all:
  assumes "\<And>k. \<not> rt_cuda_fails rt k"
  shows "fold_o (\<lambda>x. submit rt (g x)) xs m =
    Done (m\<lparr>m_calls := m_calls m + length xs, m_queue := m_queue m @ map g xs\<rparr>)"
  using assms by (induction xs arbitrary: m) (simp_all add: submit_def CUDART_ASSERT_def)

text \<open>The copies to the device, in any order of the tensors.\<close>

lemma run_copies_in:
  assumes "\<forall>t\<in>set ts. tensor_ok m t" "distinct (map t_device ts)"
  shows "\<exists>m'. fold_o (run_op rt) (map (\<lambda>t. MemcpyHostToDevice (t_device t) (t_host t) (t_size t)) ts) m = Done m' \<and>
    m_host m' = m_host m \<and> m_queue m' = m_queue m \<and>
    (\<forall>t\<in>set ts. contents (m_dev m') (t_device t) = contents (m_host m) (t_host t)) \<and>
    (\<forall>q. q \<notin> t_device ` set ts \<longrightarrow> contents (m_dev m') q = contents (m_dev m) q)"
  using assms
proof (induction ts arbitrary: m)
  case (Cons t ts)
  obtain hb db where b: "contents (m_host m) (t_host t) = Some hb" "length hb = t_size t"
    "contents (m_dev m) (t_device t) = Some db" "length db = t_size t"
    using Cons.prems(1) by (auto simp: tensor_ok_def)
  obtain m1 where m1: "run_op rt (MemcpyHostToDevice (t_device t) (t_host t) (t_size t)) m = Done m1"
    "contents (m_dev m1) (t_device t) = Some hb" "m_host m1 = m_host m" "m_queue m1 = m_queue m"
    "\<And>q. q \<noteq> t_device t \<Longrightarrow> contents (m_dev m1) q = contents (m_dev m) q"
    using run_HostToDevice [OF b(1,3,2,4)] by blast
  have "tensor_ok m1 u" if "tensor_ok m u" for u
  proof (rule tensor_ok_transfer [OF that])
    show "\<exists>bs'. contents (m_host m1) p = Some bs' \<and> length bs' = length bs" if "contents (m_host m) p = Some bs" for p bs
      using that m1(3) by simp
    show "\<exists>bs'. contents (m_dev m1) p = Some bs' \<and> length bs' = length bs" if "contents (m_dev m) p = Some bs" for p bs
      using that m1(2,5) b by (cases "p = t_device t") auto
  qed
  then have "\<forall>u\<in>set ts. tensor_ok m1 u" using Cons.prems(1) by simp
  from Cons.IH [OF this] Cons.prems(2) obtain m2 where
    m2: "fold_o (run_op rt) (map (\<lambda>t. MemcpyHostToDevice (t_device t) (t_host t) (t_size t)) ts) m1 = Done m2"
      "m_host m2 = m_host m1" "m_queue m2 = m_queue m1"
      "\<forall>t\<in>set ts. contents (m_dev m2) (t_device t) = contents (m_host m1) (t_host t)"
      "\<forall>q. q \<notin> t_device ` set ts \<longrightarrow> contents (m_dev m2) q = contents (m_dev m1) q" by auto
  have "t_device t \<notin> t_device ` set ts" using Cons.prems(2) by simp
  then show ?case using m1 m2 b(1) by (intro exI [of _ m2]) auto
qed auto

lemma run_copies_out:
  assumes "\<forall>t\<in>set ts. tensor_ok m t" "distinct (map t_host ts)"
  shows "\<exists>m'. fold_o (run_op rt) (map (\<lambda>t. MemcpyDeviceToHost (t_host t) (t_device t) (t_size t)) ts) m = Done m' \<and>
    m_dev m' = m_dev m \<and> m_queue m' = m_queue m \<and>
    (\<forall>t\<in>set ts. contents (m_host m') (t_host t) = contents (m_dev m) (t_device t)) \<and>
    (\<forall>q. q \<notin> t_host ` set ts \<longrightarrow> contents (m_host m') q = contents (m_host m) q)"
  using assms
proof (induction ts arbitrary: m)
  case (Cons t ts)
  obtain hb db where b: "contents (m_host m) (t_host t) = Some hb" "length hb = t_size t"
    "contents (m_dev m) (t_device t) = Some db" "length db = t_size t"
    using Cons.prems(1) by (auto simp: tensor_ok_def)
  obtain m1 where m1: "run_op rt (MemcpyDeviceToHost (t_host t) (t_device t) (t_size t)) m = Done m1"
    "contents (m_host m1) (t_host t) = Some db" "m_dev m1 = m_dev m" "m_queue m1 = m_queue m"
    "\<And>q. q \<noteq> t_host t \<Longrightarrow> contents (m_host m1) q = contents (m_host m) q"
    using run_DeviceToHost [OF b(3,1,4,2)] by blast
  have "tensor_ok m1 u" if "tensor_ok m u" for u
    by (rule host_frame_ok [OF that b(1) m1(2)]) (use m1(3,5) b in auto)
  then have "\<forall>u\<in>set ts. tensor_ok m1 u" using Cons.prems(1) by simp
  from Cons.IH [OF this] Cons.prems(2) obtain m2 where
    m2: "fold_o (run_op rt) (map (\<lambda>t. MemcpyDeviceToHost (t_host t) (t_device t) (t_size t)) ts) m1 = Done m2"
      "m_dev m2 = m_dev m1" "m_queue m2 = m_queue m1"
      "\<forall>t\<in>set ts. contents (m_host m2) (t_host t) = contents (m_dev m1) (t_device t)"
      "\<forall>q. q \<notin> t_host ` set ts \<longrightarrow> contents (m_host m2) q = contents (m_host m1) q" by auto
  have "t_host t \<notin> t_host ` set ts" using Cons.prems(2) by simp
  then show ?case using m1 m2 b(3) by (intro exI [of _ m2]) auto
qed auto

text \<open>The engine, between the copies.\<close>

lemma execute_inputs_in:
  "distinct (map fst bs) \<Longrightarrow> (n, True, p) \<in> set bs \<Longrightarrow> execute_inputs dev bs n = contents dev p"
  by (induction dev bs rule: execute_inputs.induct) (force simp: contents_def Let_def)+

lemma execute_inputs_out:
  "\<forall>p. (n, True, p) \<notin> set bs \<Longrightarrow> execute_inputs dev bs n = None"
  by (induction dev bs rule: execute_inputs.induct) (auto simp: Let_def)

lemma execute_outputs_ok:
  assumes "\<forall>n p. (n, False, p) \<in> set bs \<longrightarrow> contents dev p \<noteq> None"
    "distinct (map (snd \<circ> snd) (filter (\<lambda>b. \<not> fst (snd b)) bs))"
  shows "\<exists>dev'. execute_outputs rt ins bs dev = Some dev' \<and>
    (\<forall>n p old. (n, False, p) \<in> set bs \<longrightarrow> contents dev p = Some old \<longrightarrow>
       contents dev' p = Some (map (rt_infer rt ins n) [0..<length old])) \<and>
    (\<forall>q. (\<forall>n. (n, False, q) \<notin> set bs) \<longrightarrow> contents dev' q = contents dev q)"
  using assms
proof (induction rt ins bs dev rule: execute_outputs.induct)
  case (2 rt ins name is_input p bs dev)
  show ?case
  proof (cases is_input)
    case True
    then show ?thesis using 2(1) [OF True] 2(3,4) by auto
  next
    case False
    have "contents dev p \<noteq> None" using 2(3) False by auto
    then obtain a old where a: "p = Some a" "dev a = Some old" by (cases p) auto
    let ?dev = "dev(a \<mapsto> map (rt_infer rt ins name) [0..<length old])"
    have pd: "(n, False, p) \<notin> set bs" for n using 2(4) False by force
    have other: "contents ?dev q = contents dev q" if "q \<noteq> p" for q using that a by (cases q) auto
    have all: "\<forall>n q. (n, False, q) \<in> set bs \<longrightarrow> contents ?dev q \<noteq> None"
      using 2(3) other pd by (metis insert_iff list.set(2))
    have dist: "distinct (map (snd \<circ> snd) (filter (\<lambda>b. \<not> fst (snd b)) bs))" using 2(4) False by (simp add: comp_def)
    obtain dev' where d: "execute_outputs rt ins bs ?dev = Some dev'"
      "\<forall>n q o'. (n, False, q) \<in> set bs \<longrightarrow> contents ?dev q = Some o' \<longrightarrow>
         contents dev' q = Some (map (rt_infer rt ins n) [0..<length o'])"
      "\<forall>q. (\<forall>n. (n, False, q) \<notin> set bs) \<longrightarrow> contents dev' q = contents ?dev q"
      using 2(2) [OF False a all dist] by blast
    have "contents dev' p = Some (map (rt_infer rt ins name) [0..<length old])"
      using spec [OF d(3), of p] pd a by simp
    moreover have "contents dev' q = Some (map (rt_infer rt ins n) [0..<length o'])"
      if "(n, False, q) \<in> set bs" "contents dev q = Some o'" for n q o'
      using d(2) other [of q] that pd by metis
    moreover have "contents dev' q = contents dev q" if "\<forall>n. (n, False, q) \<notin> set ((name, is_input, p) # bs)" for q
      using d(3) other [of q] that False by auto
    ultimately show ?thesis using d(1) a False by (intro exI [of _ dev']) auto
  qed
qed auto

text \<open>What the engine reads: the host buffers of the inputs, once they are copied.\<close>

definition host_inputs :: "trt_model \<Rightarrow> memory \<Rightarrow> string \<Rightarrow> string option" where
  "host_inputs M m n = (case map_of (mo_inputs M) n of None \<Rightarrow> None | Some t \<Rightarrow> contents (m_host m) (t_host t))"

lemma distinct_apart:
  assumes "distinct (map fst xs)" "\<And>x y. x \<in> set xs \<Longrightarrow> y \<in> set xs \<Longrightarrow> fst x \<noteq> fst y \<Longrightarrow> f x \<noteq> f y"
  shows "distinct (map f xs)"
  using assms by (induction xs) (auto simp: image_iff)

lemma InferWithCopy_ok:
  assumes tables: "tables_ok M m" and wired: "wired tr M" and queue: "m_queue m = []"
    and host: "\<forall>x\<in>entries M. t_host (snd x) \<noteq> None \<and> t_correct (snd x) \<noteq> None"
    and cuda: "\<And>k. \<not> rt_cuda_fails rt k"
  shows "\<exists>m'. InferWithCopy rt tr M m = Done m' \<and> m_queue m' = [] \<and>
    (\<forall>(n, t)\<in>set (mo_outputs M).
       contents (m_host m') (t_host t) = Some (map (rt_infer rt (host_inputs M m) n) [0..<t_size t])) \<and>
    (\<forall>q. (\<forall>x\<in>set (mo_outputs M). q \<noteq> t_host (snd x)) \<longrightarrow> contents (m_host m') q = contents (m_host m) q)"
proof -
  let ?ins = "map snd (mo_inputs M)" and ?outs = "map snd (mo_outputs M)"
  let ?in = "\<lambda>t. MemcpyHostToDevice (t_device t) (t_host t) (t_size t)"
  let ?out = "\<lambda>t. MemcpyDeviceToHost (t_host t) (t_device t) (t_size t)"
  let ?bs = "enqueue_arguments tr M"
  have ok: "tensor_ok m (snd x)" if "x \<in> entries M" for x
    using that tables host part_ok_full by (auto simp: tables_ok_def)
  have buffers_apart: "buffers_apart (snd x) (snd y)" if "x \<in> entries M" "y \<in> entries M" "fst x \<noteq> fst y" for x y
    using that tables by (auto simp: tables_ok_def)
  have keys: "distinct (map fst (mo_inputs M))" "distinct (map fst (mo_outputs M))"
    using tables_ok_sorted [OF tables] sorted_keys_distinct by blast+
  have disjoint: "fst x \<noteq> fst y" if "x \<in> set (mo_inputs M)" "y \<in> set (mo_outputs M)" for x y
    using tables that by (auto simp: tables_ok_def)
  have e: "set (mo_inputs M) \<subseteq> entries M" "set (mo_outputs M) \<subseteq> entries M" by (auto simp: entries_def)
  have d_in: "distinct (map (t_device \<circ> snd) (mo_inputs M))"
  proof (rule distinct_apart [OF keys(1)])
    fix x y assume "x \<in> set (mo_inputs M)" "y \<in> set (mo_inputs M)" "fst x \<noteq> fst y"
    then show "(t_device \<circ> snd) x \<noteq> (t_device \<circ> snd) y" using buffers_apart [of x y] e(1) by (auto simp: buffers_apart_def)
  qed
  have d_out: "distinct (map (t_host \<circ> snd) (mo_outputs M))"
  proof (rule distinct_apart [OF keys(2)])
    fix x y assume x: "x \<in> set (mo_outputs M)" "y \<in> set (mo_outputs M)" "fst x \<noteq> fst y"
    then obtain a where "t_host (snd x) = Some a" using host e(2) by auto
    then show "(t_host \<circ> snd) x \<noteq> (t_host \<circ> snd) y" using buffers_apart [of x y] x e(2) by (auto simp: buffers_apart_def)
  qed
  have d_in': "distinct (map t_device ?ins)" and d_out': "distinct (map t_host ?outs)" using d_in d_out by simp_all
  define m0 where "m0 = m\<lparr>m_calls := m_calls m + length ?ins + 1 + length ?outs, m_queue := []\<rparr>"
  have m0: "m_host m0 = m_host m" "m_dev m0 = m_dev m" and m0q: "m_queue m0 = []" by (simp_all add: m0_def)
  have subm: "InferWithCopy rt tr M m =
      StreamSynchronize rt (m0\<lparr>m_queue := map ?in ?ins @ [Execute ?bs] @ map ?out ?outs\<rparr>)"
  proof -
    have 1: "CopyInputAsync rt M m = Done (m\<lparr>m_calls := m_calls m + length ?ins, m_queue := map ?in ?ins\<rparr>)"
      using submit_all [OF cuda, of "?in \<circ> snd" "mo_inputs M" m] queue
      by (simp add: CopyInputAsync_def CopyToDeviceAsync_def case_prod_beta' comp_def)
    have 2: "CopyOutputAsync rt M k = Done (k\<lparr>m_calls := m_calls k + length ?outs, m_queue := m_queue k @ map ?out ?outs\<rparr>)" for k
      using submit_all [OF cuda, of "?out \<circ> snd" "mo_outputs M" k]
      by (simp add: CopyOutputAsync_def CopyToHostAsync_def case_prod_beta' comp_def)
    show ?thesis
      using cuda by (simp add: InferWithCopy_def 1 2 InferAsync_def Enqueue_def submit_def CUDART_ASSERT_def m0_def)
  qed
  have t_in: "\<forall>t\<in>set ?ins. tensor_ok m0 t" and t_out: "\<forall>t\<in>set ?outs. tensor_ok m0 t"
    using ok e m0 by (auto simp: tensor_ok_def)
  obtain m1 where m1: "fold_o (run_op rt) (map ?in ?ins) m0 = Done m1" "m_host m1 = m_host m" "m_queue m1 = []"
    "\<forall>t\<in>set ?ins. contents (m_dev m1) (t_device t) = contents (m_host m) (t_host t)"
    "\<forall>q. q \<notin> t_device ` set ?ins \<longrightarrow> contents (m_dev m1) q = contents (m_dev m) q"
    using run_copies_in [OF t_in d_in', of rt] unfolding m0 m0q by blast
  have args: "distinct (map fst ?bs)"
    "set ?bs = (\<lambda>x. (fst x, True, t_device (snd x))) ` set (mo_inputs M) \<union>
       (\<lambda>x. (fst x, False, t_device (snd x))) ` set (mo_outputs M)"
    using wired by (simp_all add: wired_def)
  have ins: "execute_inputs (m_dev m1) ?bs = host_inputs M m"
  proof
    fix n
    show "execute_inputs (m_dev m1) ?bs n = host_inputs M m n"
    proof (cases "map_of (mo_inputs M) n")
      case None
      then have "\<forall>p. (n, True, p) \<notin> set ?bs" unfolding args(2) by (force simp: map_of_eq_None_iff)
      then show ?thesis using None by (simp add: execute_inputs_out host_inputs_def)
    next
      case (Some t)
      then have t: "(n, t) \<in> set (mo_inputs M)" by (rule map_of_SomeD)
      then have "(n, True, t_device t) \<in> set ?bs" unfolding args(2) by force
      then show ?thesis using Some m1(4) t execute_inputs_in [OF args(1)] by (force simp: host_inputs_def)
    qed
  qed
  have dev_out: "contents (m_dev m1) (t_device t) = contents (m_dev m) (t_device t)" if "(n, t) \<in> set (mo_outputs M)" for n t
  proof -
    have "t_device t \<noteq> t_device (snd x)" if "x \<in> set (mo_inputs M)" for x
    proof -
      have "(n, t) \<in> set (mo_outputs M)" by fact
      then show ?thesis
        using buffers_apart [OF subsetD [OF e(1) that] subsetD [OF e(2), of "(n, t)"]] disjoint [OF that, of "(n, t)"]
        by (auto simp: buffers_apart_def)
    qed
    then have "t_device t \<notin> t_device ` set ?ins" by auto
    then show ?thesis using m1(5) by blast
  qed
  have size_out: "\<exists>bs. contents (m_dev m) (t_device t) = Some bs \<and> length bs = t_size t" if "(n, t) \<in> set (mo_outputs M)" for n t
    using ok [of "(n, t)"] that e by (auto simp: tensor_ok_def)
  have all: "\<forall>n p. (n, False, p) \<in> set ?bs \<longrightarrow> contents (m_dev m1) p \<noteq> None"
    unfolding args(2) using dev_out size_out by force
  have one: "distinct (map (snd \<circ> snd) (filter (\<lambda>b. \<not> fst (snd b)) ?bs))"
  proof (rule distinct_apart)
    show "distinct (map fst (filter (\<lambda>b. \<not> fst (snd b)) ?bs))" using args(1) by (rule distinct_map_filter)
    show "(snd \<circ> snd) x \<noteq> (snd \<circ> snd) y" if "x \<in> set (filter (\<lambda>b. \<not> fst (snd b)) ?bs)"
        "y \<in> set (filter (\<lambda>b. \<not> fst (snd b)) ?bs)" "fst x \<noteq> fst y" for x y
    proof -
      note xy = that
      obtain u v where u: "u \<in> set (mo_outputs M)" "x = (fst u, False, t_device (snd u))"
          "v \<in> set (mo_outputs M)" "y = (fst v, False, t_device (snd v))"
        using xy(1,2) unfolding set_filter args(2) by auto
      then show ?thesis using buffers_apart [of u v] xy(3) e(2) by (auto simp: buffers_apart_def)
    qed
  qed
  obtain d2 where d2: "execute_outputs rt (host_inputs M m) ?bs (m_dev m1) = Some d2"
    "\<forall>n p old. (n, False, p) \<in> set ?bs \<longrightarrow> contents (m_dev m1) p = Some old \<longrightarrow>
       contents d2 p = Some (map (rt_infer rt (host_inputs M m) n) [0..<length old])"
    using execute_outputs_ok [OF all one] by blast
  define m2 where "m2 = m1\<lparr>m_dev := d2\<rparr>"
  have r2: "run_op rt (Execute ?bs) m1 = Done m2" by (simp add: run_op.simps ins d2(1) defined_o_def m2_def)
  have out2: "contents (m_dev m2) (t_device t) = Some (map (rt_infer rt (host_inputs M m) n) [0..<t_size t])"
    if "(n, t) \<in> set (mo_outputs M)" for n t
  proof -
    have "(n, False, t_device t) \<in> set ?bs" unfolding args(2) using that by force
    then show ?thesis using d2(2) dev_out [OF that] size_out [OF that] by (auto simp: m2_def)
  qed
  have m2: "m_host m2 = m_host m" "m_queue m2 = []" using m1(2,3) by (simp_all add: m2_def)
  have t2: "\<forall>t\<in>set ?outs. tensor_ok m2 t"
    using t_out out2 m0 m1(2) by (auto simp: tensor_ok_def m2_def)
  obtain m3 where m3: "fold_o (run_op rt) (map ?out ?outs) m2 = Done m3" "m_queue m3 = []"
    "\<forall>t\<in>set ?outs. contents (m_host m3) (t_host t) = contents (m_dev m2) (t_device t)"
    "\<forall>q. q \<notin> t_host ` set ?outs \<longrightarrow> contents (m_host m3) q = contents (m_host m) q"
    using run_copies_out [OF t2 d_out', of rt] unfolding m2 by blast
  have "InferWithCopy rt tr M m = Done (m3\<lparr>m_calls := m_calls m3 + 1\<rparr>)"
    unfolding subm using m1(1) r2 m3(1) cuda
    by (simp add: StreamSynchronize_def fold_o_append CUDART_ASSERT_def m0_def)
  then show ?thesis using m3 out2 by (intro exI [of _ "m3\<lparr>m_calls := m_calls m3 + 1\<rparr>"]) force
qed

section \<open>The saved engine\<close>

lemma SaveEngine_Done:
  assumes "SaveEngine tr H p e m fs = (Done m', fs')"
  shows "\<exists>bytes. tr_serialize tr e = Some bytes \<and> fs' = fs(names p \<mapsto> File bytes)"
proof -
  obtain bytes where b: "tr_serialize tr e = Some bytes"
    using assms by (auto simp: SaveEngine_def split: option.splits)
  obtain f where f: "open_trunc H p fs = Some f"
    using assms b by (auto simp: SaveEngine_def split: option.splits)
  then have f': "f = fs(names p \<mapsto> File [])" by (auto simp: open_trunc_def split: if_splits)
  then have "fs' = fs(names p \<mapsto> File bytes)"
    using assms b f by (auto simp: SaveEngine_def write_stream_def split: if_splits)
  then show ?thesis using b by blast
qed

text \<open>An abort of SaveEngine after the file was opened leaves the file there, empty.\<close>

lemma SaveEngine_write_fails:
  assumes "tr_serialize tr e = Some bytes" "open_trunc H p fs = Some fs'" "write_fails H p bytes"
  shows "SaveEngine tr H p e m fs = (Aborted, fs')" "fs' (names p) = Some (File [])"
  using assms by (auto simp: SaveEngine_def write_stream_def open_trunc_def split: if_splits)

lemma obtain_engine_file:
  "fs (names p) = Some (File bytes) \<Longrightarrow>
   obtain_engine rt tr H w onnx p b m fs = (LoadEngine rt tr (path_string p) (Some bytes) m, fs)"
  by (simp add: obtain_engine_def file_text_def)

section \<open>The two variants of InitContext\<close>

text \<open>What an engine answers about a tensor is the same by name and by index, and addresses can be set.\<close>

definition answers_agree :: "engine \<Rightarrow> bool" where
  "answers_agree e \<longleftrightarrow>
     (\<forall>i<en_nb e. bi_dims e i = en_shape e (en_name e i) \<and> bi_input e i = en_input e (en_name e i) \<and>
        bi_type e i = en_type e (en_name e i) \<and> bi_profile e i = en_profile e (en_name e i) \<and>
        bi_set_dims e i = en_set_shape e (en_name e i) \<and> (\<forall>p. en_set_address e (en_name e i) p))"

fun map_o :: "('a \<Rightarrow> 'b) \<Rightarrow> 'a ending \<Rightarrow> 'b ending" where
  "map_o f (Done a) = Done (f a)"
| "map_o f Aborted = Aborted"
| "map_o f Thrown = Thrown"
| "map_o f Undefined = Undefined"

lemma fold_o_cong: "(\<And>x s. x \<in> set xs \<Longrightarrow> f x s = g x s) \<Longrightarrow> fold_o f xs s = fold_o g xs s"
proof (induction xs arbitrary: s)
  case (Cons x xs)
  then show ?case by (cases "g x s") auto
qed simp

lemma bind_o_right [simp]: "bind_o x Done = x"
  by (cases x) auto

lemma fold_o_snoc: "fold_o f (xs @ [x]) s = bind_o (fold_o f xs s) (f x)"
proof -
  have "fold_o f [x] = f x" by (rule ext) (simp del: bind_o_Done add: fold_o.simps(1) [abs_def])
  then show ?thesis by (simp add: fold_o_append)
qed

text \<open>The tables and the bindings, without the addresses that only version 10 keeps in its context.\<close>

definition without_addresses :: "trt_model \<times> memory \<Rightarrow> trt_model \<times> memory" where
  "without_addresses s = ((fst s)\<lparr>mo_addresses := []\<rparr>, snd s)"

text \<open>Both second loops store the same device buffers, or stop at the same missing tensor.\<close>

lemma bind_loops_agree:
  assumes agree: "answers_agree e" and k: "k \<le> en_nb e"
  shows "map_o (\<lambda>(M, m). (M\<lparr>mo_bindings := mo_bindings M @ replicate (en_nb e - k) None, mo_addresses := []\<rparr>, m))
           (fold_o (bind_address e) [0..<k] (M\<lparr>mo_bindings := []\<rparr>, m)) =
         map_o without_addresses (fold_o (bind_index e) [0..<k] (M\<lparr>mo_bindings := replicate (en_nb e) None\<rparr>, m)) \<and>
    (\<forall>M' m'. fold_o (bind_address e) [0..<k] (M\<lparr>mo_bindings := []\<rparr>, m) = Done (M', m') \<longrightarrow> length (mo_bindings M') = k)"
  using k
proof (induction k)
  case 0
  then show ?case by (simp add: without_addresses_def)
next
  case (Suc k)
  let ?F = "fold_o (bind_address e) [0..<k] (M\<lparr>mo_bindings := []\<rparr>, m)"
  let ?G = "fold_o (bind_index e) [0..<k] (M\<lparr>mo_bindings := replicate (en_nb e) None\<rparr>, m)"
  have k: "k < en_nb e" using Suc.prems by simp
  note IH = Suc.IH [OF Suc_leD [OF Suc.prems]]
  have inp: "bi_input e k = en_input e (en_name e k)" "\<And>p. en_set_address e (en_name e k) p"
    using agree k by (auto simp: answers_agree_def)
  show ?case
  proof (cases ?F)
    case (Done s)
    obtain M1 m1 where s: "s = (M1, m1)" by (cases s)
    obtain M2 m2 where G: "?G = Done (M2, m2)" using IH Done s by (cases ?G) auto
    have eq: "M2\<lparr>mo_addresses := []\<rparr> = M1\<lparr>mo_bindings := mo_bindings M1 @ replicate (en_nb e - k) None, mo_addresses := []\<rparr>"
      "m2 = m1" and len: "length (mo_bindings M1) = k"
      using IH Done s G by (auto simp: without_addresses_def)
    have f: "mo_inputs M2 = mo_inputs M1" "mo_outputs M2 = mo_outputs M1" "mo_batch M2 = mo_batch M1" "mo_engine M2 = mo_engine M1"
      "mo_bindings M2 = mo_bindings M1 @ replicate (en_nb e - k) None"
      using arg_cong [OF eq(1), of mo_inputs] arg_cong [OF eq(1), of mo_outputs] arg_cong [OF eq(1), of mo_batch]
        arg_cong [OF eq(1), of mo_engine] arg_cong [OF eq(1), of mo_bindings] by simp_all
    have upd: "(mo_bindings M1 @ replicate (en_nb e - k) None)[k := buf] = (mo_bindings M1 @ [buf]) @ replicate (en_nb e - Suc k) None"
      for buf :: pointer
      using len Suc_diff_Suc [OF k, symmetric] by (simp add: list_update_append)
    have "device_buffer (bi_input e k) (en_name e k) M2 = device_buffer (en_input e (en_name e k)) (en_name e k) M1"
      using inp(1) device_buffer_tables [OF f(1,2)] by simp
    note buf = this
    note step = bind_address_def [of e k "(M1, m1)"] bind_index_def [of e k "(M2, m2)"]
    show ?thesis
    proof (cases "device_buffer (en_input e (en_name e k)) (en_name e k) M1")
      case d: (Done p)
      have "bind_address e k (M1, m1) =
          Done (M1\<lparr>mo_bindings := mo_bindings M1 @ [p], mo_addresses := map_put (en_name e k) p (mo_addresses M1)\<rparr>, m1)"
        using d inp(2) step(1) by (simp add: Let_def)
      moreover have "bind_index e k (M2, m2) = Done (M2\<lparr>mo_bindings := (mo_bindings M1 @ [p]) @ replicate (en_nb e - Suc k) None\<rparr>, m1)"
        using d buf step(2) f(5) upd [of p] eq(2) by (simp add: Let_def)
      ultimately show ?thesis
        using Done s G f len by (simp add: fold_o_snoc without_addresses_def)
    qed (use Done s G buf step in \<open>simp_all add: fold_o_snoc Let_def\<close>)
  qed (use IH in \<open>cases ?G; auto simp: fold_o_snoc\<close>)+
qed

section \<open>The batch size\<close>

definition with_batch :: "int \<Rightarrow> trt_model \<times> memory \<Rightarrow> trt_model \<times> memory" where
  "with_batch b s = ((fst s)\<lparr>mo_batch := b\<rparr>, snd s)"

lemma fold_o_commute:
  "(\<And>x s. x \<in> set xs \<Longrightarrow> f x (g s) = map_o g (f x s)) \<Longrightarrow> fold_o f xs (g s) = map_o g (fold_o f xs s)"
proof (induction xs arbitrary: s)
  case (Cons x xs)
  then show ?case by (cases "f x s") auto
qed simp

lemma make_tensor_batch:
  "make_tensor rt name i d ty (with_batch b s) = map_o (with_batch b) (make_tensor rt name i d ty s)"
proof -
  obtain M m where s: "s = (M, m)" by (cases s)
  have t: "table j (M\<lparr>mo_batch := b\<rparr>) = table j M" for j by (simp add: table_def)
  have p: "put_tensor rt i name u (M\<lparr>mo_batch := b\<rparr>, k) = map_o (with_batch b) (put_tensor rt i name u (M, k))" for u k
    by (cases i; cases "map_of (table i M) name"; simp add: put_tensor_def t with_batch_def;
        cases "destroy_Tensor rt (the (map_of (table i M) name)) k"; simp add: with_batch_def)
  show ?thesis
  proof (cases "volume d")
    case None
    then show ?thesis by (simp add: make_tensor_def s with_batch_def defined_o_def)
  next
    case (Some v)
    show ?thesis
    proof (cases "GetSize ty")
      case (Done el)
      show ?thesis
      proof (cases "new_Tensor rt (total_size v el) d name m")
        case n: (Done a)
        obtain u k where a: "a = (u, k)" by (cases a)
        obtain tn where tn: "GetTypeName ty = Done tn" using type_known [OF Done] by blast
        show ?thesis
          using Some Done n a tn p [of u k]
          by (cases "put_tensor rt i name u (M, k)")
            (auto simp: make_tensor_def s with_batch_def defined_o_def simp del: bind_o_Done)
      qed (simp_all add: make_tensor_def s with_batch_def defined_o_def Some Done)
    qed (simp_all add: make_tensor_def s with_batch_def defined_o_def Some)
  qed
qed

lemma init_tensor_batch:
  assumes "en_profiles e > 0"
  shows "init_tensor rt e name i sh pr ss ty (with_batch b s) = map_o (with_batch b) (init_tensor rt e name i sh pr ss ty s)"
proof (cases "snd (fill_dims b sh)")
  case True
  then have "snd (fill_dims (mo_batch (fst s)) sh)" using fill_dims_flag by blast
  then show ?thesis using True assms make_tensor_batch
    by (cases "ss pr") (simp_all add: init_tensor_def with_batch_def case_prod_beta' assert_o_def)
next
  case False
  then have f: "\<not> snd (fill_dims (mo_batch (fst s)) sh)" using fill_dims_flag by blast
  have "fst (fill_dims b sh) = sh" "fst (fill_dims (mo_batch (fst s)) sh) = sh"
    using fill_dims_closed [OF False] fill_dims_closed [OF f] by simp_all
  then show ?thesis using False f make_tensor_batch by (simp add: init_tensor_def with_batch_def case_prod_beta')
qed

lemma device_buffer_batch: "device_buffer i n (M\<lparr>mo_batch := b\<rparr>) = device_buffer i n M"
  by (simp add: device_buffer_def table_def)

lemma bind_address_batch: "bind_address e i (with_batch b s) = map_o (with_batch b) (bind_address e i s)"
  by (cases s; cases "device_buffer (en_input e (en_name e i)) (en_name e i) (fst s)")
    (auto simp: bind_address_def with_batch_def device_buffer_batch Let_def)

lemma bind_index_batch: "bind_index e i (with_batch b s) = map_o (with_batch b) (bind_index e i s)"
  by (cases s; cases "device_buffer (bi_input e i) (en_name e i) (fst s)")
    (auto simp: bind_index_def with_batch_def device_buffer_batch)

lemma bind_o_commute:
  "(\<And>s. B (g s) = map_o g (B s)) \<Longrightarrow> bind_o (map_o g x) B = map_o g (bind_o x B)"
  by (cases x) auto

lemma batch_bindings: "M\<lparr>mo_batch := b, mo_bindings := bs\<rparr> = M\<lparr>mo_bindings := bs, mo_batch := b\<rparr>"
  by simp

lemma InitContext_batch:
  assumes "en_profiles (mo_engine (fst s)) > 0"
  shows "InitContext rt tr (with_batch b s) = map_o (with_batch b) (InitContext rt tr s)"
proof -
  let ?e = "mo_engine (fst s)"
  have e: "mo_engine (fst (with_batch b s)) = ?e" by (simp add: with_batch_def)
  have names: "InitContext_names rt ?e (with_batch b s) = map_o (with_batch b) (InitContext_names rt ?e s)"
  proof -
    have 1: "fold_o (init_io_tensor rt ?e) [0..<en_nb ?e] (with_batch b s) =
        map_o (with_batch b) (fold_o (init_io_tensor rt ?e) [0..<en_nb ?e] s)"
      by (rule fold_o_commute) (simp add: init_io_tensor_def Let_def init_tensor_batch [OF assms])
    have 2: "fold_o (bind_address ?e) [0..<en_nb ?e] (with_batch b (M\<lparr>mo_bindings := []\<rparr>, m)) =
        map_o (with_batch b) (fold_o (bind_address ?e) [0..<en_nb ?e] (M\<lparr>mo_bindings := []\<rparr>, m))" for M m
      by (rule fold_o_commute) (rule bind_address_batch)
    show ?thesis
      unfolding InitContext_names_def 1 by (rule bind_o_commute) (use 2 in \<open>simp add: with_batch_def case_prod_beta' batch_bindings\<close>)
  qed
  have indices: "InitContext_indices rt ?e (with_batch b s) = map_o (with_batch b) (InitContext_indices rt ?e s)"
  proof -
    have 1: "fold_o (init_binding rt ?e) [0..<en_nb ?e] (with_batch b s) =
        map_o (with_batch b) (fold_o (init_binding rt ?e) [0..<en_nb ?e] s)"
      by (rule fold_o_commute) (simp add: init_binding_def init_tensor_batch [OF assms])
    have 2: "fold_o (bind_index ?e) [0..<en_nb ?e] (with_batch b (M\<lparr>mo_bindings := bs\<rparr>, m)) =
        map_o (with_batch b) (fold_o (bind_index ?e) [0..<en_nb ?e] (M\<lparr>mo_bindings := bs\<rparr>, m))" for M m bs
      by (rule fold_o_commute) (rule bind_index_batch)
    show ?thesis
      unfolding InitContext_indices_def 1 by (rule bind_o_commute) (use 2 in \<open>simp add: with_batch_def case_prod_beta' batch_bindings\<close>)
  qed
  show ?thesis by (simp add: InitContext_def Let_def e names indices)
qed

lemma fold_o_step: "fold_o f xs s = Done s' \<Longrightarrow> x \<in> set xs \<Longrightarrow> \<exists>s1 s2. f x s1 = Done s2"
  by (induction xs arbitrary: s) auto

section \<open>Properties\<close>

text \<open>C18. A model whose constructor returned computes its host outputs from its host inputs: after
  InferWithCopy the host buffer of every output holds what the engine gives for the bytes of the host
  buffers of the inputs, whatever was loaded into them, and no other host buffer has changed.\<close>

theorem constructed_model_infers:
  assumes "fresh_blocks rt" "inj_on (en_name e) {..<en_nb e}"
    and "InitContext rt tr (empty_model b e, m) = Done (M, m1)"
    and "\<forall>x\<in>entries M. t_host (snd x) \<noteq> None \<and> t_correct (snd x) \<noteq> None"
    and "\<forall>p. map_option length (contents (m_host m2) p) = map_option length (contents (m_host m1) p)"
    and "\<forall>p. map_option length (contents (m_dev m2) p) = map_option length (contents (m_dev m1) p)"
    and "m_queue m2 = []" "\<forall>k. \<not> rt_cuda_fails rt k"
  shows "\<exists>m'. InferWithCopy rt tr M m2 = Done m' \<and>
    (\<forall>(n, t)\<in>set (mo_outputs M).
       contents (m_host m') (t_host t) = Some (map (rt_infer rt (host_inputs M m2) n) [0..<t_size t])) \<and>
    (\<forall>q. (\<forall>x\<in>set (mo_outputs M). q \<noteq> t_host (snd x)) \<longrightarrow> contents (m_host m') q = contents (m_host m2) q)"
proof -
  have ok: "tables_ok M m1 \<and> wired tr M" using InitContext_ok [OF assms(1-3)] by blast
  have len: "\<exists>bs. contents (m_host m2) p = Some bs \<and> length bs = n" if "\<exists>bs. contents (m_host m1) p = Some bs \<and> length bs = n" for p n
    using that assms(5) by (metis map_option_eq_Some)
  have lend: "\<exists>bs. contents (m_dev m2) p = Some bs \<and> length bs = n" if "\<exists>bs. contents (m_dev m1) p = Some bs \<and> length bs = n" for p n
    using that assms(6) by (metis map_option_eq_Some)
  have "part_ok m2 t" if "part_ok m1 t" for t
    using that len lend unfolding part_ok_def by blast
  then have "tables_ok M m2" using ok by (auto simp: tables_ok_def)
  from InferWithCopy_ok [OF this _ assms(7,4)] ok assms(8) show ?thesis by blast
qed

text \<open>C25. The two variants of InitContext do the same: on an engine that answers alike by name and by index
  they return the same tables, bindings and memory, or fail in the same way.\<close>

theorem InitContext_variants_agree:
  assumes "answers_agree e"
  shows "map_o without_addresses (InitContext_names rt e s) = map_o without_addresses (InitContext_indices rt e s)"
proof -
  have 1: "fold_o (init_io_tensor rt e) [0..<en_nb e] s = fold_o (init_binding rt e) [0..<en_nb e] s"
    by (rule fold_o_cong) (use assms in \<open>auto simp: answers_agree_def init_io_tensor_def init_binding_def Let_def\<close>)
  show ?thesis
  proof (cases "fold_o (init_binding rt e) [0..<en_nb e] s")
    case (Done a)
    obtain M m where a: "a = (M, m)" by (cases a)
    have "map_o without_addresses (fold_o (bind_address e) [0..<en_nb e] (M\<lparr>mo_bindings := []\<rparr>, m)) =
        map_o without_addresses (fold_o (bind_index e) [0..<en_nb e] (M\<lparr>mo_bindings := replicate (en_nb e) None\<rparr>, m))"
      using bind_loops_agree [OF assms order_refl, of M m]
      by (simp add: without_addresses_def [abs_def] case_prod_beta')
    then show ?thesis using 1 Done a by (simp add: InitContext_names_def InitContext_indices_def)
  qed (simp_all add: InitContext_names_def InitContext_indices_def 1)
qed

text \<open>C34. An engine that was built and saved is found by the next start: it is loaded from the file, the
  same engine, without the ONNX file or the builder, and the file stays as it is.\<close>

theorem engine_cache_roundtrip:
  assumes "fs (names p) = None" "obtain_engine rt tr H w onnx p b m fs = (Done (e, m1), fs1)"
    and "\<forall>bytes. tr_serialize tr e = Some bytes \<longrightarrow> tr_deserialize tr bytes = Some e"
    and "tr_runtime tr" "\<forall>bytes. \<not> rt_read_fails rt bytes"
  shows "\<exists>m3. obtain_engine rt (tr\<lparr>tr_builder := False, tr_parse := \<lambda>_. None\<rparr>) H' w' onnx' p b' m2 fs1 = (Done (e, m3), fs1)"
proof -
  obtain m0 where m0: "BuildEngine tr w b onnx m = Done (e, m0)" "SaveEngine tr H p e m0 fs = (Done m1, fs1)"
    using assms(1,2) by (auto simp: obtain_engine_def split: ending.splits prod.splits)
  obtain bytes where s: "tr_serialize tr e = Some bytes" "fs1 = fs(names p \<mapsto> File bytes)"
    using SaveEngine_Done [OF m0(2)] by blast
  have "tr_deserialize tr bytes = Some e" using assms(3) s(1) by blast
  then show ?thesis using assms(4,5) s(2) by (simp add: obtain_engine_file LoadEngine_def assert_o_def)
qed

text \<open>A save that fails after the file was opened blocks every later start: the file is there, so it
  is loaded and not built again, and the process aborts each time.\<close>

theorem failed_save_blocks_starts:
  assumes "fs (names p) = None" "BuildEngine tr w b onnx m = Done (e, m0)" "tr_serialize tr e = Some bytes"
    and "open_trunc H p fs \<noteq> None" "write_fails H p bytes" "tr_deserialize tr [] = None"
  shows "\<exists>fs1. obtain_engine rt tr H w onnx p b m fs = (Aborted, fs1) \<and>
    (\<forall>H' w' onnx' b' m'. obtain_engine rt tr H' w' onnx' p b' m' fs1 = (Aborted, fs1))"
proof -
  obtain fs1 where o: "open_trunc H p fs = Some fs1" using assms(4) by blast
  note s = SaveEngine_write_fails [OF assms(3) o assms(5)]
  have "obtain_engine rt tr H w onnx p b m fs = (Aborted, fs1)"
    using assms(1,2) s(1) by (simp add: obtain_engine_def)
  moreover have "LoadEngine rt tr f (Some []) m' = Aborted" for f m'
    using assms(6) by (simp add: LoadEngine_def assert_o_def)
  ultimately show ?thesis using s(2) by (auto simp: obtain_engine_file)
qed

text \<open>The batch size of the command line has no effect on a cached engine: when the engine file exists
  and the engine has a profile, a start with another batch size makes the same tensors, from the batch
  size the engine was built with.\<close>

theorem cached_engine_ignores_batch:
  assumes "fs (names p) = Some (File bytes)" "tr_deserialize tr bytes = Some e" "en_profiles e > 0"
    and "new_TRTModel rt tr H w onnx p b m fs = (Done (M, m1), fs1)"
  shows "new_TRTModel rt tr H w' onnx' p b' m fs = (Done (M\<lparr>mo_batch := b'\<rparr>, m1), fs1)"
proof -
  let ?path = "path_string p"
  obtain m0 where l: "LoadEngine rt tr ?path (Some bytes) m = Done (e, m0)"
    using assms(1,2,4) by (auto simp: new_TRTModel_def obtain_engine_file LoadEngine_def split: if_splits)
  have i: "InitContext rt tr (empty_model b e, m0) = Done (M, m1)" "fs1 = fs"
    using assms(1,4) l by (auto simp: new_TRTModel_def obtain_engine_file)
  have "(empty_model b' e, m0) = with_batch b' (empty_model b e, m0)" by (simp add: with_batch_def empty_model_def)
  then have "InitContext rt tr (empty_model b' e, m0) = map_o (with_batch b') (Done (M, m1))"
    using InitContext_batch [of "(empty_model b e, m0)" rt tr b'] assms(3) i(1) by (simp add: empty_model_def)
  then show ?thesis using assms(1) l i(2) by (simp add: new_TRTModel_def obtain_engine_file with_batch_def)
qed

text \<open>An engine with an output of open shape cannot be used: TensorRT takes a shape for inputs only, and
  the failed assertion ends the process, in both variants.\<close>

theorem open_output_aborts:
  assumes "i < en_nb e" "en_profiles e > 0" "answers_agree e" "\<not> en_input e (en_name e i)"
    and "snd (fill_dims b (en_shape e (en_name e i)))"
    and "\<forall>name d. \<not> en_input e name \<longrightarrow> \<not> en_set_shape e name d"
  shows "InitContext_names rt e s \<noteq> Done s' \<and> InitContext_indices rt e s \<noteq> Done s'"
proof -
  have f: "snd (fill_dims c (en_shape e (en_name e i)))" for c using assms(5) fill_dims_flag by blast
  have "init_io_tensor rt e i s1 \<noteq> Done s2" "init_binding rt e i s1 \<noteq> Done s2" for s1 s2
    using f assms by (auto simp: init_io_tensor_def init_binding_def init_tensor_def answers_agree_def Let_def assert_o_def
        case_prod_beta')
  then show ?thesis
    using fold_o_step [of "init_io_tensor rt e" "[0..<en_nb e]" s _ i] fold_o_step [of "init_binding rt e" "[0..<en_nb e]" s _ i] assms(1)
    by (auto simp: InitContext_names_def InitContext_indices_def)
qed

section \<open>A concrete engine\<close>

definition first_free :: "(addr \<Rightarrow> string option) \<Rightarrow> pointer" where
  "first_free mem = List.find (\<lambda>a. mem a = None) [0..<8]"

definition demo_runtime :: runtime where
  "demo_runtime =
     \<lparr>rt_malloc = \<lambda>m n. first_free (m_host m), rt_cuda_malloc = \<lambda>m n. first_free (m_dev m), rt_junk = \<lambda>_. CHR ''j'',
      rt_cuda_fails = \<lambda>_. False, rt_rand = \<lambda>i. i, rt_read_fails = \<lambda>_. False,
      rt_infer = \<lambda>ins n j. case ins ''x'' of None \<Rightarrow> CHR ''?'' | Some bs \<Rightarrow> if j < length bs then bs ! j else CHR ''!''\<rparr>"

definition demo_dims :: "int \<Rightarrow> dims" where
  "demo_dims k = \<lparr>nbDims = 2, d_of = [k, 2, 0, 0, 0, 0, 0, 0]\<rparr>"

text \<open>One input x of two rows once the batch size is 2, one output y.\<close>

definition demo_engine :: "int \<Rightarrow> int \<Rightarrow> int \<Rightarrow> engine" where
  "demo_engine profiles open_in out =
     \<lparr>en_context = True, en_nb = 2, en_profiles = profiles, en_name = \<lambda>i. if i = 0 then ''x'' else ''y'',
      en_shape = \<lambda>n. if n = ''x'' then demo_dims open_in else demo_dims out, en_input = \<lambda>n. n = ''x'', en_type = \<lambda>_. kINT8,
      en_profile = \<lambda>_. demo_dims 1, en_set_shape = \<lambda>n d. n = ''x'', en_set_address = \<lambda>n p. True,
      bi_dims = \<lambda>i. if i = 0 then demo_dims open_in else demo_dims out, bi_input = \<lambda>i. i = 0, bi_type = \<lambda>_. kINT8,
      bi_profile = \<lambda>_. demo_dims 1, bi_set_dims = \<lambda>i d. i = 0\<rparr>"

definition demo_trt :: "nat \<Rightarrow> engine \<Rightarrow> trt" where
  "demo_trt version e =
     \<lparr>tr_major = version, tr_minor = 6, tr_builder = True, tr_network = \<lambda>_. True, tr_parser = True,
      tr_parse = \<lambda>_. Some [(''x'', demo_dims (-1))], tr_config = True, tr_profile = True,
      tr_build = \<lambda>_ _ _. Some e, tr_runtime = True, tr_serialize = \<lambda>_. Some ''engine'',
      tr_deserialize = \<lambda>bs. if bs = ''engine'' then Some e else None\<rparr>"

definition demo_memory :: memory where
  "demo_memory = \<lparr>m_host = \<lambda>_. None, m_dev = \<lambda>_. None, m_queue = [], m_calls = 0, m_log = []\<rparr>"

definition demo_disk :: files where
  "demo_disk = (\<lambda>ns. if ns = [] then Some Dir else None)"

definition demo_engine_file :: path where
  "demo_engine_file = \<lparr>root = True, names = [''m''], trail = False\<rparr>"

lemma demo_fresh: "fresh_blocks demo_runtime"
  by (auto simp: fresh_blocks_def demo_runtime_def first_free_def find_Some_iff)

lemma demo_names: "inj_on (en_name (demo_engine a b c)) {..<en_nb (demo_engine a b c)}"
  by (auto simp: inj_on_def demo_engine_def split: if_splits)

lemma demo_init:
  "case InitContext demo_runtime (demo_trt 10 (demo_engine 0 (-1) 2)) (empty_model 2 (demo_engine 0 (-1) 2), demo_memory) of
     Done (M, m1) \<Rightarrow> list_all (\<lambda>x. t_host (snd x) \<noteq> None \<and> t_correct (snd x) \<noteq> None) (mo_inputs M @ mo_outputs M) \<and>
       list_all (\<lambda>x. t_size (snd x) = 4) (mo_outputs M) \<and> map fst (mo_outputs M) = [''y'']
   | _ \<Rightarrow> False"
  by code_simp

theorem constructed_model_infers_witness:
  "\<exists>M m1 m'. InitContext demo_runtime (demo_trt 10 (demo_engine 0 (-1) 2)) (empty_model 2 (demo_engine 0 (-1) 2), demo_memory) = Done (M, m1) \<and>
     mo_outputs M \<noteq> [] \<and> InferWithCopy demo_runtime (demo_trt 10 (demo_engine 0 (-1) 2)) M m1 = Done m' \<and>
     (\<forall>(n, t)\<in>set (mo_outputs M).
        contents (m_host m') (t_host t) = Some (map (rt_infer demo_runtime (host_inputs M m1) n) [0..<t_size t]))"
proof -
  let ?e = "demo_engine 0 (-1) 2" let ?tr = "demo_trt 10 ?e"
  obtain M m1 where i: "InitContext demo_runtime ?tr (empty_model 2 ?e, demo_memory) = Done (M, m1)"
    and l: "list_all (\<lambda>x. t_host (snd x) \<noteq> None \<and> t_correct (snd x) \<noteq> None) (mo_inputs M @ mo_outputs M)"
    and o: "map fst (mo_outputs M) = [''y'']"
    using demo_init by (auto split: ending.splits)
  have h: "\<forall>x\<in>entries M. t_host (snd x) \<noteq> None \<and> t_correct (snd x) \<noteq> None"
    using l by (auto simp: list_all_iff entries_def)
  have q: "m_queue m1 = []" using InitContext_ok [OF demo_fresh demo_names i] by (simp add: demo_memory_def)
  have "\<forall>k. \<not> rt_cuda_fails demo_runtime k" by (simp add: demo_runtime_def)
  from constructed_model_infers [OF demo_fresh demo_names i h _ _ q this] i o show ?thesis by fastforce
qed

lemma demo_agree: "answers_agree (demo_engine a b c)"
  by (auto simp: answers_agree_def demo_engine_def)

theorem InitContext_variants_agree_witness:
  "map_o without_addresses (InitContext_names demo_runtime (demo_engine 0 (-1) 2) (empty_model 2 (demo_engine 0 (-1) 2), demo_memory)) =
   map_o without_addresses (InitContext_indices demo_runtime (demo_engine 0 (-1) 2) (empty_model 2 (demo_engine 0 (-1) 2), demo_memory))"
  by (rule InitContext_variants_agree [OF demo_agree])

lemma demo_build:
  "BuildEngine (demo_trt 10 e) w b onnx m = Done (e, log_line ''INFO'' (''[MODEL] engine built with model '' @ onnx) m)"
  by (simp add: BuildEngine_def build_engine_def demo_trt_def assert_o_def)

lemma demo_open: "open_trunc quiet_host demo_engine_file demo_disk \<noteq> None"
  by (simp add: open_trunc_def quiet_host_def demo_engine_file_def demo_disk_def)

theorem engine_cache_roundtrip_witness:
  "\<exists>m1 fs1 m3. obtain_engine demo_runtime (demo_trt 10 (demo_engine 1 (-1) 2)) quiet_host 5 ''m.onnx'' demo_engine_file 2 demo_memory demo_disk =
      (Done (demo_engine 1 (-1) 2, m1), fs1) \<and>
    obtain_engine demo_runtime ((demo_trt 10 (demo_engine 1 (-1) 2))\<lparr>tr_builder := False, tr_parse := \<lambda>_. None\<rparr>)
      quiet_host 5 ''other'' demo_engine_file 8 demo_memory fs1 = (Done (demo_engine 1 (-1) 2, m3), fs1)"
proof -
  let ?e = "demo_engine 1 (-1) 2"
  have n: "demo_disk (names demo_engine_file) = None" by (simp add: demo_disk_def demo_engine_file_def)
  obtain fs2 where f2: "open_trunc quiet_host demo_engine_file demo_disk = Some fs2" using demo_open by blast
  obtain fs1 where f1: "write_stream quiet_host demo_engine_file ''engine'' fs2 = Some fs1"
    by (cases "fs2 (names demo_engine_file)" rule: is_file.cases) (simp_all add: write_stream_def quiet_host_def)
  obtain m1 where o: "obtain_engine demo_runtime (demo_trt 10 ?e) quiet_host 5 ''m.onnx'' demo_engine_file 2 demo_memory
      demo_disk = (Done (?e, m1), fs1)"
    using n f1 f2 demo_build [of ?e 5 2 "''m.onnx''" demo_memory]
    by (simp add: obtain_engine_def SaveEngine_def demo_trt_def)
  have "\<forall>bytes. tr_serialize (demo_trt 10 ?e) ?e = Some bytes \<longrightarrow> tr_deserialize (demo_trt 10 ?e) bytes = Some ?e"
    "tr_runtime (demo_trt 10 ?e)" "\<forall>bytes. \<not> rt_read_fails demo_runtime bytes"
    by (simp_all add: demo_trt_def demo_runtime_def)
  from engine_cache_roundtrip [OF n o this] o show ?thesis by blast
qed

theorem failed_save_blocks_starts_witness:
  "\<exists>fs1. obtain_engine demo_runtime (demo_trt 10 (demo_engine 1 (-1) 2)) (quiet_host\<lparr>write_fails := \<lambda>_ _. True\<rparr>) 5 ''m.onnx''
      demo_engine_file 2 demo_memory demo_disk = (Aborted, fs1) \<and>
    obtain_engine demo_runtime (demo_trt 10 (demo_engine 1 (-1) 2)) quiet_host 5 ''m.onnx'' demo_engine_file 2 demo_memory fs1 = (Aborted, fs1)"
proof -
  have n: "demo_disk (names demo_engine_file) = None" by (simp add: demo_disk_def demo_engine_file_def)
  have s: "tr_serialize (demo_trt 10 e) e = Some ''engine''" for e by (simp add: demo_trt_def)
  have o: "open_trunc (quiet_host\<lparr>write_fails := \<lambda>_ _. True\<rparr>) demo_engine_file demo_disk \<noteq> None"
    using demo_open by (simp add: open_trunc_def)
  have d: "tr_deserialize (demo_trt 10 e) [] = None" for e by (simp add: demo_trt_def)
  have w: "write_fails (quiet_host\<lparr>write_fails := \<lambda>_ _. True\<rparr>) demo_engine_file ''engine''" by simp
  show ?thesis using failed_save_blocks_starts [OF n demo_build s o w d] by blast
qed

lemma demo_start:
  "case new_TRTModel demo_runtime (demo_trt 10 (demo_engine 1 (-1) 2)) quiet_host 5 ''m.onnx'' demo_engine_file 1 demo_memory
     (demo_disk([''m''] \<mapsto> File ''engine'')) of (Done (M, m1), fs1) \<Rightarrow> mo_batch M = 1 | _ \<Rightarrow> False"
  by code_simp

theorem cached_engine_ignores_batch_witness:
  "\<exists>M m1 fs1. new_TRTModel demo_runtime (demo_trt 10 (demo_engine 1 (-1) 2)) quiet_host 5 ''m.onnx'' demo_engine_file 8 demo_memory
     (demo_disk([''m''] \<mapsto> File ''engine'')) = (Done (M\<lparr>mo_batch := 8\<rparr>, m1), fs1) \<and> mo_batch M = 1"
proof -
  let ?e = "demo_engine 1 (-1) 2"
  obtain M m1 fs1 where n: "new_TRTModel demo_runtime (demo_trt 10 ?e) quiet_host 5 ''m.onnx'' demo_engine_file 1 demo_memory
     (demo_disk([''m''] \<mapsto> File ''engine'')) = (Done (M, m1), fs1)" "mo_batch M = 1"
    using demo_start by (auto split: ending.splits prod.splits)
  have "(demo_disk([''m''] \<mapsto> File ''engine'')) (names demo_engine_file) = Some (File ''engine'')"
    "tr_deserialize (demo_trt 10 ?e) ''engine'' = Some ?e" "en_profiles ?e > 0"
    by (simp_all add: demo_engine_file_def demo_trt_def demo_engine_def)
  from cached_engine_ignores_batch [OF this n(1)] n(2) show ?thesis by blast
qed

theorem open_output_aborts_witness:
  "\<forall>s'. InitContext_names demo_runtime (demo_engine 1 (-1) (-1)) (empty_model 2 (demo_engine 1 (-1) (-1)), demo_memory) \<noteq> Done s'"
proof -
  let ?e = "demo_engine 1 (-1) (-1)"
  have "1 < en_nb ?e" "en_profiles ?e > 0" "\<not> en_input ?e (en_name ?e 1)" "\<forall>n d. \<not> en_input ?e n \<longrightarrow> \<not> en_set_shape ?e n d"
    by (simp_all add: demo_engine_def)
  moreover have "snd (fill_dims 2 (en_shape ?e (en_name ?e 1)))"
    by (simp add: fill_dims_open demo_engine_def demo_dims_def)
  ultimately show ?thesis using open_output_aborts [of 1 ?e, OF _ _ demo_agree] by blast
qed

theorem tensor_bytes_exact_witness:
  "(case volume (demo_dims 3) of Some vol \<Rightarrow> int (total_size vol 4) = 24 | None \<Rightarrow> False)"
  using tensor_bytes_exact [of "demo_dims 3" kFLOAT 4]
  by (simp add: demo_dims_def volume_def to_int32_def)

end
