(* ===== verification/GpuBench.thy ===== *)
theory GpuBench
  imports TrtModel TokenThrottle WindowSync
begin

text \<open>
  The benchmark programs of the GPU, main/up\_loop.cpp of gpu\_transparent\_up, gpu\_token\_up and
  gpu\_dynamic\_up: they load a TensorRT model, warm it up and measure in windows how many inferences
  finish, one line of a CSV file per window. A run is a function of what the process observes: the
  stop flag where it is read, the clock in nanoseconds, the rounds of the token throttle, and the
  calls of ProcessSync that return. None: the observations end before the run does. Division and
  printing of floating point numbers are a parameter, the text of a quotient; what an aborted run
  leaves in the CSV file is not part of its result.
\<close>

section \<open>Runs\<close>

definition bind_r :: "'a ending option \<Rightarrow> ('a \<Rightarrow> 'b ending option) \<Rightarrow> 'b ending option" where
  "bind_r x f =
     (case x of
        None \<Rightarrow> None
      | Some r \<Rightarrow> (case r of Done a \<Rightarrow> f a | Aborted \<Rightarrow> Some Aborted | Thrown \<Rightarrow> Some Thrown | Undefined \<Rightarrow> Some Undefined))"

fun repeat_o :: "nat \<Rightarrow> ('s \<Rightarrow> 's ending) \<Rightarrow> 's \<Rightarrow> 's ending" where
  "repeat_o 0 f s = Done s"
| "repeat_o (Suc n) f s = bind_o (f s) (repeat_o n f)"

lemma bind_r_Done [simp]: "bind_r x f = Some (Done b) \<longleftrightarrow> (\<exists>a. x = Some (Done a) \<and> f a = Some (Done b))"
  by (auto simp: bind_r_def split: option.splits ending.splits)

section \<open>The command line\<close>

record bench_args =
  ba_model :: string
  ba_batch :: int
  ba_out :: string
  ba_duration :: int
  ba_window :: int
  ba_warmup :: int

definition bench_args_of :: "string list \<Rightarrow> string option \<Rightarrow> bench_args ending" where
  "bench_args_of argv warmup =
     (if length argv < 6 then Aborted
      else Done \<lparr>ba_model = argv ! 1, ba_batch = to_int32 (ParsePositiveLong (Some (argv ! 2)) 1), ba_out = argv ! 3,
                 ba_duration = ParsePositiveLong (Some (argv ! 4)) 120, ba_window = ParsePositiveLong (Some (argv ! 5)) 5,
                 ba_warmup = ParsePositiveLong warmup 20\<rparr>)"

section \<open>One window\<close>

text \<open>One round of the measuring loop: the stop flag, and the clock after the inference.\<close>

record tick =
  tk_stop :: bool
  tk_now :: int

definition elapsed_seconds :: "int \<Rightarrow> int \<Rightarrow> int" where
  "elapsed_seconds start now = (now - start) div 1000000000"

fun window_loop :: "('m \<Rightarrow> 'm ending) \<Rightarrow> int \<Rightarrow> int \<Rightarrow> tick list \<Rightarrow> int \<Rightarrow> 'm \<Rightarrow> (int \<times> 'm) ending option" where
  "window_loop infer window_start current [] count m = None"
| "window_loop infer window_start current (t # ts) count m =
     (if tk_stop t then Some (Done (count, m))
      else bind_r (Some (infer m)) (\<lambda>m.
        if elapsed_seconds window_start (tk_now t) \<ge> current then Some (Done (count + 1, m))
        else window_loop infer window_start current ts (count + 1) m))"

text \<open>The loop of gpu\_token\_up: a token before each inference, and the stop flag again after it. The flag is
  never cleared, so it is set when an enabled throttle has given up. The throttle takes its rounds from
  a list that lasts for the whole run.\<close>

record token_tick =
  tt_stop :: bool
  tt_stopped :: bool
  tt_now :: int

type_synonym 'm token_state = "'m \<times> throttle \<times> round list"

fun token_loop ::
  "('m \<Rightarrow> 'm ending) \<Rightarrow> int \<Rightarrow> int \<Rightarrow> token_tick list \<Rightarrow> int \<Rightarrow> 'm token_state \<Rightarrow> (int \<times> 'm token_state) ending option" where
  "token_loop infer window_start current [] count s = None"
| "token_loop infer window_start current (t # ts) count (m, th, rs) =
     (if tt_stop t then Some (Done (count, m, th, rs))
      else case ThrottleAcquire th rs of
        None \<Rightarrow> None
      | Some (took, th, rs) \<Rightarrow>
          if tt_stopped t \<or> th_enabled th \<and> \<not> took then Some (Done (count, m, th, rs))
          else bind_r (Some (infer m)) (\<lambda>m.
            if elapsed_seconds window_start (tt_now t) \<ge> current then Some (Done (count + 1, m, th, rs))
            else token_loop infer window_start current ts (count + 1) (m, th, rs)))"

section \<open>The report\<close>

record row =
  rw_index :: int
  rw_elapsed_ms :: int
  rw_count :: int
  rw_ns :: int

record 'm bench =
  be_state :: 'm
  be_good :: bool
  be_files :: files
  be_rows :: "row list"

text \<open>show\_quotient a b is the text of the double a / b.\<close>

definition row_text :: "(int \<Rightarrow> int \<Rightarrow> string) \<Rightarrow> row \<Rightarrow> string" where
  "row_text show_quotient r =
     to_string (rw_index r) @ '','' @ show_quotient (rw_elapsed_ms r) 1000 @ '','' @ to_string (rw_count r) @ '','' @
     (if rw_ns r > 0 then show_quotient (rw_count r * 1000000000) (rw_ns r) else show_quotient 0 1) @ newline"

text \<open>A line of the file; once a write has failed the stream takes no more.\<close>

definition csv_write :: "host \<Rightarrow> path \<Rightarrow> string \<Rightarrow> 'm bench \<Rightarrow> 'm bench" where
  "csv_write H p line b =
     (if \<not> be_good b then b
      else case write_stream H p line (be_files b) of
        None \<Rightarrow> b\<lparr>be_good := False\<rparr>
      | Some fs \<Rightarrow> b\<lparr>be_files := fs\<rparr>)"

definition report :: "(int \<Rightarrow> int \<Rightarrow> string) \<Rightarrow> host \<Rightarrow> path \<Rightarrow> row \<Rightarrow> 'm bench \<Rightarrow> 'm bench" where
  "report show_quotient H p r b = (csv_write H p (row_text show_quotient r) b)\<lparr>be_rows := be_rows b @ [r]\<rparr>"

section \<open>The windows of a run\<close>

text \<open>What one window observes: the stop flag of the for loop, the clocks at its start and end, and
  what its own loop observes.\<close>

record 'w window_obs =
  wo_stop :: bool
  wo_start :: int
  wo_body :: 'w
  wo_end :: int

text \<open>What a program does in a window: before the clock is read, the measuring loop with what follows it,
  and after the line is written.\<close>

record ('w, 'm) bench_ops =
  bo_before :: "int \<Rightarrow> 'w \<Rightarrow> 'm \<Rightarrow> 'm ending option"
  bo_window :: "int \<Rightarrow> int \<Rightarrow> 'w \<Rightarrow> 'm \<Rightarrow> (int \<times> 'm) ending option"
  bo_after :: "int \<Rightarrow> 'w \<Rightarrow> 'm \<Rightarrow> 'm ending option"

definition bench_row :: "int \<Rightarrow> int \<Rightarrow> 'w window_obs \<Rightarrow> int \<Rightarrow> row" where
  "bench_row benchmark_start window_idx w count =
     \<lparr>rw_index = window_idx, rw_elapsed_ms = (wo_end w - benchmark_start) div 1000000, rw_count = count,
      rw_ns = wo_end w - wo_start w\<rparr>"

definition bench_window ::
  "('w, 'm) bench_ops \<Rightarrow> (int \<Rightarrow> int \<Rightarrow> string) \<Rightarrow> host \<Rightarrow> path \<Rightarrow> int \<Rightarrow> int \<Rightarrow> int \<Rightarrow> int \<Rightarrow> 'w window_obs \<Rightarrow>
     'm bench \<Rightarrow> 'm bench ending option" where
  "bench_window bo show_quotient H p duration_sec window_sec benchmark_start window_idx w b =
     bind_r (bo_before bo window_idx (wo_body w) (be_state b)) (\<lambda>m.
     bind_r (bo_window bo (wo_start w) (current_window_sec duration_sec window_sec window_idx) (wo_body w) m) (\<lambda>(count, m).
     let b = report show_quotient H p (bench_row benchmark_start window_idx w count) b
     in bind_r (bo_after bo window_idx (wo_body w) m) (\<lambda>m. Some (Done (b\<lparr>be_state := m\<rparr>)))))"

fun bench_windows ::
  "('w, 'm) bench_ops \<Rightarrow> (int \<Rightarrow> int \<Rightarrow> string) \<Rightarrow> host \<Rightarrow> path \<Rightarrow> int \<Rightarrow> int \<Rightarrow> int \<Rightarrow> int \<Rightarrow> 'w window_obs list \<Rightarrow>
     'm bench \<Rightarrow> 'm bench ending option" where
  "bench_windows bo show_quotient H p duration_sec window_sec benchmark_start window_idx [] b =
     (if window_idx \<le> window_count duration_sec window_sec then None else Some (Done b))"
| "bench_windows bo show_quotient H p duration_sec window_sec benchmark_start window_idx (w # ws) b =
     (if \<not> (window_idx \<le> window_count duration_sec window_sec) \<or> wo_stop w then Some (Done b)
      else bind_r (bench_window bo show_quotient H p duration_sec window_sec benchmark_start window_idx w b)
        (bench_windows bo show_quotient H p duration_sec window_sec benchmark_start (window_idx + 1) ws))"

text \<open>From the open CSV file to the end of the windows; the sum in window\_count is one of longs.\<close>

definition run_windows ::
  "('w, 'm) bench_ops \<Rightarrow> (int \<Rightarrow> int \<Rightarrow> string) \<Rightarrow> host \<Rightarrow> path \<Rightarrow> string \<Rightarrow> int \<Rightarrow> int \<Rightarrow> int \<Rightarrow> 'w window_obs list \<Rightarrow>
     'm \<Rightarrow> files \<Rightarrow> 'm bench ending option" where
  "run_windows bo show_quotient H p header duration_sec window_sec benchmark_start ws m fs =
     (let b = csv_write H p (header @ newline) \<lparr>be_state = m, be_good = True, be_files = fs, be_rows = []\<rparr>
      in if INT64_MAX < duration_sec + window_sec - 1 then Some Undefined
         else bench_windows bo show_quotient H p duration_sec window_sec benchmark_start 1 ws b)"

definition run_bench ::
  "('w, 'm) bench_ops \<Rightarrow> (int \<Rightarrow> int \<Rightarrow> string) \<Rightarrow> host \<Rightarrow> string \<Rightarrow> string \<Rightarrow> int \<Rightarrow> int \<Rightarrow> int \<Rightarrow> 'w window_obs list \<Rightarrow>
     'm \<Rightarrow> files \<Rightarrow> 'm bench ending option" where
  "run_bench bo show_quotient H out header duration_sec window_sec benchmark_start ws m fs =
     (case open_trunc H (parse_path out) fs of
        None \<Rightarrow> Some Aborted
      | Some fs' \<Rightarrow>
          run_windows bo show_quotient H (parse_path out) header duration_sec window_sec benchmark_start ws m fs')"

definition csv_header :: string where
  "csv_header = ''window,elapsed_sec,iterations,throughput''"

section \<open>The three programs\<close>

definition start_model ::
  "runtime \<Rightarrow> trt \<Rightarrow> host \<Rightarrow> int \<Rightarrow> bench_args \<Rightarrow> memory \<Rightarrow> files \<Rightarrow> (trt_model \<times> memory) ending \<times> files" where
  "start_model rt tr H workspace_bytes a m fs =
     (case CUDART_ASSERT rt m of
        Done m \<Rightarrow> new_TRTModel rt tr H workspace_bytes (ba_model a @ ''.onnx'') (parse_path (ba_model a @ ''.engine''))
                     (ba_batch a) m fs
      | _ \<Rightarrow> (Aborted, fs))"

text \<open>The warm-up does not look at the stop flag.\<close>

definition warm_up :: "runtime \<Rightarrow> trt \<Rightarrow> trt_model \<Rightarrow> int \<Rightarrow> memory \<Rightarrow> memory ending" where
  "warm_up rt tr M warmup_count m = bind_o (repeat_o (nat warmup_count) (Infer rt tr M) m) (StreamSynchronize rt)"

definition synchronised :: "runtime \<Rightarrow> int \<times> memory \<Rightarrow> (int \<times> memory) ending option" where
  "synchronised rt r = Some (bind_o (StreamSynchronize rt (snd r)) (\<lambda>m. Done (fst r, m)))"

definition finish :: "runtime \<Rightarrow> ('m \<Rightarrow> memory) \<Rightarrow> 'm bench \<Rightarrow> (int \<times> 'm bench) ending option" where
  "finish rt mem b = Some (bind_o (CUDART_ASSERT rt (mem (be_state b))) (\<lambda>_. Done (0, b)))"

definition no_bench :: "'m \<Rightarrow> files \<Rightarrow> 'm bench" where
  "no_bench m fs = \<lparr>be_state = m, be_good = False, be_files = fs, be_rows = []\<rparr>"

definition transparent_ops :: "runtime \<Rightarrow> trt \<Rightarrow> trt_model \<Rightarrow> (tick list, memory) bench_ops" where
  "transparent_ops rt tr M =
     \<lparr>bo_before = \<lambda>_ _ m. Some (Done m),
      bo_window = \<lambda>start current ts m. bind_r (window_loop (Infer rt tr M) start current ts 0 m) (synchronised rt),
      bo_after = \<lambda>_ _ m. Some (Done m)\<rparr>"

definition transparent_main ::
  "runtime \<Rightarrow> trt \<Rightarrow> host \<Rightarrow> (int \<Rightarrow> int \<Rightarrow> string) \<Rightarrow> env \<Rightarrow> string list \<Rightarrow> int \<Rightarrow> tick list window_obs list \<Rightarrow>
     memory \<Rightarrow> files \<Rightarrow> (int \<times> memory bench) ending option" where
  "transparent_main rt tr H show_quotient getenv argv benchmark_start ws m fs =
     bind_r (Some (bench_args_of argv (getenv ''GPU_TRANSPARENT_UP_WARMUP''))) (\<lambda>a.
     let (r, fs) = start_model rt tr H (GetWorkspaceBytes (getenv ''GPU_TRANSPARENT_UP_TRT_WORKSPACE_MB'')) a m fs
     in bind_r (Some r) (\<lambda>(M, m).
       if ParseEnabled (getenv ''GPU_TRANSPARENT_UP_BUILD_ENGINE_ONLY'')
       then finish rt id (no_bench m fs)
       else bind_r (Some (warm_up rt tr M (ba_warmup a) m)) (\<lambda>m.
         bind_r (run_bench (transparent_ops rt tr M) show_quotient H (ba_out a) csv_header (ba_duration a) (ba_window a)
           benchmark_start ws m fs) (finish rt id))))"

definition token_ops :: "runtime \<Rightarrow> trt \<Rightarrow> trt_model \<Rightarrow> (token_tick list, memory token_state) bench_ops" where
  "token_ops rt tr M =
     \<lparr>bo_before = \<lambda>_ _ s. Some (Done s),
      bo_window = \<lambda>start current ts s. bind_r (token_loop (Infer rt tr M) start current ts 0 s) (\<lambda>(count, m, s).
        bind_r (synchronised rt (count, m)) (\<lambda>(count, m). Some (Done (count, m, s)))),
      bo_after = \<lambda>_ _ s. Some (Done s)\<rparr>"

text \<open>The throttle is made before the model, with its first read of the clock and of the file.\<close>

definition token_main ::
  "runtime \<Rightarrow> trt \<Rightarrow> host \<Rightarrow> (int \<Rightarrow> int \<Rightarrow> string) \<Rightarrow> env \<Rightarrow> string list \<Rightarrow> int \<times> int \<times> string option \<Rightarrow>
     round list \<Rightarrow> int \<Rightarrow> token_tick list window_obs list \<Rightarrow> memory \<Rightarrow> files \<Rightarrow> (int \<times> memory token_state bench) ending option" where
  "token_main rt tr H show_quotient getenv argv first rs benchmark_start ws m fs =
     bind_r (Some (bench_args_of argv (getenv ''GPU_DYNAMIC_UP_WARMUP''))) (\<lambda>a.
     let (init, now, content) = first;
         th = new_throttle getenv (ParseEnabled (getenv ''GPU_TOKEN_UP_TOKEN_THROTTLE'')) init now content;
         (r, fs) = start_model rt tr H (GetWorkspaceBytes (getenv ''GPU_TOKEN_UP_TRT_WORKSPACE_MB'')) a m fs
     in bind_r (Some r) (\<lambda>(M, m).
       if ParseEnabled (getenv ''GPU_TOKEN_UP_BUILD_ENGINE_ONLY'')
       then finish rt fst (no_bench (m, th, rs) fs)
       else bind_r (Some (warm_up rt tr M (ba_warmup a) m)) (\<lambda>m.
         bind_r (run_bench (token_ops rt tr M) show_quotient H (ba_out a) csv_header (ba_duration a) (ba_window a)
           benchmark_start ws (m, th, rs) fs) (finish rt fst))))"

text \<open>gpu\_dynamic\_up keeps the targets of its calls of Sync; an observation says which of them return. The
  targets are cast to int.\<close>

record dyn_obs =
  do_started :: bool
  do_ticks :: "tick list"
  do_stopped :: bool

definition psync :: "bool \<Rightarrow> int \<Rightarrow> memory \<times> int list \<Rightarrow> (memory \<times> int list) ending option" where
  "psync returns target s = (if returns then Some (Done (fst s, snd s @ [target])) else None)"

definition dynamic_ops :: "runtime \<Rightarrow> trt \<Rightarrow> trt_model \<Rightarrow> (dyn_obs, memory \<times> int list) bench_ops" where
  "dynamic_ops rt tr M =
     \<lparr>bo_before = \<lambda>idx w s. psync (do_started w) (to_int32 (start_target idx)) s,
      bo_window = \<lambda>start current w s. bind_r (window_loop (Infer rt tr M) start current (do_ticks w) 0 (fst s)) (\<lambda>r.
        bind_r (synchronised rt r) (\<lambda>(count, m). Some (Done (count, m, snd s)))),
      bo_after = \<lambda>idx w s. psync (do_stopped w) (to_int32 (stop_target idx)) s\<rparr>"

text \<open>The shared segment: a failure of shmget or shmat is an exception. What follows them in
  AcquireSharedSyncState is the machine of SyncEnds.\<close>

definition AcquireSharedSyncState :: "bool \<Rightarrow> bool \<Rightarrow> unit ending" where
  "AcquireSharedSyncState shmget_ok shmat_ok =
     (if \<not> shmget_ok then Thrown else if \<not> shmat_ok then Thrown else Done ())"

definition dynamic_workspace :: int where
  "dynamic_workspace = 2097152"

definition dynamic_main ::
  "runtime \<Rightarrow> trt \<Rightarrow> host \<Rightarrow> (int \<Rightarrow> int \<Rightarrow> string) \<Rightarrow> env \<Rightarrow> string list \<Rightarrow> bool \<times> bool \<Rightarrow> bool \<times> bool \<Rightarrow> int \<Rightarrow> dyn_obs window_obs list \<Rightarrow>
     memory \<Rightarrow> files \<Rightarrow> (int \<times> (memory \<times> int list) bench) ending option" where
  "dynamic_main rt tr H show_quotient getenv argv shm syncs benchmark_start ws m fs =
     bind_r (Some (bench_args_of argv (getenv ''GPU_DYNAMIC_UP_WARMUP''))) (\<lambda>a.
     let (r, fs) = start_model rt tr H dynamic_workspace a m fs
     in bind_r (Some r) (\<lambda>(M, m).
       bind_r (Some (AcquireSharedSyncState (fst shm) (snd shm))) (\<lambda>_.
       bind_r (psync (fst syncs) 2 (m, [])) (\<lambda>(m, targets).
       bind_r (Some (warm_up rt tr M (ba_warmup a) m)) (\<lambda>m.
       bind_r (psync (snd syncs) 4 (m, targets)) (\<lambda>s.
       bind_r (run_bench (dynamic_ops rt tr M) show_quotient H (ba_out a) csv_header (ba_duration a) (ba_window a)
           benchmark_start ws s fs) (finish rt fst)))))))"

end
