(* ===== verification/BenchCorrect.thy ===== *)
theory BenchCorrect
  imports GpuBench TrtCorrect
begin

text \<open>
  What the benchmark programs measure: the count of a window is the number of inferences that finished in it,
  a window ends and overruns by less than one inference, the report has one line per window in order, and the
  inferences of a throttled run respect the rate of the throttle.
\<close>

section \<open>The measuring loop\<close>

lemma bind_r_simps [simp]:
  "bind_r None f = None" "bind_r (Some (Done a)) f = f a" "bind_r (Some Aborted) f = Some Aborted"
  "bind_r (Some Thrown) f = Some Thrown" "bind_r (Some Undefined) f = Some Undefined"
  by (simp_all add: bind_r_def)

text \<open>The k inferences of a loop that returned: none of them was started with the stop flag set, all but the
  last ended before the window was over, and then the flag was set or the window was over.\<close>

definition measured :: "int \<Rightarrow> int \<Rightarrow> tick list \<Rightarrow> nat \<Rightarrow> bool" where
  "measured window_start current ts k \<longleftrightarrow>
     k \<le> length ts \<and> (\<forall>i<k. \<not> tk_stop (ts ! i)) \<and>
     (\<forall>i. Suc i < k \<longrightarrow> elapsed_seconds window_start (tk_now (ts ! i)) < current) \<and>
     (k < length ts \<and> tk_stop (ts ! k) \<and> (0 < k \<longrightarrow> elapsed_seconds window_start (tk_now (ts ! (k - 1))) < current) \<or>
      0 < k \<and> current \<le> elapsed_seconds window_start (tk_now (ts ! (k - 1))))"

lemma measured_Cons:
  assumes "\<not> tk_stop t" "elapsed_seconds st (tk_now t) < cur" "measured st cur ts k"
  shows "measured st cur (t # ts) (Suc k)"
  using assms by (cases k) (auto simp: measured_def nth_Cons' less_Suc_eq_0_disj)

lemma window_loop_measured:
  "window_loop infer st cur ts c m = Some (Done (c', m')) \<Longrightarrow>
   \<exists>k. c' = c + int k \<and> repeat_o k infer m = Done m' \<and> measured st cur ts k"
proof (induction infer st cur ts c m rule: window_loop.induct)
  case (2 infer st cur t ts c m)
  show ?case
  proof (cases "tk_stop t")
    case True
    then show ?thesis using 2(2) by (intro exI [of _ 0]) (simp add: measured_def)
  next
    case False
    then obtain m1 where m1: "infer m = Done m1" using 2(2) by auto
    show ?thesis
    proof (cases "cur \<le> elapsed_seconds st (tk_now t)")
      case True
      then show ?thesis using 2(2) False m1 by (intro exI [of _ 1]) (auto simp: measured_def)
    next
      case less: False
      then obtain k where k: "c' = c + 1 + int k" "repeat_o k infer m1 = Done m'" "measured st cur ts k"
        using 2(1) [OF False less] 2(2) False m1 by auto
      have "measured st cur (t # ts) (Suc k)" using measured_Cons [OF False _ k(3)] less by simp
      then show ?thesis using k m1 by (intro exI [of _ "Suc k"]) simp
    qed
  qed
qed simp

lemma window_loop_None:
  assumes "\<And>m. \<exists>m'. infer m = Done m'"
  shows "window_loop infer st cur ts c m = None \<Longrightarrow> t \<in> set ts \<Longrightarrow> elapsed_seconds st (tk_now t) < cur"
proof (induction ts arbitrary: c m)
  case (Cons u ts)
  obtain m1 where "infer m = Done m1" using assms by blast
  then show ?case using Cons by (auto split: if_splits)
qed simp

lemma window_loop_total:
  assumes "\<And>m. \<exists>m'. infer m = Done m'"
  shows "window_loop infer st cur ts c m = None \<or> (\<exists>r. window_loop infer st cur ts c m = Some (Done r))"
proof (induction ts arbitrary: c m)
  case (Cons u ts)
  obtain m1 where "infer m = Done m1" using assms by blast
  then show ?case using Cons [of "c + 1" m1] by auto
qed simp

lemma elapsed_less: "elapsed_seconds st now < cur \<longleftrightarrow> now - st < cur * 1000000000"
proof -
  define q r where "q = (now - st) div 1000000000" and "r = (now - st) mod 1000000000"
  have "now - st = 1000000000 * q + r" "0 \<le> r" "r < 1000000000" by (simp_all add: q_def r_def)
  moreover have "elapsed_seconds st now = q" by (simp add: elapsed_seconds_def q_def)
  ultimately show ?thesis by linarith
qed

section \<open>The token loop\<close>

lemma acquire_loop_grants:
  "\<forall>r\<in>set rs. \<not> rd_stop r \<Longrightarrow> acquire_loop th rs = Some (took, th', rs') \<Longrightarrow>
   took \<and> grants th rs = Suc (grants th' rs') \<and> set rs' \<subseteq> set rs \<and> th_enabled th' = th_enabled th"
proof (induction th rs rule: acquire_loop.induct)
  case (2 th r rs)
  show ?case
  proof (cases "acquire_step th r")
    case Stopped
    then show ?thesis using 2(2) by (simp add: acquire_step_def split: if_splits)
  next
    case (Refilled th1)
    then have "th_enabled th1 = th_enabled th"
      by (auto simp: acquire_step_def Refill_def Let_def split: if_splits)
    then show ?thesis using 2 Refilled by auto
  next
    case (Taken th1)
    then have "th_enabled th1 = th_enabled th" by (auto simp: acquire_step_def split: if_splits)
    then show ?thesis using 2(3) Taken by auto
  qed
qed simp

lemma token_loop_grants:
  assumes "token_loop infer st cur ts c (m, th, rs) = Some (Done (c', m', th', rs'))" "th_enabled th" "\<forall>r\<in>set rs. \<not> rd_stop r"
  shows "c \<le> c' \<and> c' - c + int (grants th' rs') \<le> int (grants th rs) \<and> th_enabled th' \<and> set rs' \<subseteq> set rs"
  using assms
proof (induction ts arbitrary: c m th rs)
  case (Cons t ts)
  show ?case
  proof (cases "tt_stop t")
    case True
    then show ?thesis using Cons.prems by simp
  next
    case False
    obtain took th1 rs1 where a: "acquire_loop th rs = Some (took, th1, rs1)"
      using Cons.prems(1,2) False by (auto simp: ThrottleAcquire_def split: option.splits)
    note g = acquire_loop_grants [OF Cons.prems(3) a]
    have acq: "ThrottleAcquire th rs = Some (True, th1, rs1)" using a g Cons.prems(2) by (simp add: ThrottleAcquire_def)
    show ?thesis
    proof (cases "tt_stopped t")
      case True
      then show ?thesis using Cons.prems(1,2) False acq g by auto
    next
      case go: False
      obtain m1 where m1: "infer m = Done m1" using Cons.prems(1) False go acq by auto
      show ?thesis
      proof (cases "cur \<le> elapsed_seconds st (tt_now t)")
        case True
        then show ?thesis using Cons.prems(1,2) False go acq g m1 by auto
      next
        case less: False
        then have "token_loop infer st cur ts (c + 1) (m1, th1, rs1) = Some (Done (c', m', th', rs'))"
          using Cons.prems(1) False go acq m1 by simp
        moreover have "th_enabled th1" "\<forall>r\<in>set rs1. \<not> rd_stop r" using g Cons.prems(2,3) by auto
        ultimately show ?thesis using Cons.IH g by fastforce
      qed
    qed
  qed
qed simp

section \<open>The report\<close>

text \<open>What holds of every line written so far: the k-th line is window k, and the file is the header and
  the lines.\<close>

definition reported :: "(int \<Rightarrow> int \<Rightarrow> string) \<Rightarrow> path \<Rightarrow> string \<Rightarrow> int \<Rightarrow> 'm bench \<Rightarrow> bool" where
  "reported show_quotient p header n b \<longleftrightarrow>
     map rw_index (be_rows b) = [1..n] \<and> be_good b \<and>
     be_files b (names p) = Some (File (header @ newline @ concat (map (row_text show_quotient) (be_rows b))))"

lemma csv_write_same [simp]:
  "be_state (csv_write H p line b) = be_state b" "be_rows (csv_write H p line b) = be_rows b"
  by (simp_all add: csv_write_def split: option.split)

lemma csv_write_good:
  assumes "be_good b" "be_files b (names p) = Some (File text)" "\<not> write_fails H p line"
  shows "csv_write H p line b = b\<lparr>be_files := (be_files b)(names p \<mapsto> File (text @ line))\<rparr>"
  using assms by (simp add: csv_write_def write_stream_def)

lemma report_reported:
  assumes "reported sq p header n b" "0 \<le> n" "rw_index r = n + 1" "\<forall>line. \<not> write_fails H p line"
  shows "reported sq p header (n + 1) (report sq H p r b)"
proof -
  have "[1..n + 1] = [1..n] @ [n + 1]" using assms(2) by (simp add: upto_rec2)
  then show ?thesis
    using assms csv_write_good [of b p "header @ newline @ concat (map (row_text sq) (be_rows b))" H "row_text sq r"]
    by (simp add: reported_def report_def)
qed

lemma reported_state: "reported sq p header n (b\<lparr>be_state := m\<rparr>) = reported sq p header n b"
  by (simp add: reported_def)

lemma bench_window_Done:
  assumes "bench_window bo sq H p d wn bs idx w b = Some (Done b')"
  obtains m1 count m2 m3 where "bo_before bo idx (wo_body w) (be_state b) = Some (Done m1)"
    "bo_window bo (wo_start w) (current_window_sec d wn idx) (wo_body w) m1 = Some (Done (count, m2))"
    "bo_after bo idx (wo_body w) m2 = Some (Done m3)"
    "b' = (report sq H p (bench_row bs idx w count) b)\<lparr>be_state := m3\<rparr>"
  using assms by (auto simp: bench_window_def Let_def)

section \<open>The contract of a benchmark program\<close>

text \<open>What a program does in a window keeps an invariant of the number of the next window, the state and the
  lines written so far; then so does its run, whose windows are numbered up to the last one.\<close>

locale bench_program =
  fixes bo :: "('w, 'm) bench_ops"
    and inv :: "int \<Rightarrow> 'm \<Rightarrow> row list \<Rightarrow> bool"
  assumes window_keeps: "inv idx s rows \<Longrightarrow> bo_before bo idx w s = Some (Done s1) \<Longrightarrow>
    bo_window bo start cur w s1 = Some (Done (count, s2)) \<Longrightarrow> bo_after bo idx w s2 = Some (Done s3) \<Longrightarrow>
    rw_count r = count \<Longrightarrow> inv (idx + 1) s3 (rows @ [r])"
begin

lemma one_window:
  assumes "bench_window bo sq H p d wn bs idx w b = Some (Done b')" "inv idx (be_state b) (be_rows b)"
  shows "inv (idx + 1) (be_state b') (be_rows b')"
proof -
  obtain m1 count m2 m3 where c: "bo_before bo idx (wo_body w) (be_state b) = Some (Done m1)"
      "bo_window bo (wo_start w) (current_window_sec d wn idx) (wo_body w) m1 = Some (Done (count, m2))"
      "bo_after bo idx (wo_body w) m2 = Some (Done m3)"
      "b' = (report sq H p (bench_row bs idx w count) b)\<lparr>be_state := m3\<rparr>"
    using bench_window_Done [OF assms(1)] by blast
  have "inv (idx + 1) m3 (be_rows b @ [bench_row bs idx w count])"
    by (rule window_keeps [OF assms(2) c(1-3)]) (simp add: bench_row_def)
  then show ?thesis by (simp add: c(4) report_def)
qed

lemma all_windows:
  assumes "bench_windows bo sq H p d wn bs idx ws b = Some (Done b')" "inv idx (be_state b) (be_rows b)"
  shows "\<exists>n. idx \<le> n \<and> n \<le> max idx (window_count d wn + 1) \<and> inv n (be_state b') (be_rows b') \<and>
    ((\<forall>w\<in>set ws. \<not> wo_stop w) \<longrightarrow> n = max idx (window_count d wn + 1))"
  using assms
proof (induction ws arbitrary: idx b)
  case Nil
  then show ?case by (intro exI [of _ idx]) (auto split: if_splits)
next
  case (Cons w ws)
  show ?case
  proof (cases "idx \<le> window_count d wn \<and> \<not> wo_stop w")
    case False
    then show ?thesis using Cons.prems by (intro exI [of _ idx]) auto
  next
    case True
    then obtain b1 where b1: "bench_window bo sq H p d wn bs idx w b = Some (Done b1)"
      "bench_windows bo sq H p d wn bs (idx + 1) ws b1 = Some (Done b')"
      using Cons.prems(1) by auto
    from Cons.IH [OF b1(2) one_window [OF b1(1) Cons.prems(2)]] obtain n where
      "idx + 1 \<le> n" "n \<le> max (idx + 1) (window_count d wn + 1)" "inv n (be_state b') (be_rows b')"
      "(\<forall>w\<in>set ws. \<not> wo_stop w) \<longrightarrow> n = max (idx + 1) (window_count d wn + 1)" by blast
    then show ?thesis using True by (intro exI [of _ n]) auto
  qed
qed

end

section \<open>The lines of a run\<close>

lemma bench_windows_reported:
  assumes "bench_windows bo sq H p d wn bs idx ws b = Some (Done b')" "reported sq p header (idx - 1) b" "1 \<le> idx"
    "\<forall>line. \<not> write_fails H p line"
  shows "\<exists>n. idx - 1 \<le> n \<and> n \<le> max (idx - 1) (window_count d wn) \<and> reported sq p header n b' \<and>
    ((\<forall>w\<in>set ws. \<not> wo_stop w) \<longrightarrow> n = max (idx - 1) (window_count d wn))"
  using assms(1-3)
proof (induction ws arbitrary: idx b)
  case Nil
  then show ?case by (intro exI [of _ "idx - 1"]) (auto split: if_splits)
next
  case (Cons w ws)
  show ?case
  proof (cases "idx \<le> window_count d wn \<and> \<not> wo_stop w")
    case False
    then show ?thesis using Cons.prems by (intro exI [of _ "idx - 1"]) auto
  next
    case True
    then obtain b1 where b1: "bench_window bo sq H p d wn bs idx w b = Some (Done b1)"
      "bench_windows bo sq H p d wn bs (idx + 1) ws b1 = Some (Done b')"
      using Cons.prems(1) by auto
    obtain count m3 where c: "b1 = (report sq H p (bench_row bs idx w count) b)\<lparr>be_state := m3\<rparr>"
      using bench_window_Done [OF b1(1)] by metis
    have "reported sq p header (idx - 1 + 1) (report sq H p (bench_row bs idx w count) b)"
      by (rule report_reported [OF Cons.prems(2) _ _ assms(4)]) (use Cons.prems(3) in \<open>simp_all add: bench_row_def\<close>)
    then have "reported sq p header (idx + 1 - 1) b1" by (simp add: c reported_state)
    from Cons.IH [OF b1(2) this] obtain n where "idx + 1 - 1 \<le> n" "n \<le> max (idx + 1 - 1) (window_count d wn)"
      "reported sq p header n b'" "(\<forall>w\<in>set ws. \<not> wo_stop w) \<longrightarrow> n = max (idx + 1 - 1) (window_count d wn)"
      using Cons.prems(3) by auto
    then show ?thesis using True by (intro exI [of _ n]) auto
  qed
qed

lemma run_bench_Done:
  assumes "run_bench bo sq H out header d wn bs ws m fs = Some (Done b')"
  obtains fs' where "open_trunc H (parse_path out) fs = Some fs'" "d + wn - 1 \<le> INT64_MAX"
    "bench_windows bo sq H (parse_path out) d wn bs 1 ws
       (csv_write H (parse_path out) (header @ newline) \<lparr>be_state = m, be_good = True, be_files = fs', be_rows = []\<rparr>) =
       Some (Done b')"
  using assms by (auto simp: run_bench_def run_windows_def Let_def split: option.splits if_splits)

section \<open>Throttled runs\<close>

definition counted :: "row list \<Rightarrow> int" where
  "counted rows = sum_list (map rw_count rows)"

lemma be_rows_report [simp]: "be_rows (report sq H p r b) = be_rows b @ [r]"
  by (simp add: report_def)

text \<open>Of the rounds of the throttle, those used up and those to come give a fixed number of tokens.\<close>

definition token_inv :: "int \<Rightarrow> int \<Rightarrow> memory token_state \<Rightarrow> row list \<Rightarrow> bool" where
  "token_inv tokens idx s rows \<longleftrightarrow>
     (case s of (m, th, rs) \<Rightarrow>
        th_enabled th \<and> (\<forall>r\<in>set rs. \<not> rd_stop r) \<and> counted rows + int (grants th rs) \<le> tokens)"

interpretation token_program: bench_program "token_ops rt tr M" "token_inv tokens" for rt tr M tokens
proof
  fix idx :: int and s s1 s2 s3 :: "memory token_state" and rows w start cur count and r :: row
  assume i: "token_inv tokens idx s rows" and b: "bo_before (token_ops rt tr M) idx w s = Some (Done s1)"
    and l: "bo_window (token_ops rt tr M) start cur w s1 = Some (Done (count, s2))"
    and a: "bo_after (token_ops rt tr M) idx w s2 = Some (Done s3)" and r: "rw_count r = count"
  obtain m th rs where s: "s = (m, th, rs)" by (cases s)
  obtain mm mm' th1 rs1 where "token_loop (Infer rt tr M) start cur w 0 (m, th, rs) = Some (Done (count, mm, th1, rs1))"
      "s3 = (mm', th1, rs1)"
    using b l a s by (auto simp: token_ops_def synchronised_def)
  with token_loop_grants [OF this(1)] show "token_inv tokens (idx + 1) s3 (rows @ [r])"
    using i s r by (auto simp: token_inv_def counted_def)
qed

lemma token_windows_grants:
  assumes "bench_windows (token_ops rt tr M) sq H p d wn bs idx ws b = Some (Done b')"
    "be_state b = (m, th, rs)" "th_enabled th" "\<forall>r\<in>set rs. \<not> rd_stop r"
  shows "counted (be_rows b') - counted (be_rows b) \<le> int (grants th rs)"
proof -
  have "token_inv (counted (be_rows b) + int (grants th rs)) idx (be_state b) (be_rows b)"
    using assms(2-4) by (simp add: token_inv_def)
  from token_program.all_windows [OF assms(1) this] show ?thesis by (auto simp: token_inv_def)
qed

section \<open>Properties\<close>

text \<open>C20. A window measures what it says: while no stop signal comes, its count is the number of
  inferences that were run, all of them one after the other from the state at its start, the last one is the
  first to end when the window is over, and it ends less than one inference after that.\<close>

theorem window_exact:
  assumes "window_loop infer st cur ts 0 m = Some (Done (count, m'))" "0 < cur" "\<forall>t\<in>set ts. \<not> tk_stop t"
    "ts \<noteq> [] \<longrightarrow> tk_now (ts ! 0) - st \<le> longest" "\<forall>i. Suc i < length ts \<longrightarrow> tk_now (ts ! Suc i) - tk_now (ts ! i) \<le> longest"
  shows "\<exists>k. count = int (Suc k) \<and> repeat_o (Suc k) infer m = Done m' \<and>
    (\<forall>i<k. tk_now (ts ! i) - st < cur * 1000000000) \<and>
    cur * 1000000000 \<le> tk_now (ts ! k) - st \<and> tk_now (ts ! k) - st < cur * 1000000000 + longest"
proof -
  obtain n where n: "count = int n" "repeat_o n infer m = Done m'" "measured st cur ts n"
    using window_loop_measured [OF assms(1)] by auto
  have fin: "0 < n" "cur \<le> elapsed_seconds st (tk_now (ts ! (n - 1)))" "n \<le> length ts"
    using n(3) assms(3) by (auto simp: measured_def)
  obtain k where k: "n = Suc k" using fin(1) by (cases n) auto
  have before: "tk_now (ts ! i) - st < cur * 1000000000" if "i < k" for i
    using n(3) that elapsed_less [of st "tk_now (ts ! i)" cur] by (simp add: measured_def k)
  have reached: "cur * 1000000000 \<le> tk_now (ts ! k) - st"
    using fin(2) elapsed_less [of st "tk_now (ts ! k)" cur] k by simp
  have "tk_now (ts ! k) - st < cur * 1000000000 + longest"
  proof (cases k)
    case 0
    then show ?thesis using assms(2,4) fin(3) k by (cases ts) auto
  next
    case (Suc j)
    then have "tk_now (ts ! Suc j) - tk_now (ts ! j) \<le> longest" using assms(5) fin(3) k by simp
    then show ?thesis using before [of j] unfolding Suc by linarith
  qed
  then show ?thesis using n(1,2) before reached k by blast
qed

text \<open>A window ends: when every inference takes at least a certain time, the loop has ended, if
  not before, once as many have finished as fit into the window.\<close>

theorem window_terminates:
  assumes "\<forall>m. \<exists>m'. infer m = Done m'" "0 < shortest" "0 < cur"
    "\<forall>i<length ts. st + int (Suc i) * shortest \<le> tk_now (ts ! i)" "cur * 1000000000 \<le> int (length ts) * shortest"
  shows "\<exists>count m'. window_loop infer st cur ts 0 m = Some (Done (count, m'))"
proof (rule ccontr)
  assume "\<not> ?thesis"
  then have n: "window_loop infer st cur ts 0 m = None"
    using window_loop_total [of infer st cur ts 0 m] assms(1) by auto
  have "ts \<noteq> []" using assms(3,5) by auto
  then obtain k where k: "length ts = Suc k" by (cases ts) auto
  have "ts ! k \<in> set ts" using k by simp
  then have "elapsed_seconds st (tk_now (ts ! k)) < cur" using window_loop_None [OF _ n] assms(1) by blast
  then have "tk_now (ts ! k) - st < cur * 1000000000" by (simp add: elapsed_less)
  then show False using assms(4,5) k by fastforce
qed

text \<open>The report is complete: a run that no stop signal interrupts writes one line for each of the
  windows that cover the duration, in order, and the file holds the header and these lines.\<close>

theorem report_complete:
  assumes "run_bench bo sq H out header d wn bs ws m fs = Some (Done b)" "\<forall>w\<in>set ws. \<not> wo_stop w"
    "\<forall>line. \<not> write_fails H (parse_path out) line" "0 < d" "0 < wn"
  shows "map rw_index (be_rows b) = [1..window_count d wn] \<and>
    be_files b (names (parse_path out)) = Some (File (header @ newline @ concat (map (row_text sq) (be_rows b))))"
proof -
  let ?p = "parse_path out"
  obtain fs' where r: "open_trunc H ?p fs = Some fs'"
    "bench_windows bo sq H ?p d wn bs 1 ws
       (csv_write H ?p (header @ newline) \<lparr>be_state = m, be_good = True, be_files = fs', be_rows = []\<rparr>) = Some (Done b)"
    using run_bench_Done [OF assms(1)] by blast
  have f: "fs' (names ?p) = Some (File [])" using r(1) by (auto simp: open_trunc_def split: if_splits)
  have "reported sq ?p header 0 (csv_write H ?p (header @ newline) \<lparr>be_state = m, be_good = True, be_files = fs', be_rows = []\<rparr>)"
    using csv_write_good [of "\<lparr>be_state = m, be_good = True, be_files = fs', be_rows = []\<rparr>" ?p "[]" H "header @ newline"]
      f assms(3) by (simp add: reported_def)
  then have "reported sq ?p header (1 - 1) (csv_write H ?p (header @ newline) \<lparr>be_state = m, be_good = True, be_files = fs', be_rows = []\<rparr>)"
    by simp
  from bench_windows_reported [OF r(2) this order_refl assms(3)] assms(2)
  have "reported sq ?p header (max (1 - 1) (window_count d wn)) b" by auto
  moreover have "0 \<le> window_count d wn" using assms(4,5) by (simp add: window_count_def pos_imp_zdiv_nonneg_iff)
  ultimately show ?thesis by (simp add: reported_def)
qed

text \<open>The token benchmark keeps the rate of its throttle: all inferences that a run of gpu\_token\_up
  measures, over all its windows, are at most max 1 (u * quota) for each throttle window of the time
  from the first refill and one more, while the utilization file says at most u.\<close>

theorem token_bench_rate:
  assumes "run_bench (token_ops rt tr M) sq H out header d wn bs ws (m, th, rs) fs = Some (Done b)"
    and "th_enabled th" "\<forall>r\<in>set rs. \<not> rd_stop r"
    and "throttled u q w th0" "th = Refill t content th0" "clock_ok th t rs"
    and "file_at_most u content" "\<forall>r\<in>set rs. file_at_most u (rd_file r)" "0 \<le> u" "0 \<le> q" "0 < w"
  shows "counted (be_rows b) * w \<le> max 1 (u * q) * (end_time th t rs - t + w)"
proof -
  let ?p = "parse_path out"
  obtain fs' where r: "bench_windows (token_ops rt tr M) sq H ?p d wn bs 1 ws
       (csv_write H ?p (header @ newline) \<lparr>be_state = (m, th, rs), be_good = True, be_files = fs', be_rows = []\<rparr>) = Some (Done b)"
    using run_bench_Done [OF assms(1)] by blast
  have "counted (be_rows b) \<le> int (grants th rs)"
    using token_windows_grants [OF r _ assms(2,3), of m] by (simp add: counted_def)
  then have "counted (be_rows b) * w \<le> int (grants th rs) * w" using assms(11) by (intro mult_right_mono) auto
  also have "\<dots> \<le> max 1 (u * q) * (end_time th t rs - t + w)" by (rule throttle_rate [OF assms(4-11)])
  finally show ?thesis .
qed

section \<open>Examples\<close>

text \<open>Clocks of a window of one second with two inferences, what one window of a run observes, and a program that
  counts its inferences.\<close>

definition demo_ticks :: "tick list" where
  "demo_ticks = [\<lparr>tk_stop = False, tk_now = 600000000\<rparr>, \<lparr>tk_stop = False, tk_now = 1100000000\<rparr>]"

definition demo_window :: "'w \<Rightarrow> 'w window_obs" where
  "demo_window body = \<lparr>wo_stop = False, wo_start = 0, wo_body = body, wo_end = 1100000000\<rparr>"

definition count_ops :: "(tick list, int) bench_ops" where
  "count_ops = \<lparr>bo_before = \<lambda>_ _ m. Some (Done m),
     bo_window = \<lambda>start current ts m. window_loop (\<lambda>m. Done (m + 1)) start current ts 0 m, bo_after = \<lambda>_ _ m. Some (Done m)\<rparr>"

theorem window_exact_witness:
  "window_loop (\<lambda>m. Done (m + 1)) 0 1 demo_ticks 0 (0::int) = Some (Done (2, 2)) \<and>
   (\<exists>k. (2::int) = int (Suc k) \<and> 1000000000 \<le> tk_now (demo_ticks ! k) \<and> tk_now (demo_ticks ! k) < 1000000000 + 700000000)"
proof -
  have w: "window_loop (\<lambda>m. Done (m + 1)) 0 1 demo_ticks 0 (0::int) = Some (Done (2, 2))" by code_simp
  have l: "demo_ticks ! 0 = \<lparr>tk_stop = False, tk_now = 600000000\<rparr>" "demo_ticks ! 1 = \<lparr>tk_stop = False, tk_now = 1100000000\<rparr>"
    "length demo_ticks = 2" by (simp_all add: demo_ticks_def)
  have "tk_now (demo_ticks ! Suc i) - tk_now (demo_ticks ! i) \<le> 700000000" if "Suc i < length demo_ticks" for i
    using that l by (cases i) simp_all
  moreover have "\<forall>t\<in>set demo_ticks. \<not> tk_stop t" by (simp add: demo_ticks_def)
  ultimately show ?thesis using window_exact [OF w, of 700000000] w l(1) by auto
qed

theorem window_terminates_witness:
  "\<exists>count m'. window_loop (\<lambda>m. Done (m + 1)) 0 1 demo_ticks 0 (0::int) = Some (Done (count, m'))"
  by (rule window_terminates [where shortest = 500000000]) (auto simp: demo_ticks_def less_Suc_eq)

theorem report_complete_witness:
  "\<exists>b. run_bench count_ops (\<lambda>_ _. ''q'') quiet_host ''/r'' ''h'' 1 1 0 [demo_window demo_ticks] 0 demo_disk = Some (Done b) \<and>
     map rw_index (be_rows b) = [1] \<and> be_files b [''r''] = Some (File (''h'' @ newline @ concat (map (row_text (\<lambda>_ _. ''q'')) (be_rows b))))"
proof -
  let ?r = "run_bench count_ops (\<lambda>_ _. ''q'') quiet_host ''/r'' ''h'' 1 1 0 [demo_window demo_ticks] 0 demo_disk"
  have "case ?r of Some (Done b) \<Rightarrow> True | _ \<Rightarrow> False" by code_simp
  then obtain b where b: "?r = Some (Done b)" by (auto split: option.splits ending.splits)
  have "names (parse_path ''/r'') = [''r'']" "window_count 1 1 = 1" by code_simp+
  then show ?thesis using report_complete [OF b] b by (simp add: demo_window_def quiet_host_def)
qed

text \<open>One window of the token program with one round of the throttle of TokenThrottle.\<close>

definition demo_token_tick :: token_tick where
  "demo_token_tick = \<lparr>tt_stop = False, tt_stopped = False, tt_now = 1000000000\<rparr>"

definition demo_token_run :: "memory token_state bench ending option" where
  "demo_token_run =
     (let e = demo_engine 0 (-1) 2; tr = demo_trt 10 e
      in case InitContext demo_runtime tr (empty_model 2 e, demo_memory) of
           Done (M, m) \<Rightarrow>
             run_bench (token_ops demo_runtime tr M) (\<lambda>_ _. ''q'') quiet_host ''/r'' csv_header 1 1 0
               [demo_window [demo_token_tick]] (m, Refill 0 (Some ''2'') demo_throttle, take 1 demo_throttle_rounds) demo_disk
         | _ \<Rightarrow> None)"

theorem token_bench_rate_witness:
  "\<exists>b. demo_token_run = Some (Done b) \<and> counted (be_rows b) = 1 \<and> counted (be_rows b) * 1000000 \<le> 2 * (1 + 1000000)"
proof -
  let ?e = "demo_engine 0 (-1) 2" let ?tr = "demo_trt 10 ?e"
  let ?th = "Refill 0 (Some ''2'') demo_throttle" let ?rs = "take (Suc 0) demo_throttle_rounds"
  have "case demo_token_run of Some (Done b) \<Rightarrow> counted (be_rows b) = 1 | _ \<Rightarrow> False" by code_simp
  then obtain b where b: "demo_token_run = Some (Done b)" "counted (be_rows b) = 1"
    by (auto split: option.splits ending.splits)
  then obtain M m where run: "run_bench (token_ops demo_runtime ?tr M) (\<lambda>_ _. ''q'') quiet_host ''/r'' csv_header 1 1 0
      [demo_window [demo_token_tick]] (m, ?th, ?rs) demo_disk = Some (Done b)"
    by (auto simp: demo_token_run_def Let_def split: ending.splits)
  have r: "read_long ''2'' = Some (2, [])"
    by (simp add: read_long_def parse_decimal_def c_isspace_def c_isdigit_def digits_value_def digit_val_def)
  have th: "?th = demo_throttle\<lparr>th_tokens := 2, th_window_end := 1000000\<rparr>"
    by (simp add: Refill_def ReadUtilization_def demo_throttle_def window_ns_def r Let_def)
  have 1: "th_enabled ?th" "throttled 2 1 1000000 demo_throttle"
    by (simp_all only: th) (simp_all add: throttled_def demo_throttle_def window_ns_def)
  have 2: "clock_ok ?th 0 ?rs" "end_time ?th 0 ?rs = 1"
    unfolding th by (simp_all add: demo_throttle_rounds_def acquire_step_def sleeps_def demo_throttle_def)
  have 3: "file_at_most 2 (Some ''2'')" "\<forall>x\<in>set ?rs. file_at_most 2 (rd_file x)" "\<forall>x\<in>set ?rs. \<not> rd_stop x"
    by (simp_all add: file_at_most_def demo_throttle_rounds_def r)
  have "counted (be_rows b) * 1000000 \<le> max 1 (2 * 1) * (end_time ?th 0 ?rs - 0 + 1000000)"
    by (rule token_bench_rate [OF run 1(1) 3(3) 1(2) refl 2(1) 3(1,2)]) simp_all
  then have "counted (be_rows b) * 1000000 \<le> 2 * (1 + 1000000)" by (simp add: 2(2))
  with b show ?thesis by blast
qed

end
