(* ===== verification/SyncEnds.thy ===== *)
theory SyncEnds
  imports BenchCorrect
begin

text \<open>
  How the two processes of application/gpu\_dynamic\_up come to the barrier and leave it: the calls of Sync that
  a run of main/up\_loop.cpp makes, what happens when one process makes fewer of them than the other, and the
  set-up of the shared counter in AcquireSharedSyncState (include/utils.h).
\<close>

section \<open>The calls of one process\<close>

lemma sync_target_start: "1 \<le> idx \<Longrightarrow> sync_target (2 * nat idx) = start_target idx"
  by (simp add: sync_target_def)

lemma sync_target_stop: "1 \<le> idx \<Longrightarrow> sync_target (Suc (2 * nat idx)) = stop_target idx"
  by (simp add: sync_target_def)

lemma targets_step:
  assumes "1 \<le> idx" "idx \<le> 536870910" "ts = map sync_target [0..<2 * nat idx]"
  shows "ts @ [to_int32 (start_target idx)] @ [to_int32 (stop_target idx)] = map sync_target [0..<2 * nat (idx + 1)]"
proof -
  have "to_int32 (start_target idx) = start_target idx" "to_int32 (stop_target idx) = stop_target idx"
    using assms(1,2) by (auto intro!: to_int32_id simp: start_target_def stop_target_def)
  moreover have "2 * nat (idx + 1) = Suc (Suc (2 * nat idx))" using assms(1) by simp
  ultimately show ?thesis using assms(3) sync_target_start [OF assms(1)] sync_target_stop [OF assms(1)] by simp
qed

text \<open>Before window idx the process has made two calls for each line it reported and two more.\<close>

definition dynamic_inv :: "int \<Rightarrow> memory \<times> int list \<Rightarrow> row list \<Rightarrow> bool" where
  "dynamic_inv idx s rows \<longleftrightarrow>
     idx = int (length rows) + 1 \<and> (idx \<le> 536870911 \<longrightarrow> snd s = map sync_target [0..<2 * nat idx])"

interpretation dynamic_program: bench_program "dynamic_ops rt tr M" dynamic_inv for rt tr M
proof
  fix idx :: int and s s1 s2 s3 :: "memory \<times> int list" and rows w start cur count and r :: row
  assume i: "dynamic_inv idx s rows" and b: "bo_before (dynamic_ops rt tr M) idx w s = Some (Done s1)"
    and l: "bo_window (dynamic_ops rt tr M) start cur w s1 = Some (Done (count, s2))"
    and a: "bo_after (dynamic_ops rt tr M) idx w s2 = Some (Done s3)"
  have "snd s3 = snd s @ [to_int32 (start_target idx)] @ [to_int32 (stop_target idx)]"
    using b l a by (auto simp: dynamic_ops_def psync_def split: if_splits)
  then have "snd s3 = map sync_target [0..<2 * nat (idx + 1)]" if "idx + 1 \<le> 536870911"
    using i that targets_step [of idx "snd s"] by (simp add: dynamic_inv_def)
  then show "dynamic_inv (idx + 1) s3 (rows @ [r])" using i by (simp add: dynamic_inv_def)
qed

lemma dynamic_windows_targets:
  assumes "bench_windows (dynamic_ops rt tr M) sq H p d wn bs idx ws b = Some (Done b')" "1 \<le> idx"
    "snd (be_state b) = map sync_target [0..<2 * nat idx]" "idx - 1 = int (length (be_rows b))"
    "window_count d wn \<le> 536870910" "idx \<le> 536870911"
  shows "snd (be_state b') = map sync_target [0..<2 * (length (be_rows b') + 1)] \<and>
    int (length (be_rows b')) \<le> max (idx - 1) (window_count d wn) \<and>
    ((\<forall>w\<in>set ws. \<not> wo_stop w) \<longrightarrow> int (length (be_rows b')) = max (idx - 1) (window_count d wn))"
proof -
  have "dynamic_inv idx (be_state b) (be_rows b)" using assms(3,4) by (simp add: dynamic_inv_def)
  from dynamic_program.all_windows [OF assms(1) this] obtain n where n: "idx \<le> n" "n \<le> max idx (window_count d wn + 1)"
      "dynamic_inv n (be_state b') (be_rows b')"
      "(\<forall>w\<in>set ws. \<not> wo_stop w) \<longrightarrow> n = max idx (window_count d wn + 1)" by blast
  have m: "nat n = length (be_rows b') + 1" "int (length (be_rows b')) = n - 1" using n(3) by (simp_all add: dynamic_inv_def)
  have t: "snd (be_state b') = map sync_target [0..<2 * nat n]" using n(2,3) assms(5,6) by (simp add: dynamic_inv_def)
  show ?thesis unfolding t m using n(2,4) by auto
qed

section \<open>Processes with a last call\<close>

text \<open>The machine of WindowSync where each process makes a number of calls and no more.\<close>

inductive bounded_reach :: "(bool \<Rightarrow> nat) \<Rightarrow> sync_state \<Rightarrow> bool" for calls where
  begin_bounded: "bounded_reach calls (sync_start 0)"
| bounded_arrive: "bounded_reach calls s \<Longrightarrow> sp_returned (ss_proc s i) < calls i \<Longrightarrow> sync_arrive i s = Some s' \<Longrightarrow>
    bounded_reach calls s'"
| bounded_leave: "bounded_reach calls s \<Longrightarrow> sync_leave i s = Some s' \<Longrightarrow> bounded_reach calls s'"

lemma bounded_sync_reach: "bounded_reach calls s \<Longrightarrow> sync_reach 0 s"
  by (induction rule: bounded_reach.induct) (auto intro: sync_reach.intros)

lemma sync_arrive_Some:
  "sync_arrive i s = Some s' \<Longrightarrow> sp_waiting (ss_proc s' i) \<and> sp_returned (ss_proc s' i) = sp_returned (ss_proc s i) \<and>
   ss_proc s' (\<not> i) = ss_proc s (\<not> i)"
  by (auto simp: sync_arrive_def set_proc_def split: if_splits)

lemma sync_leave_Some:
  "sync_leave i s = Some s' \<Longrightarrow> sp_waiting (ss_proc s i) \<and> \<not> sp_waiting (ss_proc s' i) \<and>
   sp_returned (ss_proc s' i) = sp_returned (ss_proc s i) + 1 \<and> ss_proc s' (\<not> i) = ss_proc s (\<not> i)"
  by (auto simp: sync_leave_def set_proc_def split: if_splits)

lemma bounded_arrived:
  "bounded_reach calls s \<Longrightarrow> arrived s j \<le> calls j"
proof (induction rule: bounded_reach.induct)
  case begin_bounded
  then show ?case by (simp add: arrived_def sync_start_def)
next
  case (bounded_arrive s i s')
  then show ?case using sync_arrive_Some [OF bounded_arrive(3)]
    by (cases "j = i") (auto simp: arrived_def split: if_splits)
next
  case (bounded_leave s i s')
  then show ?case using sync_leave_Some [OF bounded_leave(2)]
    by (cases "j = i") (auto simp: arrived_def split: if_splits)
qed

lemma sync_count: "sync_ok s \<Longrightarrow> ss_count s = int (arrived s i) + int (arrived s (\<not> i))"
  by (cases i) (simp_all add: sync_ok_def)

lemma sync_returned: "sync_ok s \<Longrightarrow> sp_returned (ss_proc s i) \<le> arrived s (\<not> i)"
  by (cases i) (simp_all add: sync_ok_def)

section \<open>Setting up the counter\<close>

text \<open>AcquireSharedSyncState marks the segment as initialised first and initialises it afterwards; then the
  process goes on to its first Sync, whose target is 2.\<close>

datatype setup_phase = Attached | MustInitialise | MustReset | Usable | InSync | SyncDone

record setup_state =
  su_initialized :: bool
  su_mutex_ready :: bool
  su_count :: int
  su_phase :: "bool \<Rightarrow> setup_phase"
  su_used_raw :: bool

definition setup_step :: "bool \<Rightarrow> setup_state \<Rightarrow> setup_state option" where
  "setup_step i s =
     (case su_phase s i of
        Attached \<Rightarrow>
          if su_initialized s then Some (s\<lparr>su_phase := (su_phase s)(i := Usable)\<rparr>)
          else Some (s\<lparr>su_initialized := True, su_phase := (su_phase s)(i := MustInitialise)\<rparr>)
      | MustInitialise \<Rightarrow> Some (s\<lparr>su_mutex_ready := True, su_phase := (su_phase s)(i := MustReset)\<rparr>)
      | MustReset \<Rightarrow> Some (s\<lparr>su_count := 0, su_phase := (su_phase s)(i := Usable)\<rparr>)
      | Usable \<Rightarrow> Some (s\<lparr>su_count := su_count s + 1, su_used_raw := su_used_raw s \<or> \<not> su_mutex_ready s,
                          su_phase := (su_phase s)(i := InSync)\<rparr>)
      | InSync \<Rightarrow> if su_count s < 2 then None else Some (s\<lparr>su_phase := (su_phase s)(i := SyncDone)\<rparr>)
      | SyncDone \<Rightarrow> None)"

definition setup_start :: setup_state where
  "setup_start = \<lparr>su_initialized = False, su_mutex_ready = False, su_count = 0, su_phase = \<lambda>_. Attached, su_used_raw = False\<rparr>"

text \<open>A run as the sequence of the processes that make the next step.\<close>

fun setup_run :: "bool list \<Rightarrow> setup_state \<Rightarrow> setup_state option" where
  "setup_run [] s = Some s"
| "setup_run (i # is) s = (case setup_step i s of None \<Rightarrow> None | Some s' \<Rightarrow> setup_run is s')"

section \<open>Properties\<close>

text \<open>A run of the dynamic benchmark makes the calls of Sync that the barrier expects: two before the
  windows and two for each line it reports, with the targets 2, 4, 6 and so on, and all windows when no
  stop signal comes.\<close>

theorem dynamic_sync_calls:
  assumes "run_bench (dynamic_ops rt tr M) sq H out header d wn bs ws (m, [2, 4]) fs = Some (Done b)"
    "0 < d" "0 < wn" "window_count d wn \<le> 536870910"
  shows "snd (be_state b) = map sync_target [0..<2 + 2 * length (be_rows b)] \<and>
    int (length (be_rows b)) \<le> window_count d wn \<and>
    ((\<forall>w\<in>set ws. \<not> wo_stop w) \<longrightarrow> int (length (be_rows b)) = window_count d wn)"
proof -
  obtain fs' where r: "bench_windows (dynamic_ops rt tr M) sq H (parse_path out) d wn bs 1 ws
       (csv_write H (parse_path out) (header @ newline) \<lparr>be_state = (m, [2, 4]), be_good = True, be_files = fs', be_rows = []\<rparr>) = Some (Done b)"
    using run_bench_Done [OF assms(1)] by blast
  have "0 \<le> window_count d wn" using assms(2,3) by (simp add: window_count_def pos_imp_zdiv_nonneg_iff)
  moreover have "[2, 4] = map sync_target [0..<2 * nat 1]" by (simp add: sync_target_def numeral_2_eq_2)
  ultimately show ?thesis using dynamic_windows_targets [OF r] assms(4) by simp
qed

text \<open>A process that makes fewer calls than its partner leaves it waiting for ever: when a stop signal
  reaches one process only, or their durations differ, the other never returns from the call after the
  partner's last one.\<close>

theorem fewer_calls_block_partner:
  assumes "bounded_reach calls s" "calls (\<not> i) < calls i"
  shows "sp_returned (ss_proc s i) \<le> calls (\<not> i) \<and>
    (sp_returned (ss_proc s i) = calls (\<not> i) \<longrightarrow> sync_leave i s = None)"
proof -
  have ok: "sync_ok s" by (rule sync_reach_ok [OF bounded_sync_reach [OF assms(1)]])
  have a: "arrived s (\<not> i) \<le> calls (\<not> i)" by (rule bounded_arrived [OF assms(1)])
  have "sync_leave i s = None" if e: "sp_returned (ss_proc s i) = calls (\<not> i)"
  proof (cases "sp_waiting (ss_proc s i)")
    case True
    then have "ss_count s = int (calls (\<not> i)) + 1 + int (arrived s (\<not> i))"
      using sync_count [OF ok, of i] e by (simp add: arrived_def)
    then show ?thesis using a e by (simp add: sync_leave_def sync_target_eq)
  qed (simp add: sync_leave_def)
  moreover have "sp_returned (ss_proc s i) \<le> calls (\<not> i)" using sync_returned [OF ok, of i] a by linarith
  ultimately show ?thesis by blast
qed


text \<open>C39. Setting up the counter is not safe: the flag is set before the mutex and the counter are, so a second
  process can use the mutex before it is initialised, and its arrival can be lost, after which both
  processes wait in their first Sync for ever.\<close>

theorem setup_race_deadlocks:
  "\<exists>run s. setup_run run setup_start = Some s \<and> su_used_raw s \<and> su_phase s True = InSync \<and> su_phase s False = InSync \<and>
     setup_step True s = None \<and> setup_step False s = None"
proof -
  have "case setup_run [True, False, False, True, True, True] setup_start of None \<Rightarrow> False
    | Some s \<Rightarrow> su_used_raw s \<and> su_phase s True = InSync \<and> su_phase s False = InSync \<and>
        setup_step True s = None \<and> setup_step False s = None" by code_simp
  then show ?thesis
    by (intro exI [of _ "[True, False, False, True, True, True]"]) (auto simp del: setup_run.simps split: option.splits)
qed

text \<open>When the first process has set the counter up before the second attaches, the barrier works.\<close>

lemma setup_in_order:
  "case setup_run ([True, True, True] @ [False, True, False, True, False]) setup_start of None \<Rightarrow> False
   | Some s \<Rightarrow> \<not> su_used_raw s \<and> su_phase s True = SyncDone \<and> su_phase s False = SyncDone"
  by code_simp

section \<open>Examples\<close>

definition demo_dynamic_run :: "(memory \<times> int list) bench ending option" where
  "demo_dynamic_run =
     (let e = demo_engine 0 (-1) 2; tr = demo_trt 10 e
      in case InitContext demo_runtime tr (empty_model 2 e, demo_memory) of
           Done (M, m) \<Rightarrow>
             run_bench (dynamic_ops demo_runtime tr M) (\<lambda>_ _. ''q'') quiet_host ''/r'' csv_header 1 1 0
               [demo_window \<lparr>do_started = True, do_ticks = demo_ticks, do_stopped = True\<rparr>] (m, [2, 4]) demo_disk
         | _ \<Rightarrow> None)"

theorem dynamic_sync_calls_witness:
  "\<exists>b. demo_dynamic_run = Some (Done b) \<and> length (be_rows b) = 1 \<and> snd (be_state b) = [2, 4, 6, 8]"
proof -
  let ?e = "demo_engine 0 (-1) 2" let ?tr = "demo_trt 10 ?e"
  have "case demo_dynamic_run of Some (Done b) \<Rightarrow> True | _ \<Rightarrow> False" by code_simp
  then obtain b where b: "demo_dynamic_run = Some (Done b)" by (auto split: option.splits ending.splits)
  then obtain M m where run: "run_bench (dynamic_ops demo_runtime ?tr M) (\<lambda>_ _. ''q'') quiet_host ''/r'' csv_header 1 1 0
      [demo_window \<lparr>do_started = True, do_ticks = demo_ticks, do_stopped = True\<rparr>] (m, [2, 4]) demo_disk = Some (Done b)"
    by (auto simp: demo_dynamic_run_def Let_def split: ending.splits)
  have n: "window_count 1 1 = 1" by (simp add: window_count_def)
  note c = dynamic_sync_calls [OF run, simplified n]
  have "length (be_rows b) = 1" using c by (simp add: demo_window_def)
  moreover have "map sync_target [0..<2 + 2 * 1] = [2, 4, 6, 8]" by code_simp
  ultimately show ?thesis using b c by (intro exI [of _ b]) simp
qed

text \<open>Two processes with one call each; only the first arrives in the first example.\<close>

definition demo_arrived :: sync_state where
  "demo_arrived = \<lparr>ss_count = 1, ss_proc = (\<lambda>_. \<lparr>sp_returned = 0, sp_waiting = False\<rparr>)(True := \<lparr>sp_returned = 0, sp_waiting = True\<rparr>)\<rparr>"

definition demo_both_arrived :: sync_state where
  "demo_both_arrived = \<lparr>ss_count = 2, ss_proc = \<lambda>_. \<lparr>sp_returned = 0, sp_waiting = True\<rparr>\<rparr>"

lemma demo_arrive: "sync_arrive True (sync_start 0) = Some demo_arrived"
  by (simp add: sync_arrive_def sync_start_def set_proc_def demo_arrived_def)

lemma demo_arrive_both: "sync_arrive False demo_arrived = Some demo_both_arrived"
  by (simp add: sync_arrive_def set_proc_def demo_arrived_def demo_both_arrived_def fun_eq_iff)

lemma demo_arrived_reach: "0 < calls True \<Longrightarrow> bounded_reach calls demo_arrived"
  by (rule bounded_arrive [OF begin_bounded _ demo_arrive]) (simp add: sync_start_def)

theorem fewer_calls_block_partner_witness:
  "sync_arrive True (sync_start 0) = Some demo_arrived \<and> sync_leave True demo_arrived = None"
  using fewer_calls_block_partner [OF demo_arrived_reach, of "\<lambda>i. if i then 1 else 0" True] demo_arrive
  by (simp add: demo_arrived_def)


end
