(* ===== verification/RateControl.thy ===== *)
theory RateControl
  imports BenchCorrect
begin

text \<open>
  The server and a GPU workload together: the call UpdateUtilization writes a file, the token benchmark that
  runs as the task reads it, and its report shows the rate that was asked for.
\<close>

lemma ParsePositiveLong_pos: "0 < fallback \<Longrightarrow> 0 < ParsePositiveLong val fallback"
  by (auto simp: ParsePositiveLong_def Let_def split: option.split)

lemma new_throttle_settings:
  "th_enabled (new_throttle getenv enabled init t content) = enabled"
  "0 < th_quota_unit (new_throttle getenv enabled init t content)"
  "0 < window_ns (new_throttle getenv enabled init t content)"
  by (simp_all add: new_throttle_def Refill_def Let_def window_ns_def ParsePositiveLong_pos)

text \<open>With a readable file the throttle starts as one that already had the utilization of the file.\<close>

lemma new_throttle_throttled:
  assumes "ReadUtilization (new_throttle getenv True init t (Some content)) (Some content) = u"
    "getenv ''DREX_UTILIZATION_FILE'' = Some name" "name \<noteq> []" "read_long content \<noteq> None"
  obtains th0 where "throttled u (th_quota_unit (new_throttle getenv True init t (Some content)))
      (window_ns (new_throttle getenv True init t (Some content))) th0"
    "new_throttle getenv True init t (Some content) = Refill t (Some content) th0"
proof -
  define th where "th = new_throttle getenv True init t (Some content)"
  define th0 where "th0 = th\<lparr>th_utilization := u\<rparr>"
  have f: "th_utilization_file th = name" "th_enabled th" using assms(2) by (simp_all add: th_def new_throttle_def Refill_def Let_def)
  have "throttled u (th_quota_unit th) (window_ns th) th0" using f assms(3) by (simp add: throttled_def th0_def window_ns_def)
  moreover have "th = Refill t (Some content) th0"
    using assms f by (auto simp: th_def th0_def new_throttle_def Refill_def ReadUtilization_def Let_def window_ns_def
        split: option.splits)
  ultimately show ?thesis using that unfolding th_def by blast
qed

text \<open>C17. From the request to the rate: once UpdateUtilization has written u into the file of a workspace, a
  token benchmark that starts with this file and always finds it so, or not at all, reports in any time at most
  max 1 (u * quota) inferences for each window of the throttle and one window more.\<close>

theorem updated_rate_obeyed:
  assumes "ServerWriteRuntimeUtilizationFile H (Some base) subdir u fs = (None, fs')"
    and "fs' (names (RuntimeUtilizationPath (LexicallyNormalized base (parse_path subdir)))) = Some (File content)"
    and "getenv ''DREX_UTILIZATION_FILE'' = Some name" "name \<noteq> []"
    and "th = new_throttle getenv True init t (Some content)" "clock_ok th t rs"
    and "\<forall>r\<in>set rs. \<not> rd_stop r \<and> rd_file r \<in> {None, Some content}"
    and "run_bench (token_ops rt tr M) sq H' out header d wn bs ws (m, th, rs) fs0 = Some (Done b)"
  shows "counted (be_rows b) * window_ns th \<le>
    max 1 (u * th_quota_unit th) * (end_time th t rs - t + window_ns th)"
proof -
  have u: "0 \<le> u" "u \<le> 100" and c: "content = to_string u @ newline"
    using utilization_file_written [OF assms(1)] assms(2) by simp_all
  have l: "read_long content = Some (u, newline)" using read_long_line [OF u] c by simp
  have f: "th_utilization_file th = name" using assms(3,5) by (simp add: new_throttle_def Refill_def Let_def)
  have r: "ReadUtilization th (Some content) = u" using l u f assms(4) by (simp add: ReadUtilization_def)
  obtain th0 where th0: "throttled u (th_quota_unit th) (window_ns th) th0" "th = Refill t (Some content) th0"
    using new_throttle_throttled [OF r [unfolded assms(5)] assms(3,4)] l assms(5) by auto
  have m: "file_at_most u (Some content)" "\<forall>r\<in>set rs. file_at_most u (rd_file r)"
    using l assms(7) by (auto simp: file_at_most_def)
  show ?thesis
    by (rule token_bench_rate [OF assms(8) _ _ th0 assms(6) m u(1)])
      (use assms(5,7) new_throttle_settings in \<open>auto intro: less_imp_le\<close>)
qed

text \<open>The server sets a utilization of 2, and the benchmark of BenchCorrect runs with the file.\<close>

definition demo_getenv :: env where
  "demo_getenv n =
     (if n = ''DREX_UTILIZATION_FILE'' then Some ''u''
      else if n = ''GPU_TOKEN_UP_TOKEN_WINDOW_MS'' then Some ''1'' else None)"

definition demo_rate_throttle :: throttle where
  "demo_rate_throttle = new_throttle demo_getenv True 0 0 (Some (''2'' @ newline))"

definition demo_rate_run :: "memory token_state bench ending option" where
  "demo_rate_run =
     (let e = demo_engine 0 (-1) 2; tr = demo_trt 10 e
      in case InitContext demo_runtime tr (empty_model 2 e, demo_memory) of
           Done (M, m) \<Rightarrow>
             run_bench (token_ops demo_runtime tr M) (\<lambda>_ _. ''q'') quiet_host ''/r'' csv_header 1 1 0
               [demo_window [demo_token_tick]] (m, demo_rate_throttle, take 1 demo_throttle_rounds) demo_disk
         | _ \<Rightarrow> None)"

theorem updated_rate_obeyed_witness:
  "\<exists>fs' b. ServerWriteRuntimeUtilizationFile quiet_host (Some demo_root) ''job'' 2 (sv_files demo_server) = (None, fs') \<and>
     demo_rate_run = Some (Done b) \<and> counted (be_rows b) = 1 \<and> counted (be_rows b) * 1000000 \<le> 2 * (1 + 1000000)"
proof -
  let ?run = "ServerWriteRuntimeUtilizationFile quiet_host (Some demo_root) ''job'' 2 (sv_files demo_server)"
  let ?e = "demo_engine 0 (-1) 2" let ?tr = "demo_trt 10 ?e" let ?rs = "take (Suc 0) demo_throttle_rounds"
  have "fst ?run = None" by code_simp
  then have w: "?run = (None, snd ?run)" by (simp add: prod_eq_iff)
  have c: "to_string 2 @ newline = ''2'' @ newline" by code_simp
  have "case demo_rate_run of Some (Done b) \<Rightarrow> counted (be_rows b) = 1 | _ \<Rightarrow> False" by code_simp
  then obtain b where b: "demo_rate_run = Some (Done b)" "counted (be_rows b) = 1"
    by (auto split: option.splits ending.splits)
  then obtain M m where run: "run_bench (token_ops demo_runtime ?tr M) (\<lambda>_ _. ''q'') quiet_host ''/r'' csv_header 1 1 0
      [demo_window [demo_token_tick]] (m, demo_rate_throttle, ?rs) demo_disk = Some (Done b)"
    by (auto simp: demo_rate_run_def Let_def split: ending.splits)
  have th: "th_quota_unit demo_rate_throttle = 1" "window_ns demo_rate_throttle = 1000000" "clock_ok demo_rate_throttle 0 ?rs"
    "end_time demo_rate_throttle 0 ?rs = 1" by code_simp+
  have e: "demo_getenv ''DREX_UTILIZATION_FILE'' = Some ''u''" "''u'' \<noteq> []" by (simp_all add: demo_getenv_def)
  have rs: "\<forall>r\<in>set ?rs. \<not> rd_stop r \<and> rd_file r \<in> {None, Some (''2'' @ newline)}" by (simp add: demo_throttle_rounds_def)
  have "counted (be_rows b) * window_ns demo_rate_throttle \<le> max 1 (2 * th_quota_unit demo_rate_throttle) *
      (end_time demo_rate_throttle 0 ?rs - 0 + window_ns demo_rate_throttle)"
    by (rule updated_rate_obeyed [OF w _ e demo_rate_throttle_def th(3) rs run])
      (use utilization_file_written [OF w] c in simp)
  then have "counted (be_rows b) * 1000000 \<le> 2 * (1 + 1000000)" unfolding th by simp
  then show ?thesis using w b by blast
qed

end
