(* ===== verification/CudaWorkload.thy ===== *)
theory CudaWorkload
  imports BenchCorrect
begin

text \<open>
  The programs that add vectors: the benchmark application/gpu\_transparent\_cuda (its kernel, the class
  CudaWorkload and main), and the demonstration programs application/gpu/low\_priority/app.cu and
  application/cpu/low\_priority/app.cc (those under high\_priority are copies of them). Floats are any type
  with an addition; a kernel launch runs its threads in an order that is a parameter.
\<close>

section \<open>The kernel\<close>

text \<open>The index of a thread: unsigned 32-bit arithmetic, stored in an int.\<close>

definition thread_index :: "nat \<Rightarrow> nat \<times> nat \<Rightarrow> int" where
  "thread_index block_size bt = sint (of_nat block_size * of_nat (fst bt) + of_nat (snd bt) :: u32)"

text \<open>One thread; None: it reads or writes outside of an array.\<close>

definition VecAdd :: "('a \<Rightarrow> 'a \<Rightarrow> 'a) \<Rightarrow> nat \<Rightarrow> 'a list \<Rightarrow> 'a list \<Rightarrow> int \<Rightarrow> nat \<times> nat \<Rightarrow> 'a list \<Rightarrow> 'a list option" where
  "VecAdd add block_size a b n bt c =
     (let i = thread_index block_size bt
      in if i < n
         then if 0 \<le> i \<and> nat i < length a \<and> nat i < length b \<and> nat i < length c
              then Some (c[nat i := add (a ! nat i) (b ! nat i)]) else None
         else Some c)"

fun run_threads :: "('t \<Rightarrow> 'c \<Rightarrow> 'c option) \<Rightarrow> 't list \<Rightarrow> 'c \<Rightarrow> 'c option" where
  "run_threads f [] c = Some c"
| "run_threads f (t # ts) c = (case f t c of None \<Rightarrow> None | Some c' \<Rightarrow> run_threads f ts c')"

definition threads_of :: "nat \<Rightarrow> nat \<Rightarrow> (nat \<times> nat) list" where
  "threads_of grid_size block_size = List.product [0..<grid_size] [0..<block_size]"

text \<open>(vector\_size\_ + block\_size - 1) / block\_size in int, with the division of C.\<close>

definition grid_size_of :: "int \<Rightarrow> int ending" where
  "grid_size_of n =
     (if INT32_MAX < n + 255 then Undefined
      else Done (if n + 255 \<ge> 0 then (n + 255) div 256 else - ((- (n + 255)) div 256)))"

section \<open>The class CudaWorkload\<close>

text \<open>The environment: the floats, the CUDA calls that fail, which sizes malloc gives, and the order in
  which the threads of the k-th launch run.\<close>

record 'a cuda =
  cu_add :: "'a \<Rightarrow> 'a \<Rightarrow> 'a"
  cu_float :: "int \<Rightarrow> 'a"
  cu_junk :: "nat \<Rightarrow> 'a"
  cu_fails :: "nat \<Rightarrow> bool"
  cu_malloc :: "int \<Rightarrow> bool"
  cu_order :: "nat \<Rightarrow> nat \<Rightarrow> nat \<Rightarrow> (nat \<times> nat) list"

record 'a workload =
  wl_vector_size :: int
  wl_kernels_per_task :: int
  wl_a :: "'a list"
  wl_b :: "'a list"
  wl_c :: "'a list"
  wl_calls :: nat
  wl_live :: "string list"

text \<open>CUDA\_CHECK: a failed call prints and aborts.\<close>

definition CheckCuda :: "'a cuda \<Rightarrow> 'a workload \<Rightarrow> 'a workload ending" where
  "CheckCuda C w = (if cu_fails C (wl_calls w) then Aborted else Done (w\<lparr>wl_calls := wl_calls w + 1\<rparr>))"

definition cuda_new :: "'a cuda \<Rightarrow> string \<Rightarrow> 'a workload \<Rightarrow> 'a workload ending" where
  "cuda_new C name w = bind_o (CheckCuda C w) (\<lambda>w. Done (w\<lparr>wl_live := name # wl_live w\<rparr>))"

text \<open>The loop that fills the host arrays: i * 3 is an int.\<close>

definition host_vectors :: "'a cuda \<Rightarrow> int \<Rightarrow> ('a list \<times> 'a list) ending" where
  "host_vectors C n =
     (if INT32_MAX < (n - 1) * 3 then Undefined
      else Done (map (\<lambda>i. cu_float C (int i mod 1024)) [0..<nat n], map (\<lambda>i. cu_float C ((int i * 3) mod 1024)) [0..<nat n]))"

definition new_CudaWorkload :: "'a cuda \<Rightarrow> int \<Rightarrow> int \<Rightarrow> 'a workload ending" where
  "new_CudaWorkload C vector_size kernels_per_task =
     (let bytes = (vector_size mod 18446744073709551616) * 4 mod 18446744073709551616
      in if \<not> cu_malloc C bytes then Aborted
         else bind_o (host_vectors C vector_size) (\<lambda>(a, b).
           let w = \<lparr>wl_vector_size = vector_size, wl_kernels_per_task = kernels_per_task, wl_a = [], wl_b = [], wl_c = [],
                    wl_calls = 0, wl_live = [''host_b'', ''host_a'']\<rparr>
           in bind_o (cuda_new C ''dev_a'' w) (\<lambda>w.
              bind_o (cuda_new C ''dev_b'' w) (\<lambda>w.
              bind_o (cuda_new C ''dev_c'' w) (\<lambda>w.
              bind_o (CheckCuda C (w\<lparr>wl_c := map (cu_junk C) [0..<nat vector_size]\<rparr>)) (\<lambda>w.
              bind_o (CheckCuda C (w\<lparr>wl_a := a\<rparr>)) (\<lambda>w.
              cuda_new C ''stream'' (w\<lparr>wl_b := b\<rparr>))))))))"

text \<open>The destructor frees in the order of the code and looks at no result.\<close>

definition destroy_CudaWorkload :: "'a workload \<Rightarrow> 'a workload" where
  "destroy_CudaWorkload w =
     w\<lparr>wl_live := foldl (\<lambda>live x. remove1 x live) (wl_live w) [''stream'', ''dev_a'', ''dev_b'', ''dev_c'', ''host_a'', ''host_b'']\<rparr>"

definition launch :: "'a cuda \<Rightarrow> int \<Rightarrow> nat \<Rightarrow> 'a workload \<Rightarrow> 'a workload ending" where
  "launch C grid_size k w =
     bind_o (defined_o (run_threads (VecAdd (cu_add C) 256 (wl_a w) (wl_b w) (wl_vector_size w))
        (cu_order C k (nat grid_size) 256) (wl_c w))) (\<lambda>c. Done (w\<lparr>wl_c := c\<rparr>))"

fun launches :: "'a cuda \<Rightarrow> int \<Rightarrow> nat list \<Rightarrow> 'a workload \<Rightarrow> 'a workload ending" where
  "launches C grid_size [] w = Done w"
| "launches C grid_size (k # ks) w = bind_o (launch C grid_size k w) (launches C grid_size ks)"

text \<open>A launch of no block is refused, which the check after the launches reports.\<close>

definition RunTask :: "'a cuda \<Rightarrow> 'a workload \<Rightarrow> 'a workload ending" where
  "RunTask C w =
     bind_o (grid_size_of (wl_vector_size w)) (\<lambda>grid_size.
       if grid_size < 1 \<and> 0 < wl_kernels_per_task w then Aborted
       else bind_o (launches C grid_size [0..<nat (wl_kernels_per_task w)] w) (\<lambda>w.
            bind_o (CheckCuda C w) (CheckCuda C)))"

section \<open>The transparent CUDA benchmark\<close>

fun cuda_warm_up :: "('m \<Rightarrow> 'm ending) \<Rightarrow> nat \<Rightarrow> bool list \<Rightarrow> 'm \<Rightarrow> 'm ending option" where
  "cuda_warm_up task 0 stops m = Some (Done m)"
| "cuda_warm_up task (Suc n) [] m = None"
| "cuda_warm_up task (Suc n) (stop # stops) m =
     (if stop then Some (Done m) else bind_r (Some (task m)) (cuda_warm_up task n stops))"

definition cuda_ops :: "'a cuda \<Rightarrow> (tick list, 'a workload) bench_ops" where
  "cuda_ops C =
     \<lparr>bo_before = \<lambda>_ _ w. Some (Done w),
      bo_window = \<lambda>start current ts w. window_loop (RunTask C) start current ts 0 w,
      bo_after = \<lambda>_ _ w. Some (Done w)\<rparr>"

definition kDefaultVectorSize :: int where "kDefaultVectorSize = 33554432"
definition kDefaultKernelsPerTask :: int where "kDefaultKernelsPerTask = 100"

definition cuda_header :: string where
  "cuda_header = ''window,elapsed_sec,tasks,throughput_tasks_per_sec''"

text \<open>The exit status, with what the workload still holds and the files.\<close>

definition cuda_main ::
  "'a cuda \<Rightarrow> host \<Rightarrow> (int \<Rightarrow> int \<Rightarrow> string) \<Rightarrow> env \<Rightarrow> string list \<Rightarrow> bool list \<Rightarrow> int \<Rightarrow> tick list window_obs list \<Rightarrow> files \<Rightarrow>
     (int \<times> string list \<times> files) ending option" where
  "cuda_main C H show_quotient getenv argv stops benchmark_start ws fs =
     (if length argv < 4 then Some (Done (2, [], fs))
      else
        let out = parse_path (argv ! 1);
            duration_sec = ParsePositiveLong (Some (argv ! 2)) 120;
            window_sec = ParsePositiveLong (Some (argv ! 3)) 5;
            vector_size = to_int32 (ParsePositiveLong (getenv ''GPU_TRANSPARENT_CUDA_VECTOR_SIZE'') kDefaultVectorSize);
            kernels_per_task = to_int32 (ParsePositiveLong (getenv ''GPU_TRANSPARENT_CUDA_KERNELS_PER_TASK'') kDefaultKernelsPerTask);
            warmup_tasks = ParsePositiveLong (getenv ''GPU_TRANSPARENT_CUDA_WARMUP_TASKS'') 5
        in bind_r (Some (new_CudaWorkload C vector_size kernels_per_task)) (\<lambda>w.
           bind_r (cuda_warm_up (RunTask C) (nat warmup_tasks) stops w) (\<lambda>w.
           case open_trunc H out fs of
             None \<Rightarrow> Some (Done (1, wl_live (destroy_CudaWorkload w), fs))
           | Some fs' \<Rightarrow>
               bind_r (run_windows (cuda_ops C) show_quotient H out cuda_header duration_sec window_sec benchmark_start ws w fs')
                 (\<lambda>b. Some (Done (0, wl_live (destroy_CudaWorkload (be_state b)), be_files b))))))"

section \<open>The demonstration programs\<close>

text \<open>The GPU program looks at no result of CUDA: a pointer that was not allocated is None, and a copy to it
  or a launch on it changes nothing. malloc without memory makes the loop that fills the vectors
  write through NULL.\<close>

record 'a demo =
  dm_h :: "'a list option \<times> 'a list option \<times> 'a list option"
  dm_d :: "'a list option \<times> 'a list option \<times> 'a list option"

definition VECTOR_SIZE_gpu :: nat where "VECTOR_SIZE_gpu = 2 ^ 25"
definition VECTOR_SIZE_cpu :: nat where "VECTOR_SIZE_cpu = 2 ^ 18"

definition prepareTask :: "nat \<Rightarrow> (nat \<Rightarrow> 'a) \<Rightarrow> bool \<times> bool \<times> bool \<Rightarrow> bool \<times> bool \<times> bool \<Rightarrow> (nat \<Rightarrow> 'a) \<Rightarrow> 'a demo option" where
  "prepareTask n rand_float host_ok dev_ok junk =
     (let (ha, hb, hc) = host_ok; (da, db, dc) = dev_ok;
          A = map (\<lambda>i. rand_float (2 * i)) [0..<n]; B = map (\<lambda>i. rand_float (2 * i + 1)) [0..<n]
      in if n > 0 \<and> (\<not> ha \<or> \<not> hb) then None
         else Some \<lparr>dm_h = (if ha then Some A else None, if hb then Some B else None, if hc then Some (map junk [0..<n]) else None),
                    dm_d = (if da then Some A else None, if db then Some B else None, if dc then Some (map junk [0..<n]) else None)\<rparr>)"

definition vectorAdd_launch :: "('a \<Rightarrow> 'a \<Rightarrow> 'a) \<Rightarrow> nat \<Rightarrow> (nat \<times> nat) list \<Rightarrow> 'a demo \<Rightarrow> 'a demo" where
  "vectorAdd_launch add n order d =
     (case dm_d d of
        (Some A, Some B, Some C) \<Rightarrow>
          (case run_threads (VecAdd add 256 A B (int n)) order C of
             None \<Rightarrow> d
           | Some C' \<Rightarrow> d\<lparr>dm_d := (Some A, Some B, Some C')\<rparr>)
      | _ \<Rightarrow> d)"

definition runTask :: "('a \<Rightarrow> 'a \<Rightarrow> 'a) \<Rightarrow> nat \<Rightarrow> (nat \<times> nat) list list \<Rightarrow> 'a demo \<Rightarrow> 'a demo" where
  "runTask add n orders d = fold (vectorAdd_launch add n) orders d"

definition cleanupTask :: "'a demo \<Rightarrow> 'a demo" where
  "cleanupTask d = d\<lparr>dm_h := (None, None, None), dm_d := (None, None, None)\<rparr>"

definition task_line :: "nat \<Rightarrow> int \<Rightarrow> string" where
  "task_line i ms = ''Task '' @ to_string (int i) @ '' completed in '' @ to_string ms @ '' ms'' @ newline"

text \<open>The tasks one after the other, each with its duration and the sleep after it; there is none after the
  last. The programs run 10000 and 200 tasks of 100 and 200 additions.\<close>

fun run_tasks :: "(('m \<Rightarrow> 'm) \<times> int \<times> int) list \<Rightarrow> nat \<Rightarrow> 'm \<Rightarrow> string list \<times> int list \<times> 'm" where
  "run_tasks [] i m = ([], [], m)"
| "run_tasks ((task, duration, sleepTime) # ts) i m =
     (let (printed, slept, m') = run_tasks ts (i + 1) (task m)
      in (task_line i duration # printed, (if ts \<noteq> [] then [sleepTime] else []) @ slept, m'))"

definition gpu_demo_main ::
  "('a \<Rightarrow> 'a \<Rightarrow> 'a) \<Rightarrow> nat \<Rightarrow> (nat \<Rightarrow> 'a) \<Rightarrow> bool \<times> bool \<times> bool \<Rightarrow> bool \<times> bool \<times> bool \<Rightarrow> (nat \<Rightarrow> 'a) \<Rightarrow>
     ((nat \<times> nat) list list \<times> int \<times> int) list \<Rightarrow> (string list \<times> int list \<times> 'a demo) option" where
  "gpu_demo_main add n rand_float host_ok dev_ok junk tasks =
     (case prepareTask n rand_float host_ok dev_ok junk of
        None \<Rightarrow> None
      | Some d \<Rightarrow>
          let (printed, slept, d) = run_tasks (map (\<lambda>(orders, t). (runTask add n orders, t)) tasks) 0 d
          in Some (printed, slept, cleanupTask d))"

text \<open>The CPU program: the addition is a loop over size\_t.\<close>

definition vectorAddCPU :: "('a \<Rightarrow> 'a \<Rightarrow> 'a) \<Rightarrow> 'a list \<Rightarrow> 'a list \<Rightarrow> nat \<Rightarrow> 'a list \<Rightarrow> 'a list" where
  "vectorAddCPU add a b n c = fold (\<lambda>i c. c[i := add (a ! i) (b ! i)]) [0..<n] c"

type_synonym 'a vectors = "'a list \<times> 'a list \<times> 'a list"

definition cpu_prepareTask :: "nat \<Rightarrow> (nat \<Rightarrow> 'a) \<Rightarrow> 'a \<Rightarrow> 'a vectors" where
  "cpu_prepareTask n rand_float zero =
     (map (\<lambda>i. rand_float (2 * i)) [0..<n], map (\<lambda>i. rand_float (2 * i + 1)) [0..<n], replicate n zero)"

definition cpu_runTask :: "('a \<Rightarrow> 'a \<Rightarrow> 'a) \<Rightarrow> nat \<Rightarrow> nat \<Rightarrow> 'a vectors \<Rightarrow> 'a vectors" where
  "cpu_runTask add additions n v = (let (a, b, c) = v in (a, b, (vectorAddCPU add a b n ^^ additions) c))"

definition cpu_cleanupTask :: "'a vectors \<Rightarrow> 'a vectors" where
  "cpu_cleanupTask v = ([], [], [])"

definition cpu_demo_main ::
  "('a \<Rightarrow> 'a \<Rightarrow> 'a) \<Rightarrow> nat \<Rightarrow> nat \<Rightarrow> (nat \<Rightarrow> 'a) \<Rightarrow> 'a \<Rightarrow> (int \<times> int) list \<Rightarrow> string list \<times> int list \<times> 'a vectors" where
  "cpu_demo_main add additions n rand_float zero tasks =
     (let (printed, slept, v) = run_tasks (map (Pair (cpu_runTask add additions n)) tasks) 0 (cpu_prepareTask n rand_float zero)
      in (printed, slept, cpu_cleanupTask v))"

section \<open>Facts on the kernel\<close>

lemma sint_of_nat_u32: "n < 2147483648 \<Longrightarrow> sint (of_nat n :: u32) = int n"
  by (simp add: signed_of_nat signed_take_bit_int_eq_self)

lemma thread_index_exact:
  "b < g \<Longrightarrow> t < 256 \<Longrightarrow> g \<le> 8388608 \<Longrightarrow> thread_index 256 (b, t) = int (256 * b + t)"
proof -
  assume a: "b < g" "t < 256" "g \<le> 8388608"
  then have "256 * b + t < 2147483648" by linarith
  moreover have "(of_nat 256 * of_nat b + of_nat t :: u32) = of_nat (256 * b + t)" by simp
  ultimately show ?thesis unfolding thread_index_def fst_conv snd_conv by (metis sint_of_nat_u32)
qed

lemma run_threads_VecAdd:
  assumes "length a = n" "length b = n" "\<forall>t\<in>set ts. 0 \<le> thread_index bs t" "length c = n"
  shows "\<exists>c'. run_threads (VecAdd add bs a b (int n)) ts c = Some c' \<and> length c' = n \<and>
    (\<forall>i<n. c' ! i = (if \<exists>t\<in>set ts. thread_index bs t = int i then add (a ! i) (b ! i) else c ! i))"
  using assms(3,4)
proof (induction ts arbitrary: c)
  case (Cons t ts)
  define j where "j = thread_index bs t"
  have j: "0 \<le> j" using Cons.prems(1) by (simp add: j_def)
  define c1 where "c1 = (if j < int n then c[nat j := add (a ! nat j) (b ! nat j)] else c)"
  have s: "VecAdd add bs a b (int n) t c = Some c1"
    using assms(1,2) Cons.prems(2) j by (auto simp: VecAdd_def Let_def c1_def j_def [symmetric])
  have "length c1 = n" using Cons.prems(2) by (simp add: c1_def)
  then obtain c' where c': "run_threads (VecAdd add bs a b (int n)) ts c1 = Some c'" "length c' = n"
    "\<forall>i<n. c' ! i = (if \<exists>t\<in>set ts. thread_index bs t = int i then add (a ! i) (b ! i) else c1 ! i)"
    using Cons.IH [of c1] Cons.prems(1) by auto
  have "c1 ! i = (if j = int i then add (a ! i) (b ! i) else c ! i)" if "i < n" for i
    using that Cons.prems(2) j by (auto simp: c1_def nth_list_update)
  then show ?case using s c' by (intro exI [of _ c']) (auto simp: j_def)
qed simp

text \<open>A launch whose grid covers the vector writes the sum at every place, in whatever order its threads run.\<close>

lemma launch_adds:
  assumes "length a = n" "length b = n" "length c = n" "n \<le> 256 * g" "g \<le> 8388608" "set order = set (threads_of g 256)"
  shows "run_threads (VecAdd add 256 a b (int n)) order c = Some (map2 add a b)"
proof -
  have t: "thread_index 256 t = int (256 * fst t + snd t)" if "t \<in> set order" for t
    using that assms(5,6) thread_index_exact [of "fst t" g "snd t"] by (auto simp: threads_of_def)
  obtain c' where c': "run_threads (VecAdd add 256 a b (int n)) order c = Some c'" "length c' = n"
    "\<forall>i<n. c' ! i = (if \<exists>t\<in>set order. thread_index 256 t = int i then add (a ! i) (b ! i) else c ! i)"
    using run_threads_VecAdd [OF assms(1,2) _ assms(3), of order 256 add] t by auto
  have "\<exists>t\<in>set order. thread_index 256 t = int i" if "i < n" for i
  proof
    have "i div 256 < g" using that assms(4) by (simp add: div_less_iff_less_mult)
    then show m: "(i div 256, i mod 256) \<in> set order" using assms(6) by (simp add: threads_of_def)
    show "thread_index 256 (i div 256, i mod 256) = int i" using t [OF m] by simp
  qed
  then have "c' = map2 add a b" using c'(2,3) assms(1,2) by (intro nth_equalityI) auto
  then show ?thesis using c'(1) by simp
qed

lemma vectorAddCPU_adds:
  assumes "length a = n" "length b = n" "length c = n"
  shows "vectorAddCPU add a b n c = map2 add a b"
proof -
  have "k \<le> n \<Longrightarrow> length (vectorAddCPU add a b k c) = n \<and>
      (\<forall>i<n. vectorAddCPU add a b k c ! i = (if i < k then add (a ! i) (b ! i) else c ! i))" for k
    using assms by (induction k) (auto simp: vectorAddCPU_def nth_list_update less_Suc_eq)
  from this [of n] show ?thesis using assms by (intro nth_equalityI) auto
qed

lemma grid_size_of_exact:
  assumes "0 < n" "n + 255 \<le> INT32_MAX"
  shows "\<exists>g. grid_size_of n = Done (int g) \<and> nat n \<le> 256 * g \<and> g \<le> 8388608 \<and> 0 < g"
proof -
  define g where "g = (n + 255) div 256"
  have m: "n + 255 = 256 * g + (n + 255) mod 256" "0 \<le> (n + 255) mod 256" "(n + 255) mod 256 < 256" by (simp_all add: g_def)
  then have "n \<le> 256 * g" "256 * g \<le> INT32_MAX" using assms(2) by linarith+
  moreover have "0 < g" using m assms(1) by linarith
  ultimately have "nat n \<le> 256 * nat g" "nat g \<le> 8388608" "0 < nat g" by linarith+
  then show ?thesis using assms \<open>0 < g\<close> by (intro exI [of _ "nat g"]) (simp add: grid_size_of_def g_def)
qed

section \<open>The workload\<close>

definition workload_ok :: "'a workload \<Rightarrow> bool" where
  "workload_ok w \<longleftrightarrow> 0 < wl_vector_size w \<and> wl_vector_size w + 255 \<le> INT32_MAX \<and>
     length (wl_a w) = nat (wl_vector_size w) \<and> length (wl_b w) = nat (wl_vector_size w) \<and>
     length (wl_c w) = nat (wl_vector_size w)"

definition all_buffers :: "string list" where
  "all_buffers = [''stream'', ''dev_c'', ''dev_b'', ''dev_a'', ''host_b'', ''host_a'']"

text \<open>A launch runs every thread of its grid, in some order.\<close>

definition runs_all_threads :: "'a cuda \<Rightarrow> bool" where
  "runs_all_threads C \<longleftrightarrow> (\<forall>k g bs. set (cu_order C k g bs) = set (threads_of g bs))"

lemma CheckCuda_Done: "CheckCuda C w = Done w' \<longleftrightarrow> \<not> cu_fails C (wl_calls w) \<and> w' = w\<lparr>wl_calls := wl_calls w + 1\<rparr>"
  by (auto simp: CheckCuda_def)

lemma new_CudaWorkload_live:
  "new_CudaWorkload C n k = Done w \<Longrightarrow> wl_live w = all_buffers \<and> wl_vector_size w = n \<and> wl_kernels_per_task w = k \<and>
     length (wl_a w) = nat n \<and> length (wl_b w) = nat n \<and> length (wl_c w) = nat n"
  by (auto simp: new_CudaWorkload_def cuda_new_def CheckCuda_Done host_vectors_def all_buffers_def Let_def split: if_splits)

lemma destroy_all: "wl_live w = all_buffers \<Longrightarrow> wl_live (destroy_CudaWorkload w) = []"
  by (simp add: destroy_CudaWorkload_def all_buffers_def)

lemma launches_keep:
  "launches C g ks w = Done w' \<Longrightarrow> wl_live w' = wl_live w \<and> wl_calls w' = wl_calls w \<and> wl_vector_size w' = wl_vector_size w \<and>
     wl_kernels_per_task w' = wl_kernels_per_task w"
proof (induction ks arbitrary: w)
  case (Cons k ks)
  then obtain w1 where w1: "launch C g k w = Done w1" "launches C g ks w1 = Done w'" by auto
  have "wl_live w1 = wl_live w \<and> wl_calls w1 = wl_calls w \<and> wl_vector_size w1 = wl_vector_size w \<and>
      wl_kernels_per_task w1 = wl_kernels_per_task w" using w1(1) by (auto simp: launch_def)
  then show ?case using Cons.IH [OF w1(2)] by simp
qed simp

lemma RunTask_keep:
  "RunTask C w = Done w' \<Longrightarrow> wl_live w' = wl_live w"
  by (auto simp: RunTask_def CheckCuda_Done split: if_splits dest: launches_keep)

lemma launches_add:
  assumes "runs_all_threads C" "workload_ok w" "nat (wl_vector_size w) \<le> 256 * g" "g \<le> 8388608"
  shows "launches C (int g) ks w =
    Done (if ks = [] then w else w\<lparr>wl_c := map2 (cu_add C) (wl_a w) (wl_b w)\<rparr>)"
  using assms(2,3)
proof (induction ks arbitrary: w)
  case (Cons k ks)
  let ?sum = "map2 (cu_add C) (wl_a w) (wl_b w)"
  let ?w = "w\<lparr>wl_c := ?sum\<rparr>"
  have o: "set (cu_order C k g 256) = set (threads_of g 256)" using assms(1) by (simp add: runs_all_threads_def)
  have n: "int (nat (wl_vector_size w)) = wl_vector_size w" using Cons.prems(1) by (simp add: workload_ok_def)
  have "run_threads (VecAdd (cu_add C) 256 (wl_a w) (wl_b w) (wl_vector_size w)) (cu_order C k g 256) (wl_c w) = Some ?sum"
    using launch_adds [of "wl_a w" "nat (wl_vector_size w)" "wl_b w" "wl_c w" g "cu_order C k g 256" "cu_add C"]
      Cons.prems assms(4) o n by (simp add: workload_ok_def)
  then have l: "launch C (int g) k w = Done ?w" by (simp add: launch_def defined_o_def)
  have "workload_ok ?w" using Cons.prems(1) by (simp add: workload_ok_def)
  from Cons.IH [OF this] Cons.prems(2) l show ?case by simp
qed simp

section \<open>Properties\<close>

text \<open>C19. A task of the CUDA benchmark computes the vector sum: whatever the order of the threads of its launches,
  every element of the result is the sum of the elements at its place, and nothing is written outside.\<close>

theorem RunTask_adds:
  assumes "runs_all_threads C" "workload_ok w" "0 < wl_kernels_per_task w" "\<forall>k. \<not> cu_fails C k"
  shows "\<exists>w'. RunTask C w = Done w' \<and> wl_c w' = map2 (cu_add C) (wl_a w) (wl_b w) \<and>
    wl_a w' = wl_a w \<and> wl_b w' = wl_b w \<and> workload_ok w'"
proof -
  obtain g where g: "grid_size_of (wl_vector_size w) = Done (int g)" "nat (wl_vector_size w) \<le> 256 * g" "g \<le> 8388608" "0 < g"
    using grid_size_of_exact [of "wl_vector_size w"] assms(2) by (auto simp: workload_ok_def)
  let ?w = "w\<lparr>wl_c := map2 (cu_add C) (wl_a w) (wl_b w)\<rparr>"
  have "launches C (int g) [0..<nat (wl_kernels_per_task w)] w = Done ?w"
    using launches_add [OF assms(1,2) g(2,3)] assms(3) by simp
  then have "RunTask C w = Done (?w\<lparr>wl_calls := wl_calls w + 2\<rparr>)"
    using g(1,4) assms(4) by (simp add: RunTask_def CheckCuda_def)
  then show ?thesis using assms(2) by (simp add: workload_ok_def)
qed

text \<open>C26. The GPU kernel and the CPU loop of the demonstration programs compute the same vector.\<close>

theorem kernel_equals_cpu_loop:
  assumes "length a = n" "length b = n" "length c = n" "length c' = n" "0 < n" "int n + 255 \<le> INT32_MAX"
    and "grid_size_of (int n) = Done g" "set order = set (threads_of (nat g) 256)"
  shows "run_threads (VecAdd add 256 a b (int n)) order c = Some (vectorAddCPU add a b n c')"
proof -
  obtain k where k: "grid_size_of (int n) = Done (int k)" "n \<le> 256 * k" "k \<le> 8388608"
    using grid_size_of_exact [of "int n"] assms(5,6) by auto
  then have "nat g = k" using assms(7) by simp
  then show ?thesis
    using launch_adds [OF assms(1-3) k(2,3), of order add] assms(8) vectorAddCPU_adds [OF assms(1,2,4)] by simp
qed

lemma window_loop_inv:
  assumes "\<And>m m'. P m \<Longrightarrow> infer m = Done m' \<Longrightarrow> P m'"
  shows "window_loop infer st cur ts c m = Some (Done (c', m')) \<Longrightarrow> P m \<Longrightarrow> P m'"
proof (induction ts arbitrary: c m)
  case (Cons t ts)
  show ?case
  proof (cases "tk_stop t")
    case True
    then show ?thesis using Cons.prems by simp
  next
    case False
    then obtain m1 where m1: "infer m = Done m1" using Cons.prems(1) by auto
    then have "P m1" using assms Cons.prems(2) by blast
    then show ?thesis using Cons.IH [of "c + 1" m1] Cons.prems(1) False m1 by (auto split: if_splits)
  qed
qed simp

interpretation cuda_program: bench_program "cuda_ops C" "\<lambda>_ w _. wl_live w = L" for C :: "'a cuda" and L
proof
  fix s s1 s2 s3 :: "'a workload" and idx w start cur count
  assume i: "wl_live s = L" and b: "bo_before (cuda_ops C) idx w s = Some (Done s1)"
    and l: "bo_window (cuda_ops C) start cur w s1 = Some (Done (count, s2))" and a: "bo_after (cuda_ops C) idx w s2 = Some (Done s3)"
  have "window_loop (RunTask C) start cur w 0 s = Some (Done (count, s3))" using b l a by (simp add: cuda_ops_def)
  moreover have "wl_live m' = L" if "wl_live m = L" "RunTask C m = Done m'" for m m' :: "'a workload"
    using RunTask_keep [OF that(2)] that(1) by simp
  ultimately show "wl_live s3 = L" using window_loop_inv [where P = "\<lambda>w. wl_live w = L"] i by blast
qed

lemma cuda_windows_live:
  "bench_windows (cuda_ops C) sq H p d wn bs idx ws b = Some (Done b') \<Longrightarrow> wl_live (be_state b) = L \<Longrightarrow>
     wl_live (be_state b') = L"
  by (drule cuda_program.all_windows) auto

lemma cuda_warm_up_live:
  "cuda_warm_up (RunTask C) n stops w = Some (Done w') \<Longrightarrow> wl_live w' = wl_live w"
proof (induction n arbitrary: stops w)
  case (Suc n)
  then obtain s ss where s: "stops = s # ss" by (cases stops) auto
  show ?case
  proof (cases s)
    case False
    then obtain w1 where w1: "RunTask C w = Done w1" "cuda_warm_up (RunTask C) n ss w1 = Some (Done w')" using Suc.prems s by auto
    then show ?thesis using Suc.IH [OF w1(2)] RunTask_keep [OF w1(1)] by simp
  qed (use Suc.prems s in simp)
qed simp

text \<open>However the CUDA benchmark returns, also without its output file or after a stop signal, its stream and
  all its device and host buffers are given back.\<close>

theorem cuda_main_balanced:
  assumes "cuda_main C H sq getenv argv stops bs ws fs = Some (Done (status, live, fs'))"
  shows "live = [] \<and> status \<in> {0, 1, 2} \<and> (status = 2 \<longleftrightarrow> length argv < 4)"
proof (cases "length argv < 4")
  case True
  then show ?thesis using assms by (simp add: cuda_main_def)
next
  case False
  obtain w w1 where w: "new_CudaWorkload C (to_int32 (ParsePositiveLong (getenv ''GPU_TRANSPARENT_CUDA_VECTOR_SIZE'') kDefaultVectorSize))
      (to_int32 (ParsePositiveLong (getenv ''GPU_TRANSPARENT_CUDA_KERNELS_PER_TASK'') kDefaultKernelsPerTask)) = Done w"
    "cuda_warm_up (RunTask C) (nat (ParsePositiveLong (getenv ''GPU_TRANSPARENT_CUDA_WARMUP_TASKS'') 5)) stops w = Some (Done w1)"
    using assms False by (auto simp: cuda_main_def Let_def)
  have live: "wl_live w1 = all_buffers" using new_CudaWorkload_live [OF w(1)] cuda_warm_up_live [OF w(2)] by simp
  show ?thesis
  proof (cases "open_trunc H (parse_path (argv ! 1)) fs")
    case None
    then show ?thesis using assms False w destroy_all [OF live] by (simp add: cuda_main_def Let_def)
  next
    case (Some fs1)
    then obtain b where b: "run_windows (cuda_ops C) sq H (parse_path (argv ! 1)) cuda_header
        (ParsePositiveLong (Some (argv ! 2)) 120) (ParsePositiveLong (Some (argv ! 3)) 5) bs ws w1 fs1 = Some (Done b)"
      "status = 0" "live = wl_live (destroy_CudaWorkload (be_state b))"
      using assms False w by (auto simp: cuda_main_def Let_def)
    have "wl_live (be_state b) = all_buffers"
      using b(1) cuda_windows_live live by (fastforce simp: run_windows_def Let_def csv_write_def split: if_splits option.splits)
    then show ?thesis using b(2,3) False destroy_all by simp
  qed
qed

text \<open>The vector size is cast to int without a check: 4294967296 becomes 0, and the benchmark then
  aborts at its first task, since no grid has no block.\<close>

theorem vector_size_truncated:
  assumes "new_CudaWorkload C (to_int32 (ParsePositiveLong (Some ''4294967296'') kDefaultVectorSize)) k = Done w" "0 < k"
  shows "RunTask C w = Aborted"
proof -
  have "to_int32 (ParsePositiveLong (Some ''4294967296'') kDefaultVectorSize) = 0"
    by (simp add: ParsePositiveLong_def strtol_def parse_decimal_def c_isspace_def c_isdigit_def digits_value_def
        digit_val_def to_int32_def)
  then have "wl_vector_size w = 0" "wl_kernels_per_task w = k" using new_CudaWorkload_live [OF assms(1)] by simp_all
  then show ?thesis using assms(2) by (simp add: RunTask_def grid_size_of_def)
qed

lemma run_tasks_lines:
  "fst (run_tasks (map (\<lambda>(x, t). (f x, t)) ts) i m) = fst (run_tasks (map (\<lambda>(x, t). (g x, t)) ts) i m') \<and>
   fst (snd (run_tasks (map (\<lambda>(x, t). (f x, t)) ts) i m)) = fst (snd (run_tasks (map (\<lambda>(x, t). (g x, t)) ts) i m'))"
  by (induction ts arbitrary: i m m') (auto simp: case_prod_beta' Let_def)

text \<open>The GPU demonstration program does not notice that CUDA failed: without any device memory it prints the
  same lines as with it, though nothing is added.\<close>

theorem failed_allocation_unnoticed:
  "map_option (\<lambda>r. (fst r, fst (snd r))) (gpu_demo_main add n rand_float (True, True, True) (False, False, False) junk tasks) =
   map_option (\<lambda>r. (fst r, fst (snd r))) (gpu_demo_main add n rand_float (True, True, True) (True, True, True) junk tasks)"
  using run_tasks_lines [of "runTask add n" tasks 0 _ "runTask add n"]
  by (simp add: gpu_demo_main_def prepareTask_def case_prod_beta' Let_def)

section \<open>Examples\<close>

definition demo_cuda :: "int cuda" where
  "demo_cuda = \<lparr>cu_add = (+), cu_float = \<lambda>i. i, cu_junk = \<lambda>_. 7, cu_fails = \<lambda>_. False, cu_malloc = \<lambda>_. True,
     cu_order = \<lambda>_ g bs. rev (threads_of g bs)\<rparr>"

definition demo_workload :: "int workload" where
  "demo_workload = \<lparr>wl_vector_size = 3, wl_kernels_per_task = 2, wl_a = [0, 1, 2], wl_b = [0, 3, 6], wl_c = [7, 7, 7],
     wl_calls = 0, wl_live = all_buffers\<rparr>"

theorem RunTask_adds_witness:
  "\<exists>w. RunTask demo_cuda demo_workload = Done w \<and> wl_c w = [0, 4, 8]"
proof -
  have "runs_all_threads demo_cuda" "\<forall>k. \<not> cu_fails demo_cuda k" by (simp_all add: runs_all_threads_def demo_cuda_def)
  moreover have "workload_ok demo_workload" "0 < wl_kernels_per_task demo_workload"
    by (simp_all add: workload_ok_def demo_workload_def)
  ultimately obtain w where w: "RunTask demo_cuda demo_workload = Done w"
      "wl_c w = map2 (cu_add demo_cuda) (wl_a demo_workload) (wl_b demo_workload)"
    using RunTask_adds by blast
  then show ?thesis by (simp add: demo_cuda_def demo_workload_def)
qed

theorem kernel_equals_cpu_loop_witness:
  "run_threads (VecAdd (+) 256 [0, 1, 2] [0, 3, 6] 3) (rev (threads_of 1 256)) [7, 7, 7] =
     Some (vectorAddCPU (+) [0, 1, 2] [0, 3, 6::int] 3 [9, 9, 9])"
proof -
  have "grid_size_of (int 3) = Done 1" by (simp add: grid_size_of_def)
  from kernel_equals_cpu_loop [OF _ _ _ _ _ _ this, of "[0, 1, 2]" "[0, 3, 6]" "[7, 7, 7]" "[9, 9, 9]"
      "rev (threads_of 1 256)" "(+)"]
  show ?thesis by simp
qed

definition demo_cuda_run :: "(int \<times> string list \<times> files) ending option" where
  "demo_cuda_run =
     cuda_main (demo_cuda\<lparr>cu_order := \<lambda>_ _ _. [(0, 2)]\<rparr>) quiet_host (\<lambda>_ _. ''q'')
       (\<lambda>n. if n = ''GPU_TRANSPARENT_CUDA_VECTOR_SIZE'' then Some ''3''
            else if n = ''GPU_TRANSPARENT_CUDA_KERNELS_PER_TASK'' then Some ''2''
            else if n = ''GPU_TRANSPARENT_CUDA_WARMUP_TASKS'' then Some ''1'' else None)
       [''loop'', ''/r'', ''1'', ''1''] [False] 0 [demo_window demo_ticks] demo_disk"

theorem cuda_main_balanced_witness:
  "\<exists>fs. demo_cuda_run = Some (Done (0, [], fs)) \<and> fs [''r''] \<noteq> None"
proof -
  have "case demo_cuda_run of Some (Done (status, live, fs)) \<Rightarrow> status = 0 \<and> fs [''r''] \<noteq> None | _ \<Rightarrow> False" by code_simp
  then obtain status live fs where r: "demo_cuda_run = Some (Done (status, live, fs))" "status = 0" "fs [''r''] \<noteq> None"
    by (auto split: option.splits ending.splits)
  show ?thesis using cuda_main_balanced [OF r(1) [unfolded demo_cuda_run_def]] r by (intro exI [of _ fs]) simp
qed

theorem vector_size_truncated_witness:
  "\<exists>w. new_CudaWorkload demo_cuda (to_int32 (ParsePositiveLong (Some ''4294967296'') kDefaultVectorSize)) 2 = Done w \<and>
     RunTask demo_cuda w = Aborted"
proof -
  have z: "to_int32 (ParsePositiveLong (Some ''4294967296'') kDefaultVectorSize) = 0"
    by (simp add: ParsePositiveLong_def strtol_def parse_decimal_def c_isspace_def c_isdigit_def digits_value_def
        digit_val_def to_int32_def)
  have "case new_CudaWorkload demo_cuda 0 2 of Done w \<Rightarrow> True | _ \<Rightarrow> False" by code_simp
  then obtain w where "new_CudaWorkload demo_cuda 0 2 = Done w" by (auto split: ending.splits)
  then have w: "new_CudaWorkload demo_cuda (to_int32 (ParsePositiveLong (Some ''4294967296'') kDefaultVectorSize)) 2 = Done w"
    by (simp only: z)
  show ?thesis using vector_size_truncated [OF w] w by simp
qed

end
