(* ===== verification/Spec2Isabelle.thy ===== *)
theory Spec2Isabelle
  imports Prelude CString Doca DpaCommon DpaObjects DpaMain DpaHost SignalGuard Pipeline KernelLaunch LaunchCorrect LaunchSession Heartbeat HighPriority HighSession TimeSlice FsPath HostFs Workspace Upload ClientStream UploadTransfer Sessions Leases ShellText RuntimeControl TaskExecutor TaskCorrect OutputArchive RemoteService Interleaving LogPrinter ClientApi ClientOptions RemoteClient Controller Integrated EndToEnd ClientTerminal Interrupts ClientDisplay Logging ContextLog TokenThrottle WindowSync Endings Tensors TrtModel TrtCorrect GpuBench BenchCorrect SyncEnds RateControl CudaWorkload
begin

text \<open>
  DReX, a remote executor for DPU, GPU and CPU tasks. A client uploads a directory to a server
  (server/), which runs a command in it and streams the output back (client/); a resource
  controller, which is not part of the repository, hands out nodes. The DPU workloads
  (application/dpu, application/dpu\_ts) are C programs that keep a window of kernels in flight
  on a DPA through the DOCA SDK.

  Server, server/remote\_service\_implement.cc, task\_executor.cc and task\_runtime\_control.cc:
  FsPath (std::filesystem::path as elements, lexically\_normal, IsSubPath), HostFs (the file
  system as a map from names to directories and files), Workspace (ResolveTaskPaths and
  WorkspaceLockGuard; a guard is a record, the table g\_locked\_subdirs is passed along), Upload
  (WorkspaceDownloadSession), Sessions (the calls of all clients as one machine whose steps are
  single requests, ends of tasks, cleanups and releases, in any order), Leases (what that machine
  promises, as an abstract specification, and the refinement), ShellText (ShellEscape
  and the command line), RuntimeControl (g\_workspace\_to\_pgid, /proc, xcli), TaskExecutor and
  TaskCorrect (environment, start, monitoring and outcome of the child), OutputArchive (the members
  that would archive results), ContextLog (LogExecutionContext), RemoteService (TaskSubmission and
  UpdateUtilization).

  Client, client/: ClientStream (chunks, progress, configuration message), LogPrinter (the lambda
  print\_log), ClientApi (client\_api.cc), ClientOptions (the three command lines), RemoteClient
  (client.cc), Controller (resource\_client.cc and the messages of the controller), Integrated
  (integrated\_client.cc), ClientTerminal (ScopedClientCancellation) and ClientDisplay (byte counts, lists of cores and the
  idle line of client\_api.cc). Logging holds the loggers of both programs and the start of the server
  (server.cc). UploadTransfer joins the upload of the client to the session of the server,
  Interleaving puts such an upload among the calls of other clients and their updates, Interrupts
  follows SIGINT from the client to the task, EndToEnd joins a whole client run to a whole TaskSubmission.

  DPU: CString (strtol, strtoul, environment readers), Doca (SDK calls as a run with a parameter
  for the answers), DpaCommon and DpaObjects (dpa\_common.c), DpaMain
  (dpa\_kernel\_launch\_main.c), DpaHost (clocks, sleeps, the summary, the device kernel), SignalGuard
  (the signal handlers of the hosts),
  KernelLaunch with LaunchCorrect, LaunchSession and Heartbeat (the low priority host), HighPriority
  and HighSession, TimeSlice. A host is a state record with one step function for the launching thread, one for
  the completion worker and one for the signal handler; Pipeline holds what the three windows
  share. Prelude holds the named collections and the generic lemmas.

  GPU and CPU workloads, application/: TokenThrottle (gpu\_token\_up, the throttle that obeys the utilization
  file of the server), WindowSync and SyncEnds (gpu\_dynamic\_up, two processes kept in step through
  shared memory: the barrier, its set-up and its last calls), Endings (how a C++ call ends: it returns,
  aborts, throws or has no defined behaviour), Tensors and TrtModel with TrtCorrect (trt/src/tensor.cpp
  and model.cpp, a host and a device memory and one stream of operations that run when it is
  synchronised), GpuBench with BenchCorrect (main of gpu\_transparent\_up, gpu\_token\_up and
  gpu\_dynamic\_up over one description of a window), RateControl (a call UpdateUtilization of the server and
  a run of the token benchmark together), CudaWorkload (gpu\_transparent\_cuda and the demonstration
  programs of gpu and cpu).

  How the code is modelled. Errors are options or sums whose left side is the gRPC status or the
  text of an exception, every early return being a branch. What the kernel, the DOCA SDK, gRPC
  and the controller answer is a parameter: a function, a record of answers or a list of
  observations, one for each round of a loop. Loops are recursion on the list or on a measure; the
  monitoring loop consumes one observation per round and has no result when they run out, and
  TaskCorrect shows when it returns. The DPU machines are small steps: 24 rounds per task and 21
  more let kernel\_launch end, for fewer than 2 ^ 64 - 1 launches; the counters are 64 bit words.
  The environments, file systems and tables are maps.

  What is shown. Server: paths and uploads are confined to the workspace; in every interleaving
  the locked keys are exactly those of the accepted calls, a step of one call leaves the files
  outside its own directories alone, and the calls are leases of a key and two directories that are
  granted, used, cleaned and returned in that order; a call does among others what it does alone as
  long as they keep away from its workspace; the end of a submission releases its lock, removes exactly
  its directories and sends one result; the output of the child is relayed completely, success
  means exit status 0, the idle timeout fires, a cancelled task is stopped once, the table of tasks is
  restored. Client: an upload arrives as it is on disk, also between the uploads of others, logs are printed unchanged but for their prefixes, options survive
  being written and parsed, an executed task gives its reservation back. Together: exit code 0 of
  the client means that the command ended with status 0. DPU: the windows, the gates, the
  summaries and the balance of acquired and released objects, the high priority host as a
  refinement of the low priority one. GPU: a benchmark run
  under the throttle keeps the rate that the server wrote into its file, a window counts the inferences made in it,
  a model infers on the buffers its copies fill, a saved engine is the one loaded, the CUDA task adds
  its vectors whatever the order of its threads, the two processes of the dynamic benchmark measure in
  the same windows and, with equally many calls, both end. The theorems of kind error show where the code falls short.

  The interfaces are locales: a table of locks, a registry of tasks, a logger and a benchmark program,
  interpreted on the operations of the server, of the client and of the GPU programs.

  Not modelled, and why. Time stamps and colors of log lines, most texts of log lines, seconds printed in
  floating point carry no state. Execute leaves LogExecutionContext out, whose lines the logger drops
  and which can only throw; ContextLog has it. The leases speak of the calls of TaskSubmission; the updates,
  which take no lock, are part of Interleaving. The file system has no symbolic
  links and an open stream is its path. The two signals of the cancellation thread are one step,
  taken between rounds of the monitoring loop or when it is told to stop.
  WriteTerminalOutput and CreateOutputArchive are modelled but never called. TensorRT, CUDA, the DOCA
  SDK, gRPC and the logging library are parameters; floating point numbers of the GPU reports are texts
  of quotients, and the floats of the vectors any type with an addition. The DPU sources and the tensor and model files of the GPU workloads
  exist in several copies that are the same but for a few names and sizes; one of each is modelled.
\<close>

end
